(* ===== verification/Prelude.thy ===== *)
theory Prelude
  imports Main "HOL-Library.Code_Target_Numeral" "HOL-Library.Sublist"
begin

text \<open>
  Shared ground of the development.  JavaScript strings are sequences of UTF-16 code units;
  a code unit is a natural number and \<open>js\<close> turns an Isabelle string literal into the
  string of the source.  A \<open>throw\<close> of the source is the left injection of a sum, and
  \<open>rbind\<close> sequences two computations that may throw.  The theory also holds the string
  functions of the standard library that the sources call, and the list lemmas the
  components share.
\<close>

named_theorems rbind_simps \<open>rewrite rules for computations that may throw\<close>
named_theorems text_simps \<open>rewrite rules for slices and trimmed strings\<close>

section \<open>Computations that may throw\<close>

definition rbind :: "'e + 'a \<Rightarrow> ('a \<Rightarrow> 'e + 'b) \<Rightarrow> 'e + 'b" where
  "rbind m f = (case m of Inl e \<Rightarrow> Inl e | Inr x \<Rightarrow> f x)"

lemma rbind_Inl [simp, rbind_simps]: "rbind (Inl e) f = Inl e"
  by (simp add: rbind_def)

lemma rbind_Inr [simp, rbind_simps]: "rbind (Inr x) f = f x"
  by (simp add: rbind_def)

lemma rbind_eq_Inr [rbind_simps]: "rbind m f = Inr y \<longleftrightarrow> (\<exists>x. m = Inr x \<and> f x = Inr y)"
  by (cases m) auto

lemma rbind_eq_Inl [rbind_simps]:
  "rbind m f = Inl e \<longleftrightarrow> m = Inl e \<or> (\<exists>x. m = Inr x \<and> f x = Inl e)"
  by (cases m) auto

lemma rbind_cong [fundef_cong]:
  "m = m' \<Longrightarrow> (\<And>x. m' = Inr x \<Longrightarrow> f x = f' x) \<Longrightarrow> rbind m f = rbind m' f'"
  by (cases m') auto

lemma rbind_assoc: "rbind (rbind m f) g = rbind m (\<lambda>x. rbind (f x) g)"
  by (cases m) auto

lemma rbindE:
  assumes "rbind m f = Inr y"
  obtains x where "m = Inr x" and "f x = Inr y"
  using assms by (cases m) auto

fun rfold :: "('a \<Rightarrow> 's \<Rightarrow> 'e + 's) \<Rightarrow> 'a list \<Rightarrow> 's \<Rightarrow> 'e + 's" where
  "rfold f [] s = Inr s"
| "rfold f (x # xs) s = rbind (f x s) (\<lambda>s'. rfold f xs s')"

lemma rfold_append: "rfold f (xs @ ys) s = rbind (rfold f xs s) (\<lambda>s'. rfold f ys s')"
  by (induction xs arbitrary: s) (simp_all add: rbind_def split: sum.split)

lemma rfold_pure: "(\<And>x s. x \<in> set xs \<Longrightarrow> f x s = Inr (g x s)) \<Longrightarrow> rfold f xs s = Inr (fold g xs s)"
  by (induction xs arbitrary: s) auto

fun rmap :: "('a \<Rightarrow> 'e + 'b) \<Rightarrow> 'a list \<Rightarrow> 'e + 'b list" where
  "rmap f [] = Inr []"
| "rmap f (x # xs) = rbind (f x) (\<lambda>y. rbind (rmap f xs) (\<lambda>ys. Inr (y # ys)))"

lemma rmap_cong [fundef_cong]:
  "xs = ys \<Longrightarrow> (\<And>x. x \<in> set ys \<Longrightarrow> f x = g x) \<Longrightarrow> rmap f xs = rmap g ys"
  by (induction xs arbitrary: ys) auto

lemma rmap_Inr_length: "rmap f xs = Inr ys \<Longrightarrow> length ys = length xs"
  by (induction xs arbitrary: ys) (auto simp: rbind_simps)

lemma rmap_Inr_iff: "(\<exists>ys. rmap f xs = Inr ys) \<longleftrightarrow> (\<forall>x \<in> set xs. \<exists>y. f x = Inr y)"
  by (induction xs) (simp, auto simp: rbind_eq_Inr)

lemma rmap_all: "rmap f xs = Inr ys \<Longrightarrow> x \<in> set xs \<Longrightarrow> \<exists>y. f x = Inr y \<and> map_of (zip xs ys) x = Some y"
  by (induction xs arbitrary: ys) (auto simp: rbind_simps)

lemma rfold_cong: "(\<And>a s. a \<in> set as \<Longrightarrow> f a s = g a s) \<Longrightarrow> rfold f as s = rfold g as s"
  by (induction as arbitrary: s) (auto intro: rbind_cong)

section \<open>JavaScript strings\<close>

type_synonym code_unit = nat
type_synonym jsstring = "code_unit list"

definition js :: "string \<Rightarrow> jsstring" where
  "js s = map of_char s"

lemma js_eq_iff [simp]: "js s = js t \<longleftrightarrow> s = t"
proof -
  have "inj (map (of_char :: char \<Rightarrow> nat))"
    by (simp add: inj_of_char)
  then show ?thesis by (auto simp: js_def dest: injD)
qed

lemma length_js [simp]: "length (js s) = length s"
  by (simp add: js_def)

lemma js_Nil [simp]: "js [] = []"
  by (simp add: js_def)

lemma js_eq_Nil [simp]: "js s = [] \<longleftrightarrow> s = []" "[] = js s \<longleftrightarrow> s = []"
  by (auto simp: js_def)

lemma js_append: "js (s @ t) = js s @ js t"
  by (simp add: js_def)

text \<open>The code units that the regular expression class \<open>\s\<close> and \<open>trim\<close> take for white space.\<close>

definition is_space :: "code_unit \<Rightarrow> bool" where
  "is_space c \<longleftrightarrow> (9 \<le> c \<and> c \<le> 13) \<or> c = 32 \<or> c = 160 \<or> c = 5760 \<or> (8192 \<le> c \<and> c \<le> 8202)
     \<or> c = 8232 \<or> c = 8233 \<or> c = 8239 \<or> c = 8287 \<or> c = 12288 \<or> c = 65279"

definition is_digit :: "code_unit \<Rightarrow> bool" where
  "is_digit c \<longleftrightarrow> 48 \<le> c \<and> c \<le> 57"

definition is_letter :: "code_unit \<Rightarrow> bool" where
  "is_letter c \<longleftrightarrow> (65 \<le> c \<and> c \<le> 90) \<or> (97 \<le> c \<and> c \<le> 122)"

text \<open>The class \<open>\w\<close>: letters, digits and the underscore.\<close>

definition is_word :: "code_unit \<Rightarrow> bool" where
  "is_word c \<longleftrightarrow> is_letter c \<or> is_digit c \<or> c = 95"

definition is_hex :: "code_unit \<Rightarrow> bool" where
  "is_hex c \<longleftrightarrow> is_digit c \<or> (65 \<le> c \<and> c \<le> 70) \<or> (97 \<le> c \<and> c \<le> 102)"

definition hex_value :: "code_unit \<Rightarrow> nat" where
  "hex_value c = (if is_digit c then c - 48 else if c \<le> 70 then c - 55 else c - 87)"

definition parse_hex :: "jsstring \<Rightarrow> nat" where
  "parse_hex s = foldl (\<lambda>n c. 16 * n + hex_value c) 0 s"

definition slice :: "jsstring \<Rightarrow> nat \<Rightarrow> nat \<Rightarrow> jsstring" where
  "slice s i j = take (j - i) (drop i s)"

definition trim_start :: "jsstring \<Rightarrow> jsstring" where
  "trim_start s = dropWhile is_space s"

definition trim_end :: "jsstring \<Rightarrow> jsstring" where
  "trim_end s = rev (dropWhile is_space (rev s))"

definition trim :: "jsstring \<Rightarrow> jsstring" where
  "trim s = trim_end (trim_start s)"

fun starts_with :: "jsstring \<Rightarrow> jsstring \<Rightarrow> bool" where
  "starts_with s [] = True"
| "starts_with [] (p # ps) = False"
| "starts_with (c # s) (p # ps) = (c = p \<and> starts_with s ps)"

fun str_includes :: "jsstring \<Rightarrow> jsstring \<Rightarrow> bool" where
  "str_includes [] p = (p = [])"
| "str_includes (c # s) p = (starts_with (c # s) p \<or> str_includes s p)"

fun str_less :: "jsstring \<Rightarrow> jsstring \<Rightarrow> bool" where
  "str_less s [] = False"
| "str_less [] (d # t) = True"
| "str_less (c # s) (d # t) = (c < d \<or> c = d \<and> str_less s t)"

fun join :: "jsstring \<Rightarrow> jsstring list \<Rightarrow> jsstring" where
  "join sep [] = []"
| "join sep [s] = s"
| "join sep (s # t # ss) = s @ sep @ join sep (t # ss)"

subsection \<open>Facts about strings\<close>

lemma starts_with_iff: "starts_with s p \<longleftrightarrow> prefix p s"
  by (induction s p rule: starts_with.induct) auto

lemma str_includes_iff: "str_includes s p \<longleftrightarrow> sublist p s"
  by (induction s) (auto simp: starts_with_iff sublist_Cons_right)

lemma str_less_irrefl [simp]: "\<not> str_less s s"
  by (induction s) auto

lemma str_less_trans: "str_less s t \<Longrightarrow> str_less t v \<Longrightarrow> str_less s v"
proof (induction s t arbitrary: v rule: str_less.induct)
  case (1 s)
  then show ?case by simp
next
  case (2 d t)
  then show ?case by (cases v) auto
next
  case (3 c s d t)
  then show ?case by (cases v) auto
qed

lemma str_less_total: "str_less s t \<or> s = t \<or> str_less t s"
proof (induction s t rule: str_less.induct)
  case (1 s)
  then show ?case by (cases s) auto
qed auto

lemma slice_self [simp, text_simps]: "slice s i i = []"
  by (simp add: slice_def)

lemma slice_all [simp, text_simps]: "slice s 0 (length s) = s"
  by (simp add: slice_def)

lemma length_slice [simp, text_simps]: "length (slice s i j) = min (j - i) (length s - i)"
  by (simp add: slice_def)

lemma slice_append: "i \<le> j \<Longrightarrow> j \<le> k \<Longrightarrow> slice s i j @ slice s j k = slice s i k"
proof -
  assume ij: "i \<le> j" and jk: "j \<le> k"
  have "take (k - i) (drop i s) = take (j - i) (drop i s) @ take (k - j) (drop (j - i) (drop i s))"
    using ij jk by (metis Nat.diff_diff_eq le_add_diff_inverse2 le_diff_conv2 add.commute take_add
        Nat.add_diff_assoc2 diff_add)
  then show ?thesis using ij by (simp add: slice_def)
qed

lemma slice_slice: "j \<le> k \<Longrightarrow> slice (slice s i k) 0 (j - i) = slice s i j"
  by (simp add: slice_def min_def)

lemma trim_start_idem [simp, text_simps]: "trim_start (trim_start s) = trim_start s"
  by (simp add: trim_start_def)

lemma trim_end_idem [simp, text_simps]: "trim_end (trim_end s) = trim_end s"
  by (simp add: trim_end_def)

lemma trim_end_hd: "trim_end s \<noteq> [] \<Longrightarrow> hd (trim_end s) = hd s"
  unfolding trim_end_def
  by (metis append_is_Nil_conv hd_append2 rev_append rev_is_rev_conv takeWhile_dropWhile_id
      rev.simps(1) rev_rev_ident)

lemma dropWhile_id: "xs = [] \<or> \<not> P (hd xs) \<Longrightarrow> dropWhile P xs = xs"
  by (cases xs) auto

lemma trim_idem [simp, text_simps]: "trim (trim s) = trim s"
proof -
  let ?t = "trim_start s"
  have "trim_start (trim_end ?t) = trim_end ?t"
  proof (cases "trim_end ?t = []")
    case True
    then show ?thesis by (simp add: trim_start_def)
  next
    case False
    then have ne: "?t \<noteq> []" by (auto simp: trim_end_def)
    then have "\<not> is_space (hd ?t)" unfolding trim_start_def by (rule hd_dropWhile)
    with False trim_end_hd have "\<not> is_space (hd (trim_end ?t))" by metis
    then show ?thesis by (simp add: trim_start_def dropWhile_id)
  qed
  then show ?thesis by (simp add: trim_def)
qed

lemma trim_Nil [simp, text_simps]: "trim [] = []"
  by (simp add: trim_def trim_start_def trim_end_def)

lemma parse_hex_bound: "\<forall>c \<in> set s. is_hex c \<Longrightarrow> parse_hex s < 16 ^ length s"
proof (induction s rule: rev_induct)
  case Nil
  then show ?case by (simp add: parse_hex_def)
next
  case (snoc c s)
  then have IH: "parse_hex s < 16 ^ length s" by simp
  from snoc.prems have "hex_value c < 16"
    by (auto simp: hex_value_def is_hex_def is_digit_def)
  with IH have "16 * parse_hex s + hex_value c < 16 * 16 ^ length s" by linarith
  then show ?case by (simp add: parse_hex_def)
qed

end
