(* ===== verification/JsNumber.thy ===== *)
theory JsNumber
  imports Prelude Complex_Main "HOL-Library.Log_Nat"
begin

text \<open>
  The Number type of the language: IEEE 754 binary64 values with round-to-nearest, ties to
  even.  A finite value is a sign, a significand and an exponent in canonical form
  (\<open>valid_number\<close>), so that HOL equality tells apart exactly the values that
  \<open>Object.is\<close> tells apart.  Every operation computes the exact rational result with
  integers and rounds it once (\<open>round_ratio\<close>).  \<open>js_Number\<close> and \<open>js_String\<close>
  are the conversions between numbers and strings; \<open>js_String\<close> looks for the shortest
  digit string that reads back as the number, as the language standard prescribes.
\<close>

section \<open>Values and rounding\<close>

datatype js_number = NaN | Infinite bool | Finite bool int int

definition round_half_even :: "int \<Rightarrow> int \<Rightarrow> int" where
  "round_half_even n d =
     (let m = n div d; r = n mod d
      in if d < 2 * r \<or> 2 * r = d \<and> odd m then m + 1 else m)"

definition leading_exponent :: "int \<Rightarrow> int \<Rightarrow> int" where
  "leading_exponent p q =
     (let e = bitlen p - bitlen q - 53
      in if p * 2 ^ nat (- e) < 2 ^ 53 * (q * 2 ^ nat e) then e else e + 1)"

definition pack :: "bool \<Rightarrow> int \<Rightarrow> int \<Rightarrow> js_number" where
  "pack s m e =
     (if m = 2 ^ 53 then (if 970 < e then Infinite s else Finite s (2 ^ 52) (e + 1))
      else if 971 < e then Infinite s else Finite s m e)"

definition round_ratio :: "bool \<Rightarrow> int \<Rightarrow> int \<Rightarrow> js_number" where
  "round_ratio s p q =
     (if p = 0 then Finite s 0 (- 1074)
      else let e = max (leading_exponent p q) (- 1074)
           in pack s (round_half_even (p * 2 ^ nat (- e)) (q * 2 ^ nat e)) e)"

fun valid_number :: "js_number \<Rightarrow> bool" where
  "valid_number (Finite s m e) \<longleftrightarrow>
     0 \<le> m \<and> m < 2 ^ 53 \<and> - 1074 \<le> e \<and> e \<le> 971 \<and> (e = - 1074 \<or> 2 ^ 52 \<le> m)"
| "valid_number _ \<longleftrightarrow> True"

definition num :: "int \<Rightarrow> js_number" where
  "num n = round_ratio (n < 0) \<bar>n\<bar> 1"

abbreviation zero_num :: js_number where
  "zero_num \<equiv> Finite False 0 (- 1074)"

section \<open>Operators\<close>

definition signed :: "bool \<Rightarrow> int \<Rightarrow> int" where
  "signed s m = (if s then - m else m)"

text \<open>The integer \<open>n\<close> times two to the power \<open>g\<close>, rounded.\<close>

definition round_scaled :: "int \<Rightarrow> int \<Rightarrow> js_number" where
  "round_scaled n g = round_ratio (n < 0) (\<bar>n\<bar> * 2 ^ nat g) (2 ^ nat (- g))"

fun js_neg :: "js_number \<Rightarrow> js_number" where
  "js_neg NaN = NaN"
| "js_neg (Infinite s) = Infinite (\<not> s)"
| "js_neg (Finite s m e) = Finite (\<not> s) m e"

definition align :: "bool \<Rightarrow> int \<Rightarrow> int \<Rightarrow> int \<Rightarrow> int" where
  "align s m e g = signed s (m * 2 ^ nat (e - g))"

fun js_add :: "js_number \<Rightarrow> js_number \<Rightarrow> js_number" where
  "js_add (Finite s m e) (Finite t n f) =
     (let g = min e f; a = align s m e g + align t n f g
      in if a = 0 then Finite (s \<and> t) 0 (- 1074) else round_scaled a g)"
| "js_add (Infinite s) (Infinite t) = (if s = t then Infinite s else NaN)"
| "js_add (Infinite s) (Finite _ _ _) = Infinite s"
| "js_add (Finite _ _ _) (Infinite t) = Infinite t"
| "js_add _ _ = NaN"

definition js_sub :: "js_number \<Rightarrow> js_number \<Rightarrow> js_number" where
  "js_sub x y = js_add x (js_neg y)"

fun js_mul :: "js_number \<Rightarrow> js_number \<Rightarrow> js_number" where
  "js_mul (Finite s m e) (Finite t n f) =
     round_ratio (s \<noteq> t) (m * n * 2 ^ nat (e + f)) (2 ^ nat (- (e + f)))"
| "js_mul (Infinite s) (Infinite t) = Infinite (s \<noteq> t)"
| "js_mul (Infinite s) (Finite t n f) = (if n = 0 then NaN else Infinite (s \<noteq> t))"
| "js_mul (Finite s m e) (Infinite t) = (if m = 0 then NaN else Infinite (s \<noteq> t))"
| "js_mul _ _ = NaN"

fun js_div :: "js_number \<Rightarrow> js_number \<Rightarrow> js_number" where
  "js_div (Finite s m e) (Finite t n f) =
     (if n = 0 then (if m = 0 then NaN else Infinite (s \<noteq> t))
      else round_ratio (s \<noteq> t) (m * 2 ^ nat (e - f)) (n * 2 ^ nat (f - e)))"
| "js_div (Infinite s) (Finite t n f) = Infinite (s \<noteq> t)"
| "js_div (Finite s m e) (Infinite t) = Finite (s \<noteq> t) 0 (- 1074)"
| "js_div _ _ = NaN"

text \<open>The remainder has the sign of the dividend.\<close>

fun js_mod :: "js_number \<Rightarrow> js_number \<Rightarrow> js_number" where
  "js_mod (Finite s m e) (Finite t n f) =
     (if n = 0 then NaN
      else let g = min e f; r = (m * 2 ^ nat (e - g)) mod (n * 2 ^ nat (f - g))
           in round_ratio s (r * 2 ^ nat g) (2 ^ nat (- g)))"
| "js_mod (Finite s m e) (Infinite t) = Finite s m e"
| "js_mod _ _ = NaN"

fun js_less :: "js_number \<Rightarrow> js_number \<Rightarrow> bool" where
  "js_less (Finite s m e) (Finite t n f) =
     (let g = min e f in align s m e g < align t n f g)"
| "js_less (Infinite s) (Infinite t) = (s \<and> \<not> t)"
| "js_less (Infinite s) (Finite _ _ _) = s"
| "js_less (Finite _ _ _) (Infinite t) = (\<not> t)"
| "js_less _ _ = False"

text \<open>Strict equality: the zeros are equal and NaN is equal to nothing.\<close>

fun js_eq :: "js_number \<Rightarrow> js_number \<Rightarrow> bool" where
  "js_eq (Finite s m e) (Finite t n f) = (m = n \<and> e = f \<and> (s = t \<or> m = 0))"
| "js_eq (Infinite s) (Infinite t) = (s = t)"
| "js_eq _ _ = False"

definition js_le :: "js_number \<Rightarrow> js_number \<Rightarrow> bool" where
  "js_le x y = (js_less x y \<or> js_eq x y)"

fun is_finite :: "js_number \<Rightarrow> bool" where
  "is_finite (Finite _ _ _) = True"
| "is_finite _ = False"

fun is_integer :: "js_number \<Rightarrow> bool" where
  "is_integer (Finite s m e) = (m mod 2 ^ nat (- e) = 0)"
| "is_integer _ = False"

fun is_safe_integer :: "js_number \<Rightarrow> bool" where
  "is_safe_integer (Finite s m e) =
     (m mod 2 ^ nat (- e) = 0 \<and> m * 2 ^ nat e \<le> (2 ^ 53 - 1) * 2 ^ nat (- e))"
| "is_safe_integer _ = False"

fun js_abs :: "js_number \<Rightarrow> js_number" where
  "js_abs NaN = NaN"
| "js_abs (Infinite s) = Infinite False"
| "js_abs (Finite s m e) = Finite False m e"

fun js_floor :: "js_number \<Rightarrow> js_number" where
  "js_floor (Finite s m e) =
     (if 0 \<le> e then Finite s m e
      else let k = signed s m div 2 ^ nat (- e)
           in if k = 0 then Finite s 0 (- 1074) else num k)"
| "js_floor x = x"

definition js_ceil :: "js_number \<Rightarrow> js_number" where
  "js_ceil x = js_neg (js_floor (js_neg x))"

fun is_negative :: "js_number \<Rightarrow> bool" where
  "is_negative (Finite s _ _) = s"
| "is_negative (Infinite s) = s"
| "is_negative NaN = False"

definition js_min :: "js_number \<Rightarrow> js_number \<Rightarrow> js_number" where
  "js_min x y =
     (if x = NaN \<or> y = NaN then NaN
      else if js_eq x y then (if is_negative x then x else y)
      else if js_less x y then x else y)"

definition js_max :: "js_number \<Rightarrow> js_number \<Rightarrow> js_number" where
  "js_max x y =
     (if x = NaN \<or> y = NaN then NaN
      else if js_eq x y then (if is_negative x then y else x)
      else if js_less x y then y else x)"

section \<open>Evaluation of the tests\<close>

text \<open>The same tests, for evaluation: no significand is shifted where signs or zeros decide.\<close>

lemma align_sign:
  "0 < align s m e g \<longleftrightarrow> 0 < signed s m" "align s m e g < 0 \<longleftrightarrow> signed s m < 0"
  by (simp_all add: align_def signed_def zero_less_mult_iff mult_less_0_iff)

lemma js_less_code [code]:
  "js_less (Finite s m e) (Finite t n f) =
     (let a = signed s m; b = signed t n in
      if a \<le> 0 \<and> 0 < b \<or> a < 0 \<and> b = 0 then True
      else if 0 \<le> a \<and> b \<le> 0 then False
      else let g = min e f in align s m e g < align t n f g)"
  "js_less (Infinite s) (Infinite t) = (s \<and> \<not> t)"
  "js_less (Infinite s) (Finite t n f) = s"
  "js_less (Finite s m e) (Infinite t) = (\<not> t)"
  "js_less NaN y = False"
  "js_less x NaN = False"
proof -
  let ?x = "align s m e (min e f)" and ?y = "align t n f (min e f)"
  show "js_less (Finite s m e) (Finite t n f) =
     (let a = signed s m; b = signed t n in
      if a \<le> 0 \<and> 0 < b \<or> a < 0 \<and> b = 0 then True
      else if 0 \<le> a \<and> b \<le> 0 then False
      else let g = min e f in align s m e g < align t n f g)"
    using align_sign [of s m e "min e f"] align_sign [of t n f "min e f"]
    by (auto simp: Let_def not_less not_le)
qed (cases x; simp)+

lemma is_integer_code [code]:
  "is_integer (Finite s m e) = (m = 0 \<or> m mod 2 ^ nat (- e) = 0)"
  "is_integer (Infinite s) = False" "is_integer NaN = False"
  by auto

lemma is_safe_integer_code [code]:
  "is_safe_integer (Finite s m e) = (m = 0 \<or> m mod 2 ^ nat (- e) = 0 \<and> m * 2 ^ nat e \<le> (2 ^ 53 - 1) * 2 ^ nat (- e))"
  "is_safe_integer (Infinite s) = False" "is_safe_integer NaN = False"
  by auto
section \<open>Reading numbers\<close>

definition digits_value :: "jsstring \<Rightarrow> int" where
  "digits_value s = foldl (\<lambda>n c. 10 * n + int (c - 48)) 0 s"

text \<open>An optional exponent part: its value and what follows it.\<close>

definition scan_exponent :: "jsstring \<Rightarrow> int \<times> jsstring" where
  "scan_exponent r =
     (case r of
        [] \<Rightarrow> (0, r)
      | c # t \<Rightarrow>
          if c = 101 \<or> c = 69 then
            let t' = (case t of d # u \<Rightarrow> if d = 43 \<or> d = 45 then u else t | [] \<Rightarrow> t);
                neg = (case t of d # u \<Rightarrow> d = 45 | [] \<Rightarrow> False);
                ds = takeWhile is_digit t'
            in if ds = [] then (0, r)
               else (if neg then - digits_value ds else digits_value ds, dropWhile is_digit t')
          else (0, r))"

text \<open>
  The longest prefix that matches
  \<open>(?:\d+(?:\.\d*)?|\.\d+)(?:[eE][+-]?\d+)?\<close>: the integer its digits form, the power of
  ten that scales it, and the rest of the string.
\<close>

definition scan_decimal :: "jsstring \<Rightarrow> (int \<times> int \<times> jsstring) option" where
  "scan_decimal s =
     (let ip = takeWhile is_digit s; r = dropWhile is_digit s;
          dot = (case r of c # _ \<Rightarrow> c = 46 | [] \<Rightarrow> False);
          fp = (if dot then takeWhile is_digit (tl r) else []);
          r' = (if dot then dropWhile is_digit (tl r) else r)
      in if ip = [] \<and> fp = [] then None
         else case scan_exponent r' of (x, rest) \<Rightarrow>
                Some (digits_value (ip @ fp), x - int (length fp), rest))"

definition number_of_decimal :: "int \<Rightarrow> int \<Rightarrow> js_number" where
  "number_of_decimal d x = round_ratio False (d * 10 ^ nat x) (10 ^ nat (- x))"

definition radix_value :: "int \<Rightarrow> jsstring \<Rightarrow> int" where
  "radix_value b s = foldl (\<lambda>n c. b * n + int (hex_value c)) 0 s"

definition is_radix_digit :: "int \<Rightarrow> code_unit \<Rightarrow> bool" where
  "is_radix_digit b c \<longleftrightarrow> is_hex c \<and> int (hex_value c) < b"

definition radix_of :: "jsstring \<Rightarrow> int" where
  "radix_of t =
     (if starts_with t (js ''0x'') \<or> starts_with t (js ''0X'') then 16
      else if starts_with t (js ''0o'') \<or> starts_with t (js ''0O'') then 8
      else if starts_with t (js ''0b'') \<or> starts_with t (js ''0B'') then 2 else 10)"

definition unsigned_number :: "jsstring \<Rightarrow> js_number" where
  "unsigned_number t =
     (if t = js ''Infinity'' then Infinite False
      else case scan_decimal t of
             Some (d, x, rest) \<Rightarrow> if rest = [] then number_of_decimal d x else NaN
           | None \<Rightarrow> NaN)"

text \<open>The conversion \<open>Number(s)\<close> of a string.\<close>

definition js_Number :: "jsstring \<Rightarrow> js_number" where
  "js_Number s =
     (let t = trim s in
      if t = [] then zero_num
      else if radix_of t \<noteq> 10 then
        (let ds = drop 2 t
         in if ds \<noteq> [] \<and> list_all (is_radix_digit (radix_of t)) ds
            then round_ratio False (radix_value (radix_of t) ds) 1 else NaN)
      else if hd t = 45 then js_neg (unsigned_number (tl t))
      else if hd t = 43 then unsigned_number (tl t)
      else unsigned_number t)"

section \<open>Writing numbers\<close>

fun dec_string :: "nat \<Rightarrow> jsstring" where
  "dec_string n = (if n < 10 then [48 + n] else dec_string (n div 10) @ [48 + n mod 10])"

declare dec_string.simps [simp del]

text \<open>
  A positive finite number is \<open>M / 10 ^ j\<close> for an integer \<open>M\<close> of \<open>D\<close> digits.
  The search tries one digit, two digits and so on, and stops at the latest with all the
  digits of \<open>M\<close>; among the two neighbours of the number it tries the nearer one first.
\<close>

function strip_factor :: "int \<Rightarrow> int \<Rightarrow> int \<times> int" where
  "strip_factor m e = (if e < 0 \<and> even m then strip_factor (m div 2) (e + 1) else (m, e))"
  by pat_completeness auto
termination
  by (relation "measure (\<lambda>(m, e). nat (- e))") auto

declare strip_factor.simps [simp del]

definition nearest_prefix :: "int \<Rightarrow> nat \<Rightarrow> int \<times> int" where
  "nearest_prefix M w =
     (let c = M div 10 ^ w; r = M mod 10 ^ w
      in if 2 * r < 10 ^ w \<or> 2 * r = 10 ^ w \<and> even c then (c, c + 1) else (c + 1, c))"

function shortest_digits :: "js_number \<Rightarrow> int \<Rightarrow> nat \<Rightarrow> nat \<Rightarrow> nat \<Rightarrow> int \<times> nat" where
  "shortest_digits x M j D k =
     (if D \<le> k then (M, D)
      else case nearest_prefix M (D - k) of (a, b) \<Rightarrow>
        if round_ratio False (a * 10 ^ (D - k)) (10 ^ j) = x then (a, k)
        else if round_ratio False (b * 10 ^ (D - k)) (10 ^ j) = x then (b, k)
        else shortest_digits x M j D (Suc k))"
  by pat_completeness auto
termination
  by (relation "measure (\<lambda>(x, M, j, D, k). D - k)") auto

declare shortest_digits.simps [simp del]

text \<open>
  The digits \<open>s\<close> and the decimal point position \<open>n\<close> of the standard: the number is
  \<open>s * 10 ^ (n - k)\<close> with \<open>k\<close> the number of digits of \<open>s\<close>.
\<close>

definition decimal_digits :: "int \<Rightarrow> int \<Rightarrow> jsstring \<times> int" where
  "decimal_digits m e =
     (case strip_factor m e of (m', e') \<Rightarrow>
        let M = m' * 2 ^ nat e' * 5 ^ nat (- e');
            j = nat (- e');
            D = floorlog 10 (nat M);
            n = int D - int j
        in case shortest_digits (Finite False m e) M j D 1 of (s, k) \<Rightarrow>
             if s = 10 ^ k then (dec_string (10 ^ (k - 1)), n + 1) else (dec_string (nat s), n))"

definition exponent_suffix :: "int \<Rightarrow> jsstring" where
  "exponent_suffix x = js ''e'' @ (if x < 0 then js ''-'' else js ''+'') @ dec_string (nat \<bar>x\<bar>)"

definition with_point :: "jsstring \<Rightarrow> jsstring" where
  "with_point ds = (case ds of d # t \<Rightarrow> if t = [] then ds else d # 46 # t | [] \<Rightarrow> [])"

definition digits_to_string :: "jsstring \<Rightarrow> int \<Rightarrow> jsstring" where
  "digits_to_string ds n =
     (let k = int (length ds) in
      if k \<le> n \<and> n \<le> 21 then ds @ replicate (nat (n - k)) 48
      else if 0 < n \<and> n \<le> 21 then take (nat n) ds @ 46 # drop (nat n) ds
      else if -6 < n \<and> n \<le> 0 then js ''0.'' @ replicate (nat (- n)) 48 @ ds
      else with_point ds @ exponent_suffix (n - 1))"

text \<open>The conversion \<open>String(x)\<close> of a number.\<close>

fun js_String :: "js_number \<Rightarrow> jsstring" where
  "js_String NaN = js ''NaN''"
| "js_String (Infinite s) = (if s then js ''-Infinity'' else js ''Infinity'')"
| "js_String (Finite s m e) =
     (if m = 0 then js ''0''
      else (if s then js ''-'' else []) @
           (case decimal_digits m e of (ds, n) \<Rightarrow> digits_to_string ds n))"

text \<open>
  \<open>toExponential()\<close> without an argument, as the mantissa text and the exponent that its
  result holds before and after the letter \<open>e\<close>.
\<close>

fun exponential_parts :: "js_number \<Rightarrow> jsstring \<times> int" where
  "exponential_parts (Finite s m e) =
     (if m = 0 then (js ''0'', 0)
      else case decimal_digits m e of (ds, n) \<Rightarrow>
        ((if s then js ''-'' else []) @ with_point ds, n - 1))"
| "exponential_parts x = (js_String x, 0)"

end
