(* ===== verification/JsNumberFacts.thy ===== *)
theory JsNumberFacts
  imports JsNumber
begin

text \<open>
  Facts about the number model: rounding returns canonical values, depends on the rational
  number only, is exact on representable numbers and never crosses one; what
  \<open>js_String\<close> writes, \<open>js_Number\<close> reads back; an integer result that passes the
  safe-integer test is the exact result; and the operators keep canonical form and signs.
\<close>

section \<open>Rounding is correct\<close>

definition ratio :: "int \<Rightarrow> int \<Rightarrow> rat" where
  "ratio p q = of_int p / of_int q"

fun number_value :: "js_number \<Rightarrow> rat" where
  "number_value (Finite s m e) = of_int (signed s m) * 2 powi e"
| "number_value _ = 0"

lemma two_powi_split: "(2::rat) powi e = 2 ^ nat e / 2 ^ nat (- e)"
proof (cases "0 \<le> e")
  case True
  then show ?thesis by (simp add: power_int_def)
next
  case False
  then show ?thesis by (simp add: power_int_def field_simps)
qed

lemma two_powi_add: "(2::rat) powi (a + b) = 2 powi a * 2 powi b"
  by (simp add: power_int_add)

lemma scale_powi_mono: "a \<le> b \<Longrightarrow> (2::rat) ^ k * 2 powi a \<le> 2 ^ k * 2 powi b"
  by (intro mult_left_mono power_int_increasing) auto

lemma ratio_scaled: "ratio (p * 2 ^ nat (- e)) (q * 2 ^ nat e) = ratio p q / 2 powi e"
  by (simp add: ratio_def two_powi_split)

lemma bitlen_powi:
  assumes "0 < p"
  shows "(2::rat) powi (bitlen p - 1) \<le> of_int p" "of_int p < (2::rat) powi bitlen p"
proof -
  have bp: "0 < bitlen p"
    using assms bitlen_eq_zero_iff [of p] bitlen_nonneg [of p] by linarith
  have "(of_int (2 ^ nat (bitlen p - 1)) :: rat) \<le> of_int p"
    unfolding of_int_le_iff using bitlen_bounds [OF assms] by blast
  with bp show "(2::rat) powi (bitlen p - 1) \<le> of_int p" by (simp add: power_int_def)
  have "(of_int p :: rat) < of_int (2 ^ nat (bitlen p))"
    unfolding of_int_less_iff using bitlen_bounds [OF assms] by blast
  with bp show "of_int p < (2::rat) powi bitlen p" by (simp add: power_int_def)
qed

lemma bitlen_ratio:
  assumes "0 < p" "0 < q"
  shows "2 powi (bitlen p - 1 - bitlen q) < ratio p q" "ratio p q < 2 powi (bitlen p - bitlen q + 1)"
proof -
  note p1 = bitlen_powi(1) [OF assms(1)] and p2 = bitlen_powi(2) [OF assms(1)]
  note q1 = bitlen_powi(1) [OF assms(2)] and q2 = bitlen_powi(2) [OF assms(2)]
  have "(2::rat) powi (bitlen p - 1 - bitlen q) = 2 powi (bitlen p - 1) / 2 powi bitlen q"
    by (simp add: power_int_diff)
  also have "\<dots> < of_int p / of_int q"
    using p1 q2 assms by (intro frac_less2) auto
  finally show "2 powi (bitlen p - 1 - bitlen q) < ratio p q" by (simp add: ratio_def)
  have "of_int p / of_int q < (2::rat) powi bitlen p / 2 powi (bitlen q - 1)"
    using p2 q1 assms by (intro frac_less) auto
  also have "\<dots> = 2 powi (bitlen p - (bitlen q - 1))"
    by (simp add: power_int_diff)
  finally show "ratio p q < 2 powi (bitlen p - bitlen q + 1)" by (simp add: ratio_def algebra_simps)
qed

lemma leading_exponent_bounds:
  assumes "0 < p" "0 < q"
  shows "2 ^ 52 * 2 powi leading_exponent p q \<le> ratio p q"
    and "ratio p q < 2 ^ 53 * 2 powi leading_exponent p q"
proof -
  define e where "e = bitlen p - bitlen q - 53"
  have lo: "2 ^ 52 * 2 powi e < ratio p q"
    using bitlen_ratio(1) [OF assms] two_powi_add [of 52 e]
    by (simp add: e_def algebra_simps)
  have hi: "ratio p q < 2 ^ 54 * 2 powi e"
    using bitlen_ratio(2) [OF assms] two_powi_add [of 54 e]
    by (simp add: e_def algebra_simps)
  have test: "p * 2 ^ nat (- e) < 2 ^ 53 * (q * 2 ^ nat e) \<longleftrightarrow> ratio p q < 2 ^ 53 * 2 powi e"
  proof -
    have "ratio (p * 2 ^ nat (- e)) (q * 2 ^ nat e) < 2 ^ 53 \<longleftrightarrow>
          of_int (p * 2 ^ nat (- e)) < (of_int (2 ^ 53 * (q * 2 ^ nat e)) :: rat)"
      unfolding ratio_def using assms(2) by (subst pos_divide_less_eq) (simp_all add: mult.commute)
    also have "\<dots> \<longleftrightarrow> p * 2 ^ nat (- e) < 2 ^ 53 * (q * 2 ^ nat e)"
      by (rule of_int_less_iff)
    finally show ?thesis by (simp add: ratio_scaled divide_less_eq)
  qed
  have le: "leading_exponent p q = (if ratio p q < 2 ^ 53 * 2 powi e then e else e + 1)"
    by (simp only: leading_exponent_def e_def [symmetric] Let_def test)
  have s: "(2::rat) powi (e + 1) = 2 * 2 powi e" by (simp add: power_int_add)
  show "2 ^ 52 * 2 powi leading_exponent p q \<le> ratio p q"
    using lo by (simp add: le s)
  show "ratio p q < 2 ^ 53 * 2 powi leading_exponent p q"
    using hi by (simp add: le s)
qed

lemma leading_exponent_unique:
  assumes "0 < p" "0 < q" "2 ^ 52 * 2 powi e \<le> ratio p q" "ratio p q < 2 ^ 53 * 2 powi e"
  shows "leading_exponent p q = e"
proof -
  have mono: "2 ^ 53 * 2 powi a \<le> 2 ^ 52 * (2::rat) powi b" if "a < b" for a b :: int
  proof -
    have "(2::rat) powi (a + 1) \<le> 2 powi b" using that by (intro power_int_increasing) auto
    then show ?thesis by (simp add: power_int_add)
  qed
  note b = leading_exponent_bounds [OF assms(1,2)]
  show ?thesis
  proof (rule linorder_cases [of "leading_exponent p q" e])
    assume "leading_exponent p q < e"
    with mono [OF this] b assms(3) show ?thesis by linarith
  next
    assume "e < leading_exponent p q"
    with mono [OF this] b assms(4) show ?thesis by linarith
  qed
qed

text \<open>Rounding to an integer depends on the quotient only and is off by at most a half.\<close>

lemma round_half_even_ratio:
  assumes "0 < d"
  shows "round_half_even n d =
    (let m = \<lfloor>ratio n d\<rfloor>; f = ratio n d - of_int m
     in if 1 / 2 < f \<or> f = 1 / 2 \<and> odd m then m + 1 else m)"
proof -
  have m: "\<lfloor>ratio n d\<rfloor> = n div d" by (simp add: ratio_def floor_divide_of_int_eq)
  have f: "ratio n d - of_int (n div d) = of_int (n mod d) / of_int d"
  proof -
    have "(of_int n :: rat) = of_int d * of_int (n div d) + of_int (n mod d)"
      by (metis mult_div_mod_eq of_int_add of_int_mult)
    then show ?thesis using assms by (simp add: ratio_def field_simps)
  qed
  have c1: "1 / 2 < (of_int (n mod d) / of_int d :: rat) \<longleftrightarrow> d < 2 * (n mod d)"
  proof -
    have "1 / 2 < (of_int (n mod d) / of_int d :: rat) \<longleftrightarrow> (of_int d :: rat) < of_int (2 * (n mod d))"
      using assms by (simp add: field_simps)
    then show ?thesis by (simp only: of_int_less_iff)
  qed
  have c2: "(of_int (n mod d) / of_int d :: rat) = 1 / 2 \<longleftrightarrow> 2 * (n mod d) = d"
  proof -
    have "(of_int (n mod d) / of_int d :: rat) = 1 / 2 \<longleftrightarrow> of_int (2 * (n mod d)) = (of_int d :: rat)"
      using assms by (auto simp: field_simps)
    then show ?thesis by (simp only: of_int_eq_iff)
  qed
  show ?thesis by (simp only: round_half_even_def Let_def m f c1 c2)
qed

lemma round_half_even_cong:
  "0 < d \<Longrightarrow> 0 < d' \<Longrightarrow> ratio n d = ratio n' d' \<Longrightarrow> round_half_even n d = round_half_even n' d'"
  by (simp add: round_half_even_ratio)

lemma round_half_even_of_int: "0 < d \<Longrightarrow> ratio n d = of_int k \<Longrightarrow> round_half_even n d = k"
  by (simp add: round_half_even_ratio)

lemma round_half_even_ge: "0 < d \<Longrightarrow> of_int k \<le> ratio n d \<Longrightarrow> k \<le> round_half_even n d"
  using le_floor_iff [of k "ratio n d"] by (auto simp: round_half_even_ratio Let_def)

lemma round_half_even_le:
  assumes "0 < d" "ratio n d \<le> of_int k"
  shows "round_half_even n d \<le> k"
proof (cases "ratio n d = of_int k")
  case True
  with assms show ?thesis by (simp add: round_half_even_of_int)
next
  case False
  with assms have "\<lfloor>ratio n d\<rfloor> < k" by (simp add: floor_less_iff)
  then show ?thesis using assms by (auto simp: round_half_even_ratio Let_def)
qed

lemma round_half_even_error: "0 < d \<Longrightarrow> \<bar>of_int (round_half_even n d) - ratio n d\<bar> \<le> 1 / 2"
proof -
  assume d: "0 < d"
  have "0 \<le> ratio n d - of_int \<lfloor>ratio n d\<rfloor>" "ratio n d - of_int \<lfloor>ratio n d\<rfloor> < 1"
    by linarith+
  then show ?thesis using d by (auto simp: round_half_even_ratio Let_def)
qed

definition round_exponent :: "int \<Rightarrow> int \<Rightarrow> int" where
  "round_exponent p q = max (leading_exponent p q) (- 1074)"

definition round_significand :: "int \<Rightarrow> int \<Rightarrow> int" where
  "round_significand p q =
     round_half_even (p * 2 ^ nat (- round_exponent p q)) (q * 2 ^ nat (round_exponent p q))"

lemma round_ratio_pack:
  "p \<noteq> 0 \<Longrightarrow> round_ratio s p q = pack s (round_significand p q) (round_exponent p q)"
  by (simp add: round_ratio_def round_significand_def round_exponent_def Let_def)

lemma round_exponent_bounds:
  assumes "0 < p" "0 < q"
  shows "- 1074 \<le> round_exponent p q"
    and "ratio p q < 2 ^ 53 * 2 powi round_exponent p q"
    and "round_exponent p q \<noteq> - 1074 \<Longrightarrow> 2 ^ 52 * 2 powi round_exponent p q \<le> ratio p q"
proof -
  note b = leading_exponent_bounds [OF assms]
  have "(2::rat) ^ 53 * 2 powi leading_exponent p q \<le> 2 ^ 53 * 2 powi round_exponent p q"
    by (rule scale_powi_mono) (simp add: round_exponent_def)
  with b show "ratio p q < 2 ^ 53 * 2 powi round_exponent p q" by linarith
  show "- 1074 \<le> round_exponent p q" by (simp add: round_exponent_def)
  show "2 ^ 52 * 2 powi round_exponent p q \<le> ratio p q" if "round_exponent p q \<noteq> - 1074"
    using that b by (auto simp: round_exponent_def max_def split: if_splits)
qed

lemma scaled_denominator_pos: "0 < q \<Longrightarrow> 0 < q * (2::int) ^ n"
  by simp

lemma round_significand_bounds:
  assumes "0 < p" "0 < q"
  shows "0 \<le> round_significand p q" "round_significand p q \<le> 2 ^ 53"
    and "round_exponent p q \<noteq> - 1074 \<Longrightarrow> 2 ^ 52 \<le> round_significand p q"
proof -
  let ?e = "round_exponent p q"
  note b = round_exponent_bounds [OF assms]
  note d = scaled_denominator_pos [OF assms(2), of "nat ?e"]
  have pos: "0 < ratio p q" using assms by (simp add: ratio_def)
  show "0 \<le> round_significand p q" unfolding round_significand_def
    by (rule round_half_even_ge [OF d]) (use pos in \<open>simp add: ratio_scaled\<close>)
  show "round_significand p q \<le> 2 ^ 53" unfolding round_significand_def
    by (rule round_half_even_le [OF d]) (use b(2) in \<open>simp add: ratio_scaled divide_le_eq\<close>)
  show "2 ^ 52 \<le> round_significand p q" if "?e \<noteq> - 1074" unfolding round_significand_def
    by (rule round_half_even_ge [OF d]) (use b(3) [OF that] in \<open>simp add: ratio_scaled le_divide_eq\<close>)
qed

lemma valid_pack:
  "0 \<le> m \<Longrightarrow> m \<le> 2 ^ 53 \<Longrightarrow> - 1074 \<le> e \<Longrightarrow> (e = - 1074 \<or> 2 ^ 52 \<le> m) \<Longrightarrow> valid_number (pack s m e)"
  by (auto simp: pack_def)

theorem round_ratio_valid:
  assumes "0 \<le> p" "0 < q"
  shows "valid_number (round_ratio s p q)"
proof (cases "p = 0")
  case True
  then show ?thesis by (simp add: round_ratio_def)
next
  case False
  with assms have p: "0 < p" by simp
  show ?thesis unfolding round_ratio_pack [OF False]
    using round_significand_bounds [OF p assms(2)] round_exponent_bounds(1) [OF p assms(2)]
    by (intro valid_pack) auto
qed

text \<open>The result depends on the rational number only.\<close>

lemma round_exponent_cong:
  assumes "0 < p" "0 < q" "0 < p'" "0 < q'" "ratio p q = ratio p' q'"
  shows "round_exponent p q = round_exponent p' q'"
proof -
  have "leading_exponent p q = leading_exponent p' q'"
    by (rule leading_exponent_unique [OF assms(1,2)])
      (use leading_exponent_bounds [OF assms(3,4)] assms(5) in auto)
  then show ?thesis by (simp add: round_exponent_def)
qed

theorem round_ratio_cong:
  assumes "0 \<le> p" "0 < q" "0 \<le> p'" "0 < q'" "ratio p q = ratio p' q'"
  shows "round_ratio s p q = round_ratio s p' q'"
proof (cases "p = 0")
  case True
  with assms have "p' = 0" by (simp add: ratio_def)
  with True show ?thesis by (simp add: round_ratio_def)
next
  case False
  with assms have p': "p' \<noteq> 0" by (auto simp: ratio_def)
  with False assms have pos: "0 < p" "0 < p'" by auto
  note e = round_exponent_cong [OF pos(1) assms(2) pos(2) assms(4,5)]
  have "round_significand p q = round_significand p' q'"
    unfolding round_significand_def e
    by (rule round_half_even_cong) (use assms in \<open>simp_all add: ratio_scaled\<close>)
  then show ?thesis using False p' by (simp add: round_ratio_pack e)
qed

text \<open>A representable number is rounded to itself.\<close>

lemma valid_number_exponent:
  assumes v: "valid_number (Finite s m e)" and m: "0 < m" and pq: "0 < p" "0 < q"
    and r: "ratio p q = of_int m * 2 powi e"
  shows "round_exponent p q = e"
proof (cases "2 ^ 52 \<le> m")
  case True
  then have lo: "(2 ^ 52 :: rat) \<le> of_int m" by (metis of_int_le_iff of_int_numeral of_int_power)
  have "m < 2 ^ 53" using v by simp
  then have hi: "of_int m < (2 ^ 53 :: rat)" by (metis of_int_less_iff of_int_numeral of_int_power)
  have "leading_exponent p q = e"
    by (rule leading_exponent_unique [OF pq]) (use lo hi in \<open>auto simp: r\<close>)
  with v show ?thesis by (simp add: round_exponent_def)
next
  case False
  with v have e: "e = - 1074" and "m < 2 ^ 52" by auto
  then have "of_int m < (2 ^ 52 :: rat)" by (metis of_int_less_iff of_int_numeral of_int_power)
  then have small: "ratio p q < 2 ^ 52 * 2 powi e" by (simp add: r)
  have "leading_exponent p q \<le> e"
  proof (rule ccontr)
    assume "\<not> ?thesis"
    then have "(2::rat) ^ 52 * 2 powi e \<le> 2 ^ 52 * 2 powi leading_exponent p q"
      by (intro scale_powi_mono) auto
    with small leading_exponent_bounds(1) [OF pq] show False by linarith
  qed
  with e show ?thesis by (simp add: round_exponent_def)
qed

theorem round_ratio_exact:
  assumes v: "valid_number (Finite s m e)" and p: "0 \<le> p" and q: "0 < q"
    and r: "ratio p q = of_int m * 2 powi e"
  shows "round_ratio s p q = Finite s m e"
proof (cases "m = 0")
  case True
  with r q have "p = 0" by (simp add: ratio_def)
  with True v show ?thesis by (simp add: round_ratio_def)
next
  case False
  with v have m: "0 < m" by simp
  have p': "0 < p" using r m p q by (cases "p = 0") (auto simp: ratio_def)
  note e = valid_number_exponent [OF v m p' q r]
  have "round_significand p q = m" unfolding round_significand_def e
    by (rule round_half_even_of_int) (use q in \<open>simp_all add: ratio_scaled r\<close>)
  moreover have "m \<noteq> 2 ^ 53" "e \<le> 971" using v by auto
  ultimately show ?thesis using p' by (simp add: round_ratio_pack e pack_def)
qed

text \<open>Rounding never crosses a representable number, on either side.\<close>

lemma number_value_Finite_less:
  assumes "valid_number (Finite s m e)"
  shows "of_int m * 2 powi e < 2 ^ 53 * (2::rat) powi e"
proof -
  have "m < 2 ^ 53" using assms by simp
  then have "of_int m < (2 ^ 53 :: rat)" by (metis of_int_less_iff of_int_numeral of_int_power)
  then show ?thesis by simp
qed

lemma of_int_shift:
  assumes "f \<le> e"
  shows "(of_int m * 2 powi e :: rat) = of_int (m * 2 ^ nat (e - f)) * 2 powi f"
proof -
  have "(2::rat) powi e = 2 powi (e - f) * 2 powi f" by (simp flip: power_int_add)
  then show ?thesis using assms by (simp add: power_int_def)
qed

lemma round_significand_ge:
  assumes pq: "0 < p" "0 < q" and v: "valid_number (Finite s m e)"
    and le: "of_int m * 2 powi e \<le> ratio p q"
  shows "of_int m * 2 powi e \<le> (of_int (round_significand p q) :: rat) * 2 powi round_exponent p q"
proof (cases "round_exponent p q \<le> e")
  case True
  let ?e = "round_exponent p q" and ?k = "m * 2 ^ nat (e - round_exponent p q)"
  have "?k \<le> round_significand p q" unfolding round_significand_def
    by (rule round_half_even_ge)
      (use pq le in \<open>simp_all add: ratio_scaled le_divide_eq of_int_shift [OF True] del: of_int_mult\<close>)
  then have "(of_int ?k :: rat) * 2 powi ?e \<le> of_int (round_significand p q) * 2 powi ?e"
    by (intro mult_right_mono) (simp_all del: of_int_mult)
  then show ?thesis by (simp only: of_int_shift [OF True])
next
  case False
  then have ne: "round_exponent p q \<noteq> - 1074" using v by auto
  have "2 ^ 53 * (2::rat) powi e = 2 ^ 52 * 2 powi (e + 1)" by (simp add: power_int_add)
  also have "\<dots> \<le> 2 ^ 52 * 2 powi round_exponent p q"
    using False by (intro scale_powi_mono) simp
  also have "\<dots> \<le> of_int (round_significand p q) * 2 powi round_exponent p q"
  proof (rule mult_right_mono)
    show "(2 ^ 52 :: rat) \<le> of_int (round_significand p q)"
      using round_significand_bounds(3) [OF pq ne] by (metis of_int_le_iff of_int_numeral of_int_power)
  qed simp
  finally show ?thesis using number_value_Finite_less [OF v] by linarith
qed

lemma round_significand_le:
  assumes pq: "0 < p" "0 < q" and v: "valid_number (Finite s m e)"
    and le: "ratio p q \<le> of_int m * 2 powi e"
  shows "(of_int (round_significand p q) :: rat) * 2 powi round_exponent p q \<le> of_int m * 2 powi e"
proof (cases "round_exponent p q \<le> e")
  case True
  let ?e = "round_exponent p q" and ?k = "m * 2 ^ nat (e - round_exponent p q)"
  have "round_significand p q \<le> ?k" unfolding round_significand_def
    by (rule round_half_even_le)
      (use pq le in \<open>simp_all add: ratio_scaled divide_le_eq of_int_shift [OF True] del: of_int_mult\<close>)
  then have "of_int (round_significand p q) * 2 powi ?e \<le> (of_int ?k :: rat) * 2 powi ?e"
    by (intro mult_right_mono) (simp_all del: of_int_mult)
  then show ?thesis by (simp only: of_int_shift [OF True])
next
  case False
  then have ne: "round_exponent p q \<noteq> - 1074" using v by auto
  have "2 ^ 53 * (2::rat) powi e = 2 ^ 52 * 2 powi (e + 1)" by (simp add: power_int_add)
  also have "\<dots> \<le> 2 ^ 52 * 2 powi round_exponent p q"
    using False by (intro scale_powi_mono) simp
  also have "\<dots> \<le> ratio p q" by (rule round_exponent_bounds(3) [OF pq ne])
  finally show ?thesis using number_value_Finite_less [OF v] le by linarith
qed

lemma pack_value:
  "m \<noteq> 0 \<Longrightarrow> pack s m e = Finite s' m' e' \<Longrightarrow>
     s' = s \<and> (of_int m' * 2 powi e' :: rat) = of_int m * 2 powi e"
  by (auto simp: pack_def power_int_add split: if_splits)

lemma pack_Infinite: "pack s m e = Infinite t \<Longrightarrow> t = s"
  by (auto simp: pack_def split: if_splits)

lemma pack_not_NaN: "pack s m e \<noteq> NaN"
  by (simp add: pack_def)

section \<open>Strings and numbers\<close>

lemma digits_value_append:
  "digits_value (s @ t) = digits_value s * 10 ^ length t + digits_value t"
proof (induction t rule: rev_induct)
  case Nil
  then show ?case by (simp add: digits_value_def)
next
  case (snoc c t)
  then show ?case by (simp add: digits_value_def algebra_simps)
qed

lemma digits_value_zeros [simp]: "digits_value (replicate n 48) = 0"
proof (induction n)
  case (Suc n)
  have "digits_value (replicate (Suc n) 48) = digits_value ([48] @ replicate n 48)" by simp
  also have "\<dots> = 0" using Suc by (simp only: digits_value_append) (simp add: digits_value_def)
  finally show ?case .
qed (simp add: digits_value_def)

lemma digits_value_nonneg: "0 \<le> digits_value s"
  by (induction s rule: rev_induct) (auto simp: digits_value_def)

lemma dec_string_digits: "\<forall>c \<in> set (dec_string n). is_digit c"
proof (induction n rule: dec_string.induct)
  case (1 n)
  then show ?case by (subst dec_string.simps) (auto simp: is_digit_def)
qed

lemma dec_string_not_Nil [simp]: "dec_string n \<noteq> []"
  by (subst dec_string.simps) simp

lemma digits_value_dec_string [simp]: "digits_value (dec_string n) = int n"
proof (induction n rule: dec_string.induct)
  case (1 n)
  show ?case
  proof (cases "n < 10")
    case True
    then show ?thesis by (simp add: dec_string.simps [of n] digits_value_def)
  next
    case False
    with 1 have "digits_value (dec_string (n div 10)) = int (n div 10)" by simp
    then have "digits_value (dec_string n) = int (n div 10) * 10 + int (n mod 10)"
      using False by (subst dec_string.simps) (simp add: digits_value_append, simp add: digits_value_def)
    then show ?thesis by (simp add: zdiv_int zmod_int)
  qed
qed

lemma length_dec_string: "10 ^ k \<le> n \<Longrightarrow> n < 10 ^ Suc k \<Longrightarrow> length (dec_string n) = Suc k"
proof (induction k arbitrary: n)
  case 0
  then show ?case by (simp add: dec_string.simps [of n])
next
  case (Suc k)
  from Suc.prems have "10 ^ k \<le> n div 10" "n div 10 < 10 ^ Suc k" by auto
  then have IH: "length (dec_string (n div 10)) = Suc k" by (rule Suc.IH)
  have "(10::nat) \<le> 10 ^ Suc k" by simp
  with Suc.prems(1) have "\<not> n < 10" by linarith
  then show ?case using IH by (subst dec_string.simps) simp
qed

subsection \<open>The search for the shortest digits\<close>

lemma strip_factor_value:
  "strip_factor m e = (m', e') \<Longrightarrow>
     (of_int m' * 2 powi e' :: rat) = of_int m * 2 powi e \<and> (0 < m \<longrightarrow> 0 < m')"
proof (induction m e arbitrary: m' e' rule: strip_factor.induct)
  case (1 m e)
  show ?case
  proof (cases "e < 0 \<and> even m")
    case True
    then obtain k where k: "m = 2 * k" by (auto elim: evenE)
    from True 1 have "(of_int m' * 2 powi e' :: rat) = of_int (m div 2) * 2 powi (e + 1) \<and>
      (0 < m div 2 \<longrightarrow> 0 < m')"
      by (simp add: strip_factor.simps [of m e])
    then show ?thesis by (simp add: k power_int_add)
  next
    case False
    with 1 show ?thesis by (auto simp: strip_factor.simps [of m e])
  qed
qed

lemma nearest_prefix_cases:
  "nearest_prefix M w = (a, b) \<Longrightarrow>
     a \<in> {M div 10 ^ w, M div 10 ^ w + 1} \<and> b \<in> {M div 10 ^ w, M div 10 ^ w + 1}"
  by (auto simp: nearest_prefix_def Let_def split: if_splits)

lemma prefix_digits:
  assumes "10 ^ (D - 1) \<le> (M::int)" "M < 10 ^ D" "1 \<le> k" "k < D"
    and "a \<in> {M div 10 ^ (D - k), M div 10 ^ (D - k) + 1}"
  shows "10 ^ (k - 1) \<le> a \<and> a \<le> 10 ^ k"
proof -
  let ?w = "(10::int) ^ (D - k)"
  have "10 ^ (k - 1) * ?w = 10 ^ (D - 1)" "10 ^ k * ?w = 10 ^ D"
    using assms(3,4) by (simp_all flip: power_add)
  with assms(1,2) have "10 ^ (k - 1) * ?w \<le> M" "M < 10 ^ k * ?w" by simp_all
  then have lo: "10 ^ (k - 1) * ?w div ?w \<le> M div ?w" and hi: "\<not> 10 ^ k \<le> M div ?w"
  proof -
    show "10 ^ (k - 1) * ?w div ?w \<le> M div ?w"
      using \<open>10 ^ (k - 1) * ?w \<le> M\<close> by (rule zdiv_mono1) simp
    have "M div ?w * ?w \<le> M" by (simp add: minus_mod_eq_div_mult [symmetric])
    with \<open>M < 10 ^ k * ?w\<close> have "M div ?w * ?w < 10 ^ k * ?w" by linarith
    then show "\<not> 10 ^ k \<le> M div ?w" by (simp add: mult_less_cancel_right)
  qed
  from lo have "10 ^ (k - 1) \<le> M div ?w" by simp
  with hi assms(5) show ?thesis by auto
qed

lemma shortest_digits_correct:
  assumes "shortest_digits x M j D k = (s, l)" "1 \<le> k" "k \<le> D"
    and "round_ratio False M (10 ^ j) = x" "10 ^ (D - 1) \<le> M" "M < 10 ^ D"
  shows "1 \<le> l \<and> l \<le> D \<and> 10 ^ (l - 1) \<le> s \<and> s \<le> 10 ^ l \<and>
    round_ratio False (s * 10 ^ (D - l)) (10 ^ j) = x"
  using assms
proof (induction x M j D k rule: shortest_digits.induct)
  case (1 x M j D k)
  note [simp] = shortest_digits.simps [of x M j D k]
  show ?case
  proof (cases "D \<le> k")
    case True
    with "1.prems" show ?thesis by auto
  next
    case False
    obtain a b where ab: "nearest_prefix M (D - k) = (a, b)" by fastforce
    have pre: "10 ^ (k - 1) \<le> c \<and> c \<le> 10 ^ k" if "c = a \<or> c = b" for c
      by (rule prefix_digits [of D M]) (use "1.prems" False nearest_prefix_cases [OF ab] that in auto)
    consider (one) "round_ratio False (a * 10 ^ (D - k)) (10 ^ j) = x"
      | (two) "round_ratio False (a * 10 ^ (D - k)) (10 ^ j) \<noteq> x"
          "round_ratio False (b * 10 ^ (D - k)) (10 ^ j) = x"
      | (more) "round_ratio False (a * 10 ^ (D - k)) (10 ^ j) \<noteq> x"
          "round_ratio False (b * 10 ^ (D - k)) (10 ^ j) \<noteq> x" by blast
    then show ?thesis
    proof cases
      case one
      with "1.prems" False ab have "s = a" "l = k" by auto
      with one pre [of a] "1.prems" False show ?thesis by auto
    next
      case two
      with "1.prems" False ab have "s = b" "l = k" by auto
      with two pre [of b] "1.prems" False show ?thesis by auto
    next
      case more
      with "1.prems"(1) False ab have "shortest_digits x M j D (Suc k) = (s, l)" by simp
      with "1.IH" [OF False ab [symmetric] more] "1.prems" False show ?thesis by auto
    qed
  qed
qed

definition power10 :: "int \<Rightarrow> rat" where
  "power10 x = 10 powi x"

lemma power10_split: "power10 x = 10 ^ nat x / 10 ^ nat (- x)"
  by (cases "0 \<le> x") (simp_all add: power10_def power_int_def field_simps)

lemma power10_add: "power10 (a + b) = power10 a * power10 b"
  by (simp add: power10_def power_int_add)

lemma ratio_decimal: "ratio (d * 10 ^ nat x) (10 ^ nat (- x)) = of_int d * power10 x"
  by (simp add: ratio_def power10_split)

lemma number_of_decimal_cong:
  assumes "0 \<le> d" "0 \<le> d'" "of_int d * power10 x = of_int d' * power10 x'"
  shows "number_of_decimal d x = number_of_decimal d' x'"
  unfolding number_of_decimal_def
proof (rule round_ratio_cong)
  show "ratio (d * 10 ^ nat x) (10 ^ nat (- x)) = ratio (d' * 10 ^ nat x') (10 ^ nat (- x'))"
    using assms(3) by (simp only: ratio_decimal)
qed (use assms in auto)

lemma floorlog_digits:
  assumes "0 < (M::int)"
  shows "0 < floorlog 10 (nat M)" "10 ^ (floorlog 10 (nat M) - 1) \<le> M" "M < 10 ^ floorlog 10 (nat M)"
proof -
  have b: "10 ^ (floorlog 10 (nat M) - 1) \<le> nat M \<and> nat M < 10 ^ floorlog 10 (nat M)"
    using floorlog_bounds [of "nat M" 10] assms by simp
  show "0 < floorlog 10 (nat M)" using assms floorlog_eq_zero_iff [of 10 "nat M"] by simp
  have "int (10 ^ (floorlog 10 (nat M) - 1)) \<le> int (nat M)" using b by (simp only: of_nat_le_iff)
  then show "10 ^ (floorlog 10 (nat M) - 1) \<le> M" using assms by simp
  have "int (nat M) < int (10 ^ floorlog 10 (nat M))" using b by (simp only: of_nat_less_iff)
  then show "M < 10 ^ floorlog 10 (nat M)" using assms by simp
qed

lemma length_dec_string_int:
  assumes "10 ^ (l - 1) \<le> (s::int)" "s < 10 ^ l" "1 \<le> l"
  shows "length (dec_string (nat s)) = l"
proof -
  have s: "0 < s" using assms(1) by (meson less_le_trans zero_less_power zero_less_numeral)
  have "int (10 ^ (l - 1)) \<le> int (nat s)" "int (nat s) < int (10 ^ l)" using assms s by simp_all
  then have "10 ^ (l - 1) \<le> nat s" "nat s < 10 ^ Suc (l - 1)"
    using assms(3) by (simp_all only: of_nat_le_iff of_nat_less_iff) simp
  then have "length (dec_string (nat s)) = Suc (l - 1)" by (rule length_dec_string)
  then show ?thesis using assms(3) by simp
qed

theorem decimal_digits_correct:
  assumes v: "valid_number (Finite False m e)" and m: "0 < m" and d: "decimal_digits m e = (ds, n)"
  shows "ds \<noteq> [] \<and> (\<forall>c \<in> set ds. is_digit c) \<and>
    number_of_decimal (digits_value ds) (n - int (length ds)) = Finite False m e"
proof -
  obtain m' e' where st: "strip_factor m e = (m', e')" by fastforce
  define j where "j = nat (- e')"
  define M where "M = m' * 2 ^ nat e' * 5 ^ j"
  define D where "D = floorlog 10 (nat M)"
  obtain s k where sk: "shortest_digits (Finite False m e) M j D 1 = (s, k)" by fastforce
  from strip_factor_value [OF st] m have m': "0 < m'"
    and val: "(of_int m' * 2 powi e' :: rat) = of_int m * 2 powi e" by auto
  then have M: "0 < M" by (simp add: M_def)
  have "ratio M (10 ^ j) = of_int m' * 2 powi e'"
  proof -
    have "(10::rat) ^ j = 2 ^ j * 5 ^ j" by (simp flip: power_mult_distrib)
    then show ?thesis by (simp add: ratio_def M_def j_def two_powi_split)
  qed
  then have rt: "round_ratio False M (10 ^ j) = Finite False m e"
    using v M val by (intro round_ratio_exact) auto
  note fl = floorlog_digits [OF M, folded D_def]
  have c: "1 \<le> k" "k \<le> D" "10 ^ (k - 1) \<le> s" "s \<le> 10 ^ k"
    and rb: "round_ratio False (s * 10 ^ (D - k)) (10 ^ j) = Finite False m e"
    using shortest_digits_correct [OF sk _ _ rt fl(2,3)] fl(1) by auto
  have s0: "0 < s" using c(3) by (meson less_le_trans zero_less_power zero_less_numeral)
  have target: "number_of_decimal d x = Finite False m e"
    if "0 \<le> d" "of_int d * power10 x = of_int s * power10 (int D - int j - int k)" for d x
  proof -
    have "number_of_decimal d x = round_ratio False (s * 10 ^ (D - k)) (10 ^ j)"
      unfolding number_of_decimal_def
    proof (rule round_ratio_cong)
      have eq: "int D - int j - int k = int (D - k) + - int j" using c(2) by simp
      have "power10 (int D - int j - int k) = 10 ^ (D - k) / 10 ^ j"
        unfolding eq power10_add by (simp add: power10_def power_int_minus divide_inverse)
      then show "ratio (d * 10 ^ nat x) (10 ^ nat (- x)) = ratio (s * 10 ^ (D - k)) (10 ^ j)"
        by (simp only: ratio_decimal that(2)) (simp add: ratio_def)
    qed (use that(1) s0 in auto)
    with rb show ?thesis by simp
  qed
  have dd: "(ds, n) = (if s = 10 ^ k then (dec_string (10 ^ (k - 1)), int D - int j + 1)
                       else (dec_string (nat s), int D - int j))"
    using d sk unfolding decimal_digits_def st Let_def prod.case j_def [symmetric] M_def [symmetric]
      D_def [symmetric] by simp
  show ?thesis
  proof (cases "s = 10 ^ k")
    case True
    with dd have ds: "ds = dec_string (10 ^ (k - 1))" and n: "n = int D - int j + 1" by auto
    have len: "length ds = k"
      using length_dec_string [of "k - 1" "10 ^ (k - 1)"] c(1) by (simp add: ds)
    have "of_int (10 ^ (k - 1)) * power10 (n - int k) = of_int s * power10 (int D - int j - int k)"
    proof -
      have k: "(10::rat) ^ k = 10 ^ (k - 1) * 10" using c(1) by (metis power_minus_mult less_le_trans zero_less_one)
      have "n - int k = (int D - int j - int k) + 1" by (simp add: n)
      then have "power10 (n - int k) = power10 (int D - int j - int k) * power10 1"
        by (simp only: power10_add)
      then have "power10 (n - int k) = power10 (int D - int j - int k) * 10"
        by (simp add: power10_def)
      then show ?thesis by (simp add: True k)
    qed
    then have "number_of_decimal (10 ^ (k - 1)) (n - int k) = Finite False m e" by (intro target) auto
    then show ?thesis using len dec_string_digits by (simp add: ds)
  next
    case False
    with dd have ds: "ds = dec_string (nat s)" and n: "n = int D - int j" by auto
    have len: "length ds = k" using length_dec_string_int [of k s] c False by (simp add: ds)
    have "number_of_decimal s (n - int k) = Finite False m e" using s0 by (intro target) (auto simp: n)
    then show ?thesis using len dec_string_digits s0 by (simp add: ds)
  qed
qed

subsection \<open>Reading back what was written\<close>

lemma takeWhile_digits:
  assumes "\<forall>c \<in> set ds. is_digit c" "r = [] \<or> \<not> is_digit (hd r)"
  shows "takeWhile is_digit (ds @ r) = ds" "dropWhile is_digit (ds @ r) = r"
proof -
  show "takeWhile is_digit (ds @ r) = ds" using assms by (cases r) (auto simp: takeWhile_append)
  show "dropWhile is_digit (ds @ r) = r" using assms by (cases r) (auto simp: dropWhile_append)
qed

lemma scan_decimal_plain:
  assumes "\<forall>c \<in> set ds. is_digit c" "ds \<noteq> []" "r = [] \<or> \<not> is_digit (hd r) \<and> hd r \<noteq> 46"
  shows "scan_decimal (ds @ r) = Some (digits_value ds, scan_exponent r)"
proof -
  have tw: "takeWhile is_digit (ds @ r) = ds" "dropWhile is_digit (ds @ r) = r"
    using takeWhile_digits [of ds r] assms by auto
  have nd: "(case r of c # _ \<Rightarrow> c = 46 | [] \<Rightarrow> False) = False"
    using assms(3) by (cases r) auto
  show ?thesis
    using assms(2) by (simp add: scan_decimal_def tw nd Let_def split: prod.split)
qed

lemma scan_decimal_point:
  assumes "\<forall>c \<in> set ip. is_digit c" "\<forall>c \<in> set fp. is_digit c" "ip \<noteq> [] \<or> fp \<noteq> []"
    and "r = [] \<or> \<not> is_digit (hd r)"
  shows "scan_decimal (ip @ 46 # fp @ r) =
    Some (digits_value (ip @ fp), fst (scan_exponent r) - int (length fp), snd (scan_exponent r))"
proof -
  have tw: "takeWhile is_digit (ip @ 46 # fp @ r) = ip" "dropWhile is_digit (ip @ 46 # fp @ r) = 46 # fp @ r"
    using takeWhile_digits [of ip "46 # fp @ r"] assms by (auto simp: is_digit_def)
  have tw2: "takeWhile is_digit (fp @ r) = fp" "dropWhile is_digit (fp @ r) = r"
    using takeWhile_digits [of fp r] assms by auto
  show ?thesis using assms(3) by (simp add: scan_decimal_def tw tw2 Let_def case_prod_beta)
qed

lemma scan_exponent_Nil [simp]: "scan_exponent [] = (0, [])"
  by (simp add: scan_exponent_def)

lemma scan_exponent_suffix [simp]: "scan_exponent (exponent_suffix x) = (x, [])"
proof -
  have d: "takeWhile is_digit (dec_string k) = dec_string k" "dropWhile is_digit (dec_string k) = []" for k
    using takeWhile_digits [of "dec_string k" "[]"] dec_string_digits by auto
  show ?thesis
    using dec_string_digits by (auto simp: scan_exponent_def exponent_suffix_def js_def d Let_def)
qed

lemma exponent_suffix_hd: "exponent_suffix x \<noteq> []" "hd (exponent_suffix x) = 101"
  by (simp_all add: exponent_suffix_def js_def)

lemma scan_digits_to_string:
  assumes "ds \<noteq> []" "\<forall>c \<in> set ds. is_digit c"
  shows "\<exists>d x. scan_decimal (digits_to_string ds n) = Some (d, x, []) \<and> 0 \<le> d \<and>
    of_int d * power10 x = of_int (digits_value ds) * power10 (n - int (length ds))"
proof -
  let ?k = "int (length ds)"
  consider (int) "?k \<le> n \<and> n \<le> 21" | (point) "\<not> ?k \<le> n" "0 < n \<and> n \<le> 21"
    | (small) "-6 < n \<and> n \<le> 0" | (sci) "\<not> (?k \<le> n \<and> n \<le> 21)" "\<not> (0 < n \<and> n \<le> 21)" "\<not> (-6 < n \<and> n \<le> 0)"
    by linarith
  then show ?thesis
  proof cases
    case int
    have "\<forall>c \<in> set (ds @ replicate (nat (n - ?k)) 48). is_digit c"
      using assms by (auto simp: is_digit_def)
    then have "scan_decimal (ds @ replicate (nat (n - ?k)) 48) =
        Some (digits_value (ds @ replicate (nat (n - ?k)) 48), 0, [])"
      using scan_decimal_plain [of "ds @ replicate (nat (n - ?k)) 48" "[]"] assms by simp
    moreover have "of_int (digits_value (ds @ replicate (nat (n - ?k)) 48)) * power10 0 =
        of_int (digits_value ds) * power10 (n - ?k)"
      using int by (simp add: digits_value_append power10_split)
    ultimately show ?thesis using int by (auto simp: digits_to_string_def digits_value_nonneg)
  next
    case point
    have "scan_decimal (take (nat n) ds @ 46 # drop (nat n) ds) = Some (digits_value ds, n - ?k, [])"
      using scan_decimal_point [of "take (nat n) ds" "drop (nat n) ds" "[]"] assms point
      by (auto dest: in_set_takeD in_set_dropD)
    then show ?thesis using point by (auto simp: digits_to_string_def digits_value_nonneg)
  next
    case small
    have fp: "\<forall>c \<in> set (replicate (nat (- n)) 48 @ ds). is_digit c"
      using assms by (auto simp: is_digit_def)
    have v: "digits_value ([48] @ replicate (nat (- n)) 48 @ ds) = digits_value ds"
      by (simp only: digits_value_append digits_value_zeros) (simp add: digits_value_def)
    have "scan_decimal ([48] @ 46 # (replicate (nat (- n)) 48 @ ds) @ []) =
        Some (digits_value ds, n - ?k, [])"
      using scan_decimal_point [of "[48]" "replicate (nat (- n)) 48 @ ds" "[]"] fp v small
      by (simp add: is_digit_def)
    moreover have "digits_to_string ds n = [48] @ 46 # (replicate (nat (- n)) 48 @ ds) @ []"
      using small assms(1) by (cases ds) (auto simp: digits_to_string_def Let_def js_def)
    ultimately show ?thesis by (simp add: digits_value_nonneg)
  next
    case sci
    obtain d t where ds: "ds = d # t" using assms(1) by (cases ds) auto
    have repr: "digits_to_string ds n = with_point ds @ exponent_suffix (n - 1)"
      using sci by (auto simp: digits_to_string_def Let_def)
    have eh: "exponent_suffix (n - 1) = [] \<or> \<not> is_digit (hd (exponent_suffix (n - 1))) \<and>
        hd (exponent_suffix (n - 1)) \<noteq> 46" by (simp add: exponent_suffix_hd is_digit_def)
    show ?thesis
    proof (cases "t = []")
      case True
      have "scan_decimal (ds @ exponent_suffix (n - 1)) = Some (digits_value ds, n - 1, [])"
        using scan_decimal_plain [OF assms(2,1) eh] by simp
      then show ?thesis using True repr by (simp add: with_point_def ds digits_value_nonneg)
    next
      case False
      have len: "n - 1 - int (length t) = n - ?k" by (simp add: ds)
      have "scan_decimal ([d] @ 46 # t @ exponent_suffix (n - 1)) =
          Some (digits_value ds, n - 1 - int (length t), [])"
        using scan_decimal_point [of "[d]" t "exponent_suffix (n - 1)"] assms eh by (auto simp: ds)
      moreover have "digits_to_string ds n = [d] @ 46 # t @ exponent_suffix (n - 1)"
        using False repr by (simp add: with_point_def ds)
      ultimately show ?thesis unfolding len by (simp add: digits_value_nonneg)
    qed
  qed
qed

definition number_chars :: "code_unit set" where
  "number_chars = {c. is_digit c} \<union> {46, 101, 43, 45}"

lemma digits_to_string_chars:
  assumes "ds \<noteq> []" "\<forall>c \<in> set ds. is_digit c"
  shows "set (digits_to_string ds n) \<subseteq> number_chars" "digits_to_string ds n \<noteq> []"
    "is_digit (hd (digits_to_string ds n))"
proof -
  have hd: "is_digit (hd ds)" using assms by (cases ds) auto
  have dc: "set (dec_string k) \<subseteq> number_chars" for k
    using dec_string_digits [of k] by (auto simp: number_chars_def)
  have ex: "set (exponent_suffix x) \<subseteq> number_chars" for x
    using dc by (auto simp: exponent_suffix_def js_def number_chars_def)
  have wp: "set (with_point ds) \<subseteq> number_chars" "with_point ds \<noteq> []" "hd (with_point ds) = hd ds"
    using assms by (auto simp: with_point_def number_chars_def split: list.splits if_splits)
  show "set (digits_to_string ds n) \<subseteq> number_chars"
    using assms ex wp by (auto simp: digits_to_string_def Let_def js_def number_chars_def is_digit_def
        dest!: in_set_takeD in_set_dropD)
  show "digits_to_string ds n \<noteq> []"
    using assms wp by (auto simp: digits_to_string_def Let_def)
  show "is_digit (hd (digits_to_string ds n))"
    using assms hd wp by (auto simp: digits_to_string_def Let_def js_def is_digit_def hd_append)
qed

lemma trim_no_space:
  assumes "\<forall>c \<in> set s. \<not> is_space c"
  shows "trim s = s"
proof -
  have "trim_start s = s" using assms unfolding trim_start_def by (cases s) auto
  moreover have "trim_end s = s" using assms unfolding trim_end_def by (cases "rev s") auto
  ultimately show ?thesis by (simp add: trim_def)
qed

lemma number_chars_no_space: "c \<in> number_chars \<Longrightarrow> \<not> is_space c"
  by (auto simp: number_chars_def is_digit_def is_space_def)

lemma js_Number_unsigned:
  assumes "set t \<subseteq> number_chars" "t \<noteq> []" "is_digit (hd t)"
  shows "js_Number t = unsigned_number t"
proof -
  have tr: "trim t = t" using assms(1) number_chars_no_space by (intro trim_no_space) auto
  have "radix_of t = 10"
  proof (cases t)
    case (Cons c u)
    have "d \<in> number_chars" if "u = d # v" for d v using assms(1) that Cons by auto
    then show ?thesis
      by (cases u) (auto simp: Cons radix_of_def js_def number_chars_def is_digit_def)
  qed (use assms in simp)
  then show ?thesis using assms by (auto simp: js_Number_def tr Let_def is_digit_def)
qed

theorem js_Number_js_String:
  assumes "valid_number (Finite False m e)"
  shows "js_Number (js_String (Finite False m e)) = Finite False m e"
proof (cases "m = 0")
  case True
  with assms have e: "e = - 1074" by auto
  have "js_Number (js ''0'') = zero_num" by code_simp
  with True e show ?thesis by simp
next
  case False
  with assms have m: "0 < m" by simp
  obtain ds n where d: "decimal_digits m e = (ds, n)" by fastforce
  note dc = decimal_digits_correct [OF assms m d]
  let ?t = "digits_to_string ds n"
  obtain d x where sc: "scan_decimal ?t = Some (d, x, [])" and nn: "0 \<le> d"
    and val: "of_int d * power10 x = of_int (digits_value ds) * power10 (n - int (length ds))"
    using scan_digits_to_string [of ds n] dc by auto
  have ch: "set ?t \<subseteq> number_chars" "?t \<noteq> []" "is_digit (hd ?t)"
    using digits_to_string_chars [of ds n] dc by auto
  have "number_of_decimal d x = Finite False m e"
    using number_of_decimal_cong [OF nn digits_value_nonneg val] dc by simp
  moreover have "?t \<noteq> js ''Infinity''" using ch(3) by (auto simp: js_def is_digit_def)
  ultimately have "js_Number ?t = Finite False m e"
    using js_Number_unsigned [OF ch] sc by (simp add: unsigned_number_def)
  then show ?thesis using False d by simp
qed

section \<open>Integers are exact\<close>

lemma valid_number_of_int:
  assumes "0 \<le> n" "n \<le> 2 ^ 53"
  shows "\<exists>m e. valid_number (Finite s m e) \<and> (of_int m * 2 powi e :: rat) = of_int n"
proof -
  consider "n = 0" | "n = 2 ^ 53" | "0 < n" "n < 2 ^ 53" using assms by linarith
  then show ?thesis
  proof cases
    case 1
    then show ?thesis by (intro exI [of _ 0] exI [of _ "- 1074"]) simp
  next
    case 2
    have "valid_number (Finite s (2 ^ 52) 1)" by simp
    moreover have "(of_int (2 ^ 52) * 2 powi 1 :: rat) = of_int (2 ^ 53)" by simp
    ultimately show ?thesis unfolding 2 by blast
  next
    case 3
    define k where "k = bitlen n"
    have k1: "0 < k" using 3 bitlen_eq_zero_iff [of n] bitlen_nonneg [of n] unfolding k_def by linarith
    have b: "2 ^ nat (k - 1) \<le> n" "n < 2 ^ nat k"
      using bitlen_bounds [OF 3(1)] by (simp_all add: k_def)
    have k2: "k \<le> 53"
    proof (rule ccontr)
      assume "\<not> k \<le> 53"
      then have "(2::int) ^ 53 \<le> 2 ^ nat (k - 1)" by (intro power_increasing) auto
      with b 3 show False by linarith
    qed
    let ?m = "n * 2 ^ nat (53 - k)"
    have lo: "(2::int) ^ 52 \<le> ?m"
    proof -
      have "(2::int) ^ 52 = 2 ^ (nat (k - 1) + nat (53 - k))" using k1 k2 by (intro arg_cong [of _ _ "power 2"]) linarith
      also have "\<dots> = 2 ^ nat (k - 1) * 2 ^ nat (53 - k)" by (rule power_add)
      also have "\<dots> \<le> ?m" using b(1) by (intro mult_right_mono) auto
      finally show ?thesis .
    qed
    have hi: "?m < 2 ^ 53"
    proof -
      have "?m < 2 ^ nat k * 2 ^ nat (53 - k)" using b(2) by (intro mult_strict_right_mono) auto
      also have "\<dots> = (2::int) ^ (nat k + nat (53 - k))" by (rule power_add [symmetric])
      also have "\<dots> = 2 ^ 53" using k1 k2 by (intro arg_cong [of _ _ "power 2"]) linarith
      finally show ?thesis .
    qed
    have "(of_int ?m * 2 powi (k - 53) :: rat) = of_int n"
    proof -
      have "(2::rat) ^ nat (53 - k) = 2 powi (53 - k)" using k2 by (simp add: power_int_def)
      then have "(2::rat) ^ nat (53 - k) * 2 powi (k - 53) = 1" by (simp flip: power_int_add)
      then show ?thesis by simp
    qed
    with lo hi k1 k2 3 show ?thesis by (intro exI [of _ ?m] exI [of _ "k - 53"]) auto
  qed
qed

lemma round_ratio_int:
  assumes "0 \<le> p" "0 < q" "ratio p q = of_int n" "n \<le> 2 ^ 53"
  obtains m e where "round_ratio s p q = Finite s m e" "valid_number (Finite s m e)"
    "(of_int m * 2 powi e :: rat) = of_int n"
proof -
  have "(0::rat) \<le> of_int n" unfolding assms(3) [symmetric] ratio_def using assms(1,2) by simp
  then have "0 \<le> n" by simp
  then obtain m e where me: "valid_number (Finite s m e)" "(of_int m * 2 powi e :: rat) = of_int n"
    using valid_number_of_int [of n s] assms by blast
  then have "round_ratio s p q = Finite s m e" using assms by (intro round_ratio_exact) auto
  with me show thesis using that by blast
qed

lemma round_ratio_big:
  assumes "0 < p" "0 < q" "2 ^ 53 \<le> ratio p q" "round_ratio s p q = Finite t m e"
  shows "(2 ^ 53 :: rat) \<le> of_int m * 2 powi e"
proof -
  have "of_int (2 ^ 52) * (2::rat) powi 1 \<le> of_int (round_significand p q) * 2 powi round_exponent p q"
    by (rule round_significand_ge [OF assms(1,2), of False]) (use assms(3) in simp_all)
  moreover have "round_significand p q \<noteq> 0"
    using calculation by (auto simp: power_int_def split: if_splits)
  ultimately show ?thesis
    using pack_value [of "round_significand p q" s "round_exponent p q" t m e] assms(1,4)
    by (simp add: round_ratio_pack)
qed

lemma is_safe_integer_value:
  assumes "valid_number (Finite s m e)"
  shows "is_safe_integer (Finite s m e) \<longleftrightarrow>
    (\<exists>n. (of_int m * 2 powi e :: rat) = of_int n \<and> n < 2 ^ 53)"
proof (cases "0 \<le> e")
  case True
  then have "(of_int m * 2 powi e :: rat) = of_int (m * 2 ^ nat e)" by (simp add: power_int_def)
  then show ?thesis using True by (auto simp del: of_int_mult)
next
  case False
  let ?d = "(2::int) ^ nat (- e)"
  have v: "(of_int m * 2 powi e :: rat) = of_int m / of_int ?d"
    using False by (simp add: two_powi_split)
  have "(\<exists>n. (of_int m / of_int ?d :: rat) = of_int n \<and> n < 2 ^ 53) \<longleftrightarrow> (\<exists>n. m = n * ?d \<and> n < 2 ^ 53)"
  proof -
    have "(of_int m / of_int ?d :: rat) = of_int n \<longleftrightarrow> m = n * ?d" for n
    proof -
      have "(of_int m / of_int ?d :: rat) = of_int n \<longleftrightarrow> (of_int m :: rat) = of_int (n * ?d)"
        by (simp add: field_simps)
      then show ?thesis by (simp only: of_int_eq_iff)
    qed
    then show ?thesis by simp
  qed
  also have "\<dots> \<longleftrightarrow> m mod ?d = 0 \<and> m \<le> (2 ^ 53 - 1) * ?d"
  proof -
    have lt: "n < 2 ^ 53 \<longleftrightarrow> n * ?d \<le> (2 ^ 53 - 1) * ?d" for n :: int
      by (subst mult_le_cancel_right) auto
    have "m mod ?d = 0 \<longleftrightarrow> m = m div ?d * ?d"
      using mult_div_mod_eq [of ?d m] by (metis add_cancel_left_right mult.commute)
    then have "m mod ?d = 0 \<longleftrightarrow> (\<exists>n. m = n * ?d)"
      by (metis mod_mult_self2_is_0)
    then show ?thesis unfolding lt by metis
  qed
  finally show ?thesis using False by (simp add: v)
qed

text \<open>
  A rounded result that passes the safe-integer test is the exact result, when the exact
  result is an integer: beyond \<open>2 ^ 53\<close> the rounded value is not a safe integer.
\<close>

theorem round_ratio_safe:
  assumes pq: "0 \<le> p" "0 < q" and n: "ratio p q = of_int n"
    and safe: "is_safe_integer (round_ratio s p q)"
  shows "number_value (round_ratio s p q) = of_int (signed s n)"
proof (cases "n \<le> 2 ^ 53")
  case True
  then obtain m e where r: "round_ratio s p q = Finite s m e" "(of_int m * 2 powi e :: rat) = of_int n"
    using round_ratio_int [OF pq n] by metis
  then show ?thesis by (simp add: signed_def)
next
  case False
  have "(of_int (2 ^ 53) :: rat) \<le> of_int n" unfolding of_int_le_iff using False by simp
  then have big: "2 ^ 53 \<le> ratio p q" by (simp add: n)
  then have p: "0 < p" using pq by (cases "p = 0") (auto simp: ratio_def)
  obtain t m e where r: "round_ratio s p q = Finite t m e"
    using safe by (cases "round_ratio s p q") auto
  have v: "valid_number (Finite t m e)" using round_ratio_valid [OF pq, of s] by (simp only: r)
  from round_ratio_big [OF p pq(2) big r]
  have "\<not> (\<exists>k. (of_int m * 2 powi e :: rat) = of_int k \<and> k < 2 ^ 53)"
  proof (clarify)
    fix k assume a: "(2 ^ 53 :: rat) \<le> of_int m * 2 powi e" "of_int m * 2 powi e = (of_int k :: rat)" "k < 2 ^ 53"
    then have "(of_int (2 ^ 53) :: rat) \<le> of_int k" by simp
    then show False using a(3) unfolding of_int_le_iff by simp
  qed
  with safe r is_safe_integer_value [OF v] show ?thesis by simp
qed

section \<open>The operators compute the rounded exact result\<close>

lemma signed_simps [simp]: "signed False m = m" "signed True m = - m" "signed s 0 = 0"
  by (simp_all add: signed_def)

lemma two_powi_sign [simp]: "\<not> (2::rat) powi e < 0" "\<not> (2::rat) powi e \<le> 0"
  by (simp_all add: not_less not_le)

lemma align_value: "g \<le> e \<Longrightarrow> of_int (align s m e g) * 2 powi g = number_value (Finite s m e)"
proof -
  assume "g \<le> e"
  then have "(2::rat) powi e = 2 ^ nat (e - g) * 2 powi g"
    using of_int_shift [of g e 1] by simp
  then show ?thesis by (cases s) (simp_all add: align_def)
qed

lemma ratio_scaled_int: "ratio (n * 2 ^ nat g) (2 ^ nat (- g)) = of_int n * 2 powi g"
  by (simp add: ratio_def two_powi_split)

lemma js_less_value [simp]:
  "js_less (Finite s m e) (Finite t n f) \<longleftrightarrow> number_value (Finite s m e) < number_value (Finite t n f)"
proof -
  let ?g = "min e f"
  have "number_value (Finite s m e) < number_value (Finite t n f) \<longleftrightarrow>
      (of_int (align s m e ?g) * 2 powi ?g :: rat) < of_int (align t n f ?g) * 2 powi ?g"
    by (simp only: align_value min.cobounded1 min.cobounded2)
  also have "\<dots> \<longleftrightarrow> align s m e ?g < align t n f ?g" by simp
  finally show ?thesis by (simp add: Let_def)
qed

declare js_less.simps(1) [simp del]

lemma round_scaled_eq:
  "round_scaled n g = round_ratio (n < 0) (\<bar>n\<bar> * 2 ^ nat g) (2 ^ nat (- g))"
  by (simp add: round_scaled_def)

lemma js_add_cases:
  obtains (zero) "number_value (Finite s m e) + number_value (Finite t n f) = 0"
      "js_add (Finite s m e) (Finite t n f) = Finite (s \<and> t) 0 (- 1074)"
  | (round) p q where "0 < p" "0 < q"
      "number_value (Finite s m e) + number_value (Finite t n f) \<noteq> 0"
      "ratio p q = \<bar>number_value (Finite s m e) + number_value (Finite t n f)\<bar>"
      "js_add (Finite s m e) (Finite t n f) =
         round_ratio (number_value (Finite s m e) + number_value (Finite t n f) < 0) p q"
proof -
  let ?g = "min e f"
  define a where "a = align s m e ?g + align t n f ?g"
  have v: "number_value (Finite s m e) + number_value (Finite t n f) = of_int a * 2 powi ?g"
    unfolding a_def of_int_add distrib_right by (simp only: align_value min.cobounded1 min.cobounded2)
  show thesis
  proof (cases "a = 0")
    case True
    then show thesis using v by (intro zero) (simp_all only: js_add.simps Let_def a_def [symmetric], simp)
  next
    case False
    show thesis
    proof (rule round)
      show "0 < \<bar>a\<bar> * 2 ^ nat ?g" "(0::int) < 2 ^ nat (- ?g)" using False by simp_all
      show "number_value (Finite s m e) + number_value (Finite t n f) \<noteq> 0"
        unfolding v using False by simp
      show "ratio (\<bar>a\<bar> * 2 ^ nat ?g) (2 ^ nat (- ?g)) =
          \<bar>number_value (Finite s m e) + number_value (Finite t n f)\<bar>"
        unfolding v ratio_scaled_int by (simp add: abs_mult)
      have "number_value (Finite s m e) + number_value (Finite t n f) < 0 \<longleftrightarrow> a < 0"
        unfolding v by (simp add: mult_less_0_iff)
      then show "js_add (Finite s m e) (Finite t n f) =
          round_ratio (number_value (Finite s m e) + number_value (Finite t n f) < 0)
            (\<bar>a\<bar> * 2 ^ nat ?g) (2 ^ nat (- ?g))"
        using False by (simp only: js_add.simps Let_def a_def [symmetric] round_scaled_def) simp
    qed
  qed
qed

lemma valid_js_neg [simp]: "valid_number (js_neg x) = valid_number x"
  by (cases x) auto

lemma number_value_neg [simp]: "number_value (js_neg x) = - number_value x"
  by (cases x) (auto simp: signed_def)

lemma valid_num [simp]: "valid_number (num n)"
  by (simp add: num_def round_ratio_valid)

lemma valid_js_add: "valid_number x \<Longrightarrow> valid_number y \<Longrightarrow> valid_number (js_add x y)"
proof (induction x y rule: js_add.induct)
  case (1 s m e t n f)
  show ?case by (rule js_add_cases [of s m e t n f]) (simp_all add: round_ratio_valid)
qed auto

lemma valid_js_sub: "valid_number x \<Longrightarrow> valid_number y \<Longrightarrow> valid_number (js_sub x y)"
  by (simp add: js_sub_def valid_js_add)

lemma valid_js_mul: "valid_number x \<Longrightarrow> valid_number y \<Longrightarrow> valid_number (js_mul x y)"
  by (induction x y rule: js_mul.induct) (auto simp: round_ratio_valid)

lemma valid_js_div: "valid_number x \<Longrightarrow> valid_number y \<Longrightarrow> valid_number (js_div x y)"
  by (induction x y rule: js_div.induct) (auto simp: round_ratio_valid)

lemma valid_js_mod: "valid_number x \<Longrightarrow> valid_number y \<Longrightarrow> valid_number (js_mod x y)"
  by (induction x y rule: js_mod.induct) (auto simp: Let_def intro!: round_ratio_valid mult_nonneg_nonneg)

lemma valid_js_abs: "valid_number x \<Longrightarrow> valid_number (js_abs x)"
  by (cases x) auto

lemma valid_js_floor: "valid_number x \<Longrightarrow> valid_number (js_floor x)"
  by (cases x) (auto simp: Let_def)

lemma valid_js_ceil: "valid_number x \<Longrightarrow> valid_number (js_ceil x)"
  by (simp add: js_ceil_def valid_js_floor)

lemma valid_js_min: "valid_number x \<Longrightarrow> valid_number y \<Longrightarrow> valid_number (js_min x y)"
  by (simp add: js_min_def)

lemma valid_js_max: "valid_number x \<Longrightarrow> valid_number y \<Longrightarrow> valid_number (js_max x y)"
  by (simp add: js_max_def)

lemma valid_unsigned_number: "valid_number (unsigned_number t)"
proof (cases "scan_decimal t")
  case None
  then show ?thesis by (simp add: unsigned_number_def)
next
  case (Some r)
  obtain d x rest where r: "r = (d, x, rest)" by (cases r)
  have "0 \<le> d" using Some digits_value_nonneg
    by (auto simp: r scan_decimal_def Let_def split: if_splits prod.splits)
  then show ?thesis using Some
    by (simp add: unsigned_number_def r number_of_decimal_def round_ratio_valid)
qed

lemma radix_value_nonneg: "0 \<le> b \<Longrightarrow> 0 \<le> radix_value b s"
  by (induction s rule: rev_induct) (auto simp: radix_value_def)

lemma valid_js_Number [simp]: "valid_number (js_Number s)"
proof -
  have "0 \<le> radix_of t" for t by (simp add: radix_of_def)
  then show ?thesis
    by (auto simp: js_Number_def Let_def valid_unsigned_number radix_value_nonneg intro!: round_ratio_valid)
qed

lemmas valid_operators =
  valid_js_add valid_js_sub valid_js_mul valid_js_div valid_js_mod valid_js_abs valid_js_floor
  valid_js_ceil valid_js_min valid_js_max

subsection \<open>Integer results that pass the safe-integer test are exact\<close>

lemma is_safe_integer_finite: "is_safe_integer x \<Longrightarrow> is_finite x"
  by (cases x) auto

theorem js_add_safe:
  assumes "valid_number x" "valid_number y" "is_finite x" "is_finite y"
    and x: "number_value x = of_int a" and y: "number_value y = of_int b"
    and safe: "is_safe_integer (js_add x y)"
  shows "number_value (js_add x y) = of_int (a + b)"
proof -
  obtain s m e where xe: "x = Finite s m e" using assms(3) by (cases x) auto
  obtain t n f where ye: "y = Finite t n f" using assms(4) by (cases y) auto
  have sum: "number_value x + number_value y = of_int (a + b)" by (simp add: x y)
  show ?thesis
  proof (rule js_add_cases [of s m e t n f], fold xe ye)
    assume "number_value x + number_value y = 0" "js_add x y = Finite (s \<and> t) 0 (- 1074)"
    then show ?thesis using sum by simp
  next
    fix p q assume pq: "0 < p" "0 < q" and r: "ratio p q = \<bar>number_value x + number_value y\<bar>"
      and eq: "js_add x y = round_ratio (number_value x + number_value y < 0) p q"
    have rn: "ratio p q = of_int \<bar>a + b\<bar>" unfolding r sum by simp
    have neg: "number_value x + number_value y < 0 \<longleftrightarrow> a + b < 0"
      unfolding sum by (rule of_int_less_0_iff)
    have "number_value (js_add x y) = of_int (signed (a + b < 0) \<bar>a + b\<bar>)"
      unfolding eq neg using pq safe [unfolded eq neg] rn by (intro round_ratio_safe) auto
    then show ?thesis by (simp add: signed_def split: if_splits)
  qed
qed

theorem js_sub_safe:
  assumes "valid_number x" "valid_number y" "is_finite x" "is_finite y"
    and "number_value x = of_int a" "number_value y = of_int b" "is_safe_integer (js_sub x y)"
  shows "number_value (js_sub x y) = of_int (a - b)"
proof -
  have "is_finite (js_neg y)" using assms(4) by (cases y) auto
  then show ?thesis
    using js_add_safe [of x "js_neg y" a "- b"] assms by (simp add: js_sub_def)
qed

theorem js_mul_safe:
  assumes v: "valid_number x" "valid_number y" "is_finite x" "is_finite y"
    and x: "number_value x = of_int a" and y: "number_value y = of_int b"
    and safe: "is_safe_integer (js_mul x y)"
  shows "number_value (js_mul x y) = of_int (a * b)"
proof -
  obtain s m e where xe: "x = Finite s m e" using v(3) by (cases x) auto
  obtain t n f where ye: "y = Finite t n f" using v(4) by (cases y) auto
  define p q where "p = m * n * 2 ^ nat (e + f)" and "q = (2::int) ^ nat (- (e + f))"
  have pq: "0 \<le> p" "0 < q" using v by (auto simp: xe ye p_def q_def)
  have eq: "js_mul x y = round_ratio (s \<noteq> t) p q" by (simp add: xe ye p_def q_def)
  have r: "ratio p q = of_int m * 2 powi e * (of_int n * 2 powi f)"
    unfolding p_def q_def ratio_scaled_int by (simp add: power_int_add)
  have ab: "of_int (a * b) = of_int (signed (s \<noteq> t) 1) * ratio p q"
    unfolding of_int_mult r x [symmetric] y [symmetric] by (simp add: xe ye signed_def)
  then have rn: "ratio p q = of_int (signed (s \<noteq> t) (a * b))"
    by (auto simp: signed_def split: if_splits)
  have "number_value (js_mul x y) = of_int (signed (s \<noteq> t) (signed (s \<noteq> t) (a * b)))"
    unfolding eq by (rule round_ratio_safe [OF pq rn safe [unfolded eq]])
  then show ?thesis by (simp add: signed_def)
qed

subsection \<open>Signs\<close>

fun nonneg :: "js_number \<Rightarrow> bool" where
  "nonneg (Finite s m e) = (\<not> s \<or> m = 0)"
| "nonneg (Infinite s) = (\<not> s)"
| "nonneg NaN = False"

lemma not_less_zero_nonneg:
  assumes "valid_number x" "x \<noteq> NaN"
  shows "js_less x zero_num \<longleftrightarrow> \<not> nonneg x"
proof (cases x)
  case (Finite s m e)
  with assms have "0 \<le> m" by simp
  then show ?thesis by (auto simp: Finite signed_def mult_less_0_iff)
qed (use assms in auto)

lemma nonneg_value: "valid_number (Finite s m e) \<Longrightarrow> nonneg (Finite s m e) \<longleftrightarrow> 0 \<le> number_value (Finite s m e)"
  by (auto simp: signed_def zero_le_mult_iff)

lemma round_ratio_sign:
  "round_ratio s p q = Finite t m e \<Longrightarrow> t = s" "round_ratio s p q = Infinite t \<Longrightarrow> t = s"
  "round_ratio s p q \<noteq> NaN"
  by (auto simp: round_ratio_def pack_def Let_def split: if_splits)

lemma nonneg_round_ratio: "nonneg (round_ratio False p q)"
  by (cases "round_ratio False p q") (auto dest: round_ratio_sign(1,2) simp: round_ratio_sign(3))

lemma nonneg_js_add:
  assumes "valid_number x" "valid_number y" "nonneg x" "nonneg y"
  shows "nonneg (js_add x y)"
proof (cases "is_finite x \<and> is_finite y")
  case True
  then obtain s m e t n f where xe: "x = Finite s m e" and ye: "y = Finite t n f"
    by (cases x; cases y) auto
  have nn: "0 \<le> number_value x" "0 \<le> number_value y"
    using assms by (simp_all only: xe ye nonneg_value)
  show ?thesis
  proof (rule js_add_cases [of s m e t n f], fold xe ye)
    fix p q assume "js_add x y = round_ratio (number_value x + number_value y < 0) p q"
    moreover have "\<not> number_value x + number_value y < 0" using nn by linarith
    ultimately show ?thesis by (simp add: nonneg_round_ratio)
  qed simp
next
  case False
  with assms show ?thesis by (cases x; cases y) auto
qed

lemma nonneg_js_mul:
  assumes "valid_number x" "valid_number y" "nonneg x" "nonneg y" "is_finite x" "is_finite y"
  shows "nonneg (js_mul x y)"
proof -
  obtain s m e where xe: "x = Finite s m e" using assms(5) by (cases x) auto
  obtain t n f where ye: "y = Finite t n f" using assms(6) by (cases y) auto
  show ?thesis
  proof (cases "m * n = 0")
    case True
    then show ?thesis by (auto simp: xe ye round_ratio_def)
  next
    case False
    with assms have "s = False" "t = False" by (auto simp: xe ye)
    then show ?thesis by (simp add: xe ye nonneg_round_ratio)
  qed
qed

end
