(* ===== verification/Expression.thy ===== *)
theory Expression
  imports JsNumberFacts
begin

text \<open>
  The syntax tree of a billing expression and what every part of the engine shares
  (\<open>billing-expression/types.ts\<close>): the node type with its source span, the diagnostics an
  error carries, the bounded post-order walk \<open>visitExpression\<close> and the dependency
  collector built on it.  The walk is proved to be a fold over the post-order list of the
  nodes whenever the tree is no deeper than the bound, and to fail otherwise.
\<close>

section \<open>Names\<close>

definition TOKEN_VARIABLES :: "jsstring list" where
  "TOKEN_VARIABLES = map js [''p'', ''c'', ''len'', ''cr'', ''cc'', ''cc1h'', ''img'',
     ''img_cr'', ''img_o'', ''ai'', ''ao'']"

definition BILLING_VARIABLES :: "jsstring list" where
  "BILLING_VARIABLES = TOKEN_VARIABLES @ [js ''image_count'']"

definition TIME_FUNCTIONS :: "jsstring list" where
  "TIME_FUNCTIONS = map js [''hour'', ''minute'', ''weekday'', ''month'', ''day'']"

definition BILLING_FUNCTIONS :: "(jsstring \<times> nat) list" where
  "BILLING_FUNCTIONS = map (\<lambda>(f, n). (js f, n))
     [(''tier'', 2), (''fixed'', 1), (''param'', 1), (''header'', 1), (''has'', 2), (''u'', 1),
      (''hour'', 1), (''minute'', 1), (''weekday'', 1), (''month'', 1), (''day'', 1),
      (''min'', 2), (''max'', 2), (''abs'', 1), (''ceil'', 1), (''floor'', 1)]"

section \<open>Nodes and diagnostics\<close>

datatype literal = StringLit jsstring | NumberLit js_number | BoolLit bool | NilLit

text \<open>
  Every node ends with the start and the end of its source span.  The flag of a literal is
  the \<open>integer\<close> field; \<open>False\<close> stands for both \<open>false\<close> and an absent field, which the
  engine never tells apart.
\<close>

datatype node =
    Literal literal bool (node_start: nat) (node_end: nat)
  | Variable jsstring (node_start: nat) (node_end: nat)
  | Call jsstring "node list" (node_start: nat) (node_end: nat)
  | Unary jsstring node (node_start: nat) (node_end: nat)
  | Binary jsstring node node (node_start: nat) (node_end: nat)
  | Conditional node node node (node_start: nat) (node_end: nat)

datatype diagnostic_code =
  Code_syntax | Code_unsupported | Code_missing_context | Code_type | Code_number | Code_limit

record diagnostic =
  code :: diagnostic_code
  detail :: jsstring
  position :: "nat option"

text \<open>What a \<open>throw\<close> carries: the engine's own error class, or any other error.\<close>

datatype thrown = BillingExpressionError diagnostic | OtherError jsstring

datatype failure_status = Status_unsupported | Status_invalid | Status_missing_context

record failure =
  status :: failure_status
  diagnosis :: diagnostic

definition throw :: "diagnostic_code \<Rightarrow> jsstring \<Rightarrow> nat option \<Rightarrow> thrown + 'a" where
  "throw c d p = Inl (BillingExpressionError \<lparr>code = c, detail = d, position = p\<rparr>)"

definition expressionFailure :: "thrown \<Rightarrow> failure" where
  "expressionFailure err =
     (let d = (case err of
                 BillingExpressionError d \<Rightarrow> d
               | OtherError m \<Rightarrow> \<lparr>code = Code_syntax, detail = m, position = None\<rparr>);
          st = (if code d = Code_unsupported \<or> code d = Code_limit then Status_unsupported
                else if code d = Code_missing_context then Status_missing_context
                else Status_invalid)
      in \<lparr>status = st, diagnosis = d\<rparr>)"

section \<open>The walk\<close>

fun children :: "node \<Rightarrow> node list" where
  "children (Call _ as _ _) = as"
| "children (Unary _ x _ _) = [x]"
| "children (Binary _ l r _ _) = [l, r]"
| "children (Conditional c y n _ _) = [c, y, n]"
| "children _ = []"

fun node_count :: "node \<Rightarrow> nat" where
  "node_count (Call _ as _ _) = Suc (sum_list (map node_count as))"
| "node_count (Unary _ x _ _) = Suc (node_count x)"
| "node_count (Binary _ l r _ _) = Suc (node_count l + node_count r)"
| "node_count (Conditional c y n _ _) = Suc (node_count c + node_count y + node_count n)"
| "node_count _ = 1"

lemma node_count_children: "node_count n = Suc (sum_list (map node_count (children n)))"
  by (cases n) auto

text \<open>
  The explicit stack of the source, top first; an entry is the node, whether its children
  have been pushed already, and its depth.
\<close>

type_synonym visit_entry = "node \<times> bool \<times> nat"

definition entry_weight :: "visit_entry \<Rightarrow> nat" where
  "entry_weight e = (case e of (n, visited, _) \<Rightarrow> if visited then 1 else 2 * node_count n)"

lemma pushed_weight:
  "sum_list (map entry_weight (map (\<lambda>c. (c, False, d)) cs)) = 2 * sum_list (map node_count cs)"
  by (induction cs) (auto simp: entry_weight_def)

function visit_loop ::
    "(node \<Rightarrow> 's \<Rightarrow> thrown + 's) \<Rightarrow> visit_entry list \<Rightarrow> 's \<Rightarrow> thrown + 's" where
  "visit_loop visitor [] s = Inr s"
| "visit_loop visitor ((n, visited, d) # stack) s =
     (if 256 < d then throw Code_limit (js ''expression depth'') None
      else if visited then rbind (visitor n s) (\<lambda>s'. visit_loop visitor stack s')
      else visit_loop visitor (map (\<lambda>c. (c, False, Suc d)) (children n) @ (n, True, d) # stack) s)"
  by pat_completeness auto
termination
proof (relation "measure (\<lambda>(visitor, stack, s). sum_list (map entry_weight stack))", goal_cases)
  case 1
  show ?case by simp
next
  case 2
  then show ?case by (simp add: entry_weight_def)
next
  case (3 visitor n visited d stack s)
  have "sum_list (map entry_weight (map (\<lambda>c. (c, False, Suc d)) (children n))) < 2 * node_count n - 1"
    unfolding pushed_weight by (subst node_count_children) simp
  with 3 show ?case by (simp add: entry_weight_def [of "(n, _, _)"])
qed

definition visitExpression :: "node \<Rightarrow> (node \<Rightarrow> 's \<Rightarrow> thrown + 's) \<Rightarrow> 's \<Rightarrow> thrown + 's" where
  "visitExpression n visitor s = visit_loop visitor [(n, False, 0)] s"

record dependencies =
  dep_variables :: "jsstring set"
  dep_functions :: "jsstring set"

fun dependency_visitor :: "node \<Rightarrow> dependencies \<Rightarrow> thrown + dependencies" where
  "dependency_visitor (Variable x _ _) s = Inr (s\<lparr>dep_variables := insert x (dep_variables s)\<rparr>)"
| "dependency_visitor (Call f _ _ _) s = Inr (s\<lparr>dep_functions := insert f (dep_functions s)\<rparr>)"
| "dependency_visitor _ s = Inr s"

definition expressionDependencies :: "node \<Rightarrow> thrown + dependencies" where
  "expressionDependencies n = visitExpression n dependency_visitor \<lparr>dep_variables = {}, dep_functions = {}\<rparr>"

section \<open>The walk is a bounded post-order traversal\<close>

fun postorder :: "node \<Rightarrow> node list" where
  "postorder (Call f as i j) = concat (map postorder as) @ [Call f as i j]"
| "postorder (Unary op x i j) = postorder x @ [Unary op x i j]"
| "postorder (Binary op l r i j) = postorder l @ postorder r @ [Binary op l r i j]"
| "postorder (Conditional c y n i j) =
     postorder c @ postorder y @ postorder n @ [Conditional c y n i j]"
| "postorder n = [n]"

fun height :: "node \<Rightarrow> nat" where
  "height (Call _ as _ _) = fold max (map (\<lambda>a. Suc (height a)) as) 0"
| "height (Unary _ x _ _) = Suc (height x)"
| "height (Binary _ l r _ _) = Suc (max (height l) (height r))"
| "height (Conditional c y n _ _) = Suc (max (height c) (max (height y) (height n)))"
| "height _ = 0"

lemma fold_max_le_iff: "fold max xs (a::nat) \<le> b \<longleftrightarrow> a \<le> b \<and> (\<forall>x \<in> set xs. x \<le> b)"
  by (induction xs arbitrary: a) auto

lemma height_le_iff: "height n \<le> b \<longleftrightarrow> (\<forall>c \<in> set (children n). Suc (height c) \<le> b)"
  by (cases n) (auto simp: fold_max_le_iff)

lemma postorder_children: "postorder n = concat (map postorder (children n)) @ [n]"
  by (cases n) auto

lemma node_induct_children:
  assumes "\<And>n. (\<And>c. c \<in> set (children n) \<Longrightarrow> P c) \<Longrightarrow> P n"
  shows "P n"
proof (induction n rule: measure_induct_rule [where f = node_count])
  case (less n)
  have "node_count c < node_count n" if "c \<in> set (children n)" for c
    using that member_le_sum_list [of "node_count c" "map node_count (children n)"]
    by (subst node_count_children [of n]) (simp add: less_Suc_eq_le)
  then show ?case by (rule assms [OF less.IH])
qed

lemma visit_loop_node:
  "d + height n \<le> 256 \<Longrightarrow>
     visit_loop v ((n, False, d) # stack) s =
     rbind (rfold v (postorder n) s) (\<lambda>s'. visit_loop v stack s')"
proof (induction n arbitrary: d stack s rule: node_induct_children)
  case (1 n)
  have kids: "visit_loop v (map (\<lambda>c. (c, False, Suc d)) cs @ stack') s' =
      rbind (rfold v (concat (map postorder cs)) s') (\<lambda>t. visit_loop v stack' t)"
    if "set cs \<subseteq> set (children n)" for cs stack' s'
    using that
  proof (induction cs arbitrary: s')
    case (Cons c cs)
    have "height n \<le> 256 - d" using "1.prems" by simp
    then have "Suc d + height c \<le> 256" using Cons.prems "1.prems" by (auto simp: height_le_iff)
    moreover have "visit_loop v (map (\<lambda>c. (c, False, Suc d)) cs @ stack') =
        (\<lambda>s'. rbind (rfold v (concat (map postorder cs)) s') (\<lambda>t. visit_loop v stack' t))"
      by (intro ext Cons.IH) (use Cons.prems in simp)
    ultimately show ?case
      using "1.IH" [of c "Suc d" "map (\<lambda>c. (c, False, Suc d)) cs @ stack'" s'] Cons.prems
      by (simp only: list.map append_Cons concat.simps rfold_append rbind_assoc) simp
  qed simp
  have "visit_loop v ((n, False, d) # stack) s =
      visit_loop v (map (\<lambda>c. (c, False, Suc d)) (children n) @ (n, True, d) # stack) s"
    using "1.prems" by simp
  also have "\<dots> = rbind (rfold v (concat (map postorder (children n))) s)
      (\<lambda>t. visit_loop v ((n, True, d) # stack) t)"
    by (rule kids) simp
  also have "\<dots> = rbind (rfold v (concat (map postorder (children n))) s)
      (\<lambda>t. rbind (v n t) (\<lambda>u. visit_loop v stack u))"
    using "1.prems" by simp
  also have "\<dots> = rbind (rfold v (postorder n) s) (\<lambda>t. visit_loop v stack t)"
    unfolding postorder_children [of n] rfold_append rbind_assoc
    by (rule arg_cong [of _ _ "rbind _"]) (auto simp: rbind_def split: sum.splits)
  finally show ?case .
qed

text \<open>A visitor that never throws: the walk fails exactly when the tree is too deep.\<close>

lemma visit_loop_deep:
  "\<not> d + height n \<le> 256 \<Longrightarrow> (\<And>m s. \<exists>s'. v m s = Inr s') \<Longrightarrow>
     visit_loop v ((n, False, d) # stack) s = throw Code_limit (js ''expression depth'') None"
proof (induction n arbitrary: d stack s rule: node_induct_children)
  case (1 n)
  show ?case
  proof (cases "256 < d")
    case True
    then show ?thesis by simp
  next
    case False
    have "\<not> height n \<le> 256 - d" using "1.prems"(1) False by linarith
    then obtain c where c: "c \<in> set (children n)" "\<not> Suc d + height c \<le> 256"
      using False by (auto simp: height_le_iff)
    have kids: "visit_loop v (map (\<lambda>c. (c, False, Suc d)) cs @ stack') s' =
        throw Code_limit (js ''expression depth'') None"
      if "set cs \<subseteq> set (children n)" "\<exists>c \<in> set cs. \<not> Suc d + height c \<le> 256" for cs stack' s'
      using that
    proof (induction cs arbitrary: s')
      case (Cons c' cs)
      show ?case
      proof (cases "Suc d + height c' \<le> 256")
        case True
        obtain t where t: "rfold v (postorder c') s' = Inr t"
        proof -
          have "\<exists>t. rfold v ns s' = Inr t" for ns
          proof (induction ns arbitrary: s')
            case (Cons m ns)
            obtain u where "v m s' = Inr u" using "1.prems"(2) by blast
            with Cons show ?case by simp
          qed simp
          then show thesis using that by blast
        qed
        have "visit_loop v (map (\<lambda>c. (c, False, Suc d)) (c' # cs) @ stack') s' =
            visit_loop v (map (\<lambda>c. (c, False, Suc d)) cs @ stack') t"
          using visit_loop_node [OF True, of v] by (simp only: list.map append_Cons t rbind_Inr)
        with True Cons show ?thesis by auto
      next
        case False
        then show ?thesis unfolding list.map append_Cons
          by (intro "1.IH") (use Cons.prems "1.prems"(2) in auto)
      qed
    qed simp
    have "visit_loop v ((n, False, d) # stack) s =
        visit_loop v (map (\<lambda>c. (c, False, Suc d)) (children n) @ (n, True, d) # stack) s"
      using False by simp
    also have "\<dots> = throw Code_limit (js ''expression depth'') None"
      by (rule kids) (use c in auto)
    finally show ?thesis .
  qed
qed

theorem visitExpression_postorder:
  "height n \<le> 256 \<Longrightarrow> visitExpression n v s = rfold v (postorder n) s"
  using visit_loop_node [of 0 n v "[]" s]
  by (cases "rfold v (postorder n) s") (simp_all add: visitExpression_def)

theorem visitExpression_too_deep:
  "256 < height n \<Longrightarrow> (\<And>m s. \<exists>s'. v m s = Inr s') \<Longrightarrow>
     visitExpression n v s = throw Code_limit (js ''expression depth'') None"
  using visit_loop_deep [of 0 n v "[]" s] by (simp add: visitExpression_def)

section \<open>Dependencies\<close>

definition node_variables :: "node \<Rightarrow> jsstring set" where
  "node_variables n = {x. \<exists>i j. Variable x i j \<in> set (postorder n)}"

definition node_functions :: "node \<Rightarrow> jsstring set" where
  "node_functions n = {f. \<exists>as i j. Call f as i j \<in> set (postorder n)}"

lemma rfold_dependency_visitor:
  "rfold dependency_visitor ns s = Inr (s
     \<lparr>dep_variables := dep_variables s \<union> {x. \<exists>i j. Variable x i j \<in> set ns},
      dep_functions := dep_functions s \<union> {f. \<exists>as i j. Call f as i j \<in> set ns}\<rparr>)"
proof (induction ns arbitrary: s)
  case (Cons n ns)
  then show ?case by (cases n) (auto intro!: dependencies.equality, blast+)
qed simp

lemma dependency_visitor_total: "\<exists>s'. dependency_visitor n s = Inr s'"
  by (cases n) auto

theorem expressionDependencies_eq:
  "expressionDependencies n =
     (if height n \<le> 256
      then Inr \<lparr>dep_variables = node_variables n, dep_functions = node_functions n\<rparr>
      else throw Code_limit (js ''expression depth'') None)"
  by (simp add: expressionDependencies_def visitExpression_postorder visitExpression_too_deep
      dependency_visitor_total rfold_dependency_visitor node_variables_def node_functions_def)

lemma self_in_postorder: "n \<in> set (postorder n)"
  by (subst postorder_children) simp

lemma postorder_child: "c \<in> set (children n) \<Longrightarrow> set (postorder c) \<subseteq> set (postorder n)"
  by (subst (2) postorder_children) auto

lemma postorder_trans: "m \<in> set (postorder n) \<Longrightarrow> set (postorder m) \<subseteq> set (postorder n)"
proof (induction n rule: node_induct_children)
  case (1 n)
  show ?case
  proof (cases "m = n")
    case False
    with "1.prems" obtain c where "c \<in> set (children n)" "m \<in> set (postorder c)"
      by (subst (asm) postorder_children) auto
    with "1.IH" postorder_child show ?thesis by blast
  qed simp
qed

lemma height_postorder: "m \<in> set (postorder n) \<Longrightarrow> height m \<le> height n"
proof (induction n rule: node_induct_children)
  case (1 n)
  show ?case
  proof (cases "m = n")
    case False
    with "1.prems" obtain c where c: "c \<in> set (children n)" "m \<in> set (postorder c)"
      by (subst (asm) postorder_children) auto
    with "1.IH" have "height m \<le> height c" by blast
    moreover have "Suc (height c) \<le> height n" using c(1) height_le_iff [of n "height n"] by simp
    ultimately show ?thesis by simp
  qed simp
qed

end
