(* ===== verification/Lexer.thy ===== *)
theory Lexer
  imports Expression
begin

text \<open>
  The lexical half of the parser (\<open>billing-expression/parser.ts\<close>, class
  \<open>BillingParser\<close>: the constructor, \<open>next\<close>, \<open>take\<close>, \<open>is\<close> and
  \<open>expect\<close>).  The parser state is the cursor, the number of lexemes read, the nesting
  depth and the current lexeme; every method takes the source and the state and returns the
  new state or the error it throws.
\<close>

section \<open>Lexemes\<close>

datatype lexeme_kind = K_number | K_string | K_symbol | K_name | K_end

record lexeme =
  kind :: lexeme_kind
  lex_text :: jsstring
  lex_start :: nat
  lex_end :: nat
  lex_value :: "literal option"
  lex_integer :: bool

record parser =
  cursor :: nat
  lexemes :: nat
  depth :: nat
  current :: lexeme

section \<open>String literals\<close>

definition escape_value :: "code_unit \<Rightarrow> code_unit option" where
  "escape_value c =
     (if c = 110 then Some 10 else if c = 114 then Some 13 else if c = 116 then Some 9
      else if c = 98 then Some 8 else if c = 102 then Some 12 else if c = 118 then Some 11
      else if c = 92 \<or> c = 34 \<or> c = 39 \<or> c = 47 then Some c else None)"

text \<open>The outcome of the loop that reads a string literal after its opening quote.\<close>

datatype string_scan = Closed jsstring nat | Bad_escape nat | Unterminated

text \<open>
  \<open>pos\<close> is the index of the first unit of the remaining text; the value read so far is
  accumulated.
\<close>

function scan_string :: "code_unit \<Rightarrow> nat \<Rightarrow> jsstring \<Rightarrow> jsstring \<Rightarrow> string_scan" where
  "scan_string quote pos [] val = Unterminated"
| "scan_string quote pos (c # r) val =
     (if c = quote then Closed val (pos + 1)
      else if c = 10 \<or> c = 13 then Unterminated
      else if c \<noteq> 92 then scan_string quote (pos + 1) r (val @ [c])
      else case r of
             [] \<Rightarrow> Bad_escape (pos + 1)
           | d # r' \<Rightarrow>
               (case escape_value d of
                  Some u \<Rightarrow> scan_string quote (pos + 2) r' (val @ [u])
                | None \<Rightarrow>
                    if d = 117 \<or> d = 120 then
                      (let len = (if d = 117 then 4 else 2); hex = take len r'
                       in if length hex \<noteq> len \<or> \<not> list_all is_hex hex then Unterminated
                          else scan_string quote (pos + 2 + len) (drop len r') (val @ [parse_hex hex]))
                    else Bad_escape (pos + 1)))"
  by pat_completeness auto
termination
  by (relation "measure (\<lambda>(quote, pos, r, val). length r)") auto

declare scan_string.simps(2) [simp del]

section \<open>The lexer\<close>

definition match_name :: "jsstring \<Rightarrow> jsstring" where
  "match_name s =
     (case s of c # t \<Rightarrow> if is_letter c \<or> c = 95 then c # takeWhile is_word t else [] | [] \<Rightarrow> [])"

definition two_unit_symbols :: "jsstring list" where
  "two_unit_symbols = map js [''&&'', ''||'', ''=='', ''!='', ''<='', ''>='']"

definition one_unit_symbols :: "jsstring" where
  "one_unit_symbols = js ''+-*/%<>()!?:,''"

definition match_symbol :: "jsstring \<Rightarrow> jsstring" where
  "match_symbol s =
     (if take 2 s \<in> set two_unit_symbols then take 2 s
      else case s of c # _ \<Rightarrow> if c \<in> set one_unit_symbols then [c] else [] | [] \<Rightarrow> [])"

definition is_float_text :: "jsstring \<Rightarrow> bool" where
  "is_float_text t \<longleftrightarrow> list_ex (\<lambda>c. c = 46 \<or> c = 101 \<or> c = 69) t"

definition next_number :: "jsstring \<Rightarrow> nat \<Rightarrow> thrown + lexeme" where
  "next_number t i =
     (let v = js_Number t; int = \<not> is_float_text t
      in if \<not> is_finite v then throw Code_number t (Some i)
         else if int \<and> \<not> is_safe_integer v
           then throw Code_unsupported (js ''integer precision'') (Some i)
         else Inr \<lparr>kind = K_number, lex_text = t, lex_start = i, lex_end = i + length t,
                   lex_value = Some (NumberLit v), lex_integer = int\<rparr>)"

definition next_string :: "jsstring \<Rightarrow> nat \<Rightarrow> jsstring \<Rightarrow> thrown + lexeme" where
  "next_string src i rest =
     (case scan_string (hd rest) (i + 1) (tl rest) [] of
        Closed v j \<Rightarrow>
          Inr \<lparr>kind = K_string, lex_text = slice src i j, lex_start = i, lex_end = j,
               lex_value = Some (StringLit v), lex_integer = False\<rparr>
      | Bad_escape p \<Rightarrow> throw Code_unsupported (js ''string escape'') (Some p)
      | Unterminated \<Rightarrow> throw Code_syntax (js ''unterminated string'') (Some i))"

definition plain_lexeme :: "lexeme_kind \<Rightarrow> jsstring \<Rightarrow> nat \<Rightarrow> lexeme" where
  "plain_lexeme k t i = \<lparr>kind = k, lex_text = t, lex_start = i, lex_end = i + length t,
     lex_value = None, lex_integer = False\<rparr>"

text \<open>The lexeme that starts at index \<open>i\<close>, where no white space stands.\<close>

definition lexeme_at :: "jsstring \<Rightarrow> nat \<Rightarrow> thrown + lexeme" where
  "lexeme_at src i =
     (let rest = drop i src in
      if rest = [] then Inr (plain_lexeme K_end [] i)
      else case scan_decimal rest of
        Some (_, _, after) \<Rightarrow> next_number (take (length rest - length after) rest) i
      | None \<Rightarrow>
          if hd rest = 34 \<or> hd rest = 39 then next_string src i rest
          else if match_name rest \<noteq> [] then Inr (plain_lexeme K_name (match_name rest) i)
          else if match_symbol rest \<noteq> [] then Inr (plain_lexeme K_symbol (match_symbol rest) i)
          else throw Code_unsupported [hd rest] (Some i))"

definition skip_space :: "jsstring \<Rightarrow> nat \<Rightarrow> nat" where
  "skip_space src i = i + length (takeWhile is_space (drop i src))"

definition next_lexeme :: "jsstring \<Rightarrow> parser \<Rightarrow> thrown + lexeme \<times> parser" where
  "next_lexeme src p =
     (if 10000 < lexemes p + 1 then throw Code_limit (js ''expression tokens'') None
      else rbind (lexeme_at src (skip_space src (cursor p)))
             (\<lambda>l. Inr (l, p\<lparr>lexemes := lexemes p + 1, cursor := lex_end l\<rparr>)))"

definition take_lexeme :: "jsstring \<Rightarrow> parser \<Rightarrow> thrown + lexeme \<times> parser" where
  "take_lexeme src p =
     rbind (next_lexeme src p) (\<lambda>(l, p'). Inr (current p, p'\<lparr>current := l\<rparr>))"

definition is_text :: "parser \<Rightarrow> jsstring \<Rightarrow> bool" where
  "is_text p t \<longleftrightarrow> lex_text (current p) = t"

definition expect :: "jsstring \<Rightarrow> jsstring \<Rightarrow> parser \<Rightarrow> thrown + lexeme \<times> parser" where
  "expect src t p =
     (if \<not> is_text p t
      then throw Code_syntax (js ''expected '' @ t) (Some (lex_start (current p)))
      else take_lexeme src p)"

text \<open>
  The match of \<open>/^\s*v(\d+):/\<close>: the digits and the length of the whole match.
\<close>

definition match_version :: "jsstring \<Rightarrow> (jsstring \<times> nat) option" where
  "match_version src =
     (let sp = takeWhile is_space src; r = dropWhile is_space src in
      case r of
        [] \<Rightarrow> None
      | c # t \<Rightarrow>
          let ds = takeWhile is_digit t in
          if c = 118 \<and> ds \<noteq> [] \<and> starts_with (dropWhile is_digit t) (js '':'')
          then Some (ds, length sp + length ds + 2) else None)"

definition new_parser :: "jsstring \<Rightarrow> thrown + parser" where
  "new_parser src =
     (if 65536 < length src then throw Code_limit (js ''expression length'') None
      else let start = (\<lambda>i. \<lparr>cursor = i, lexemes = 0, depth = 0, current = plain_lexeme K_end [] 0\<rparr>);
               first = (\<lambda>i. rbind (next_lexeme src (start i)) (\<lambda>(l, p). Inr (p\<lparr>current := l\<rparr>)))
           in case match_version src of
                None \<Rightarrow> first 0
              | Some (ds, n) \<Rightarrow>
                  if ds \<noteq> js ''1'' then throw Code_unsupported (take n src) None else first n)"

end
