(* ===== verification/Parser.thy ===== *)
theory Parser
  imports Lexer
begin

text \<open>
  The syntactic half of the parser (\<open>billing-expression/parser.ts\<close>, class
  \<open>BillingParser\<close>: \<open>parse\<close>, \<open>expression\<close>, \<open>primary\<close>), a precedence
  climbing parser.  The loops of the two methods are the functions \<open>binary_loop\<close> and
  \<open>args_loop\<close>.
\<close>

section \<open>Precedence climbing\<close>

definition PRECEDENCE :: "(jsstring \<times> nat) list" where
  "PRECEDENCE = map (\<lambda>(t, n). (js t, n))
     [(''||'', 1), (''&&'', 2), (''=='', 3), (''!='', 3), (''<'', 4), (''<='', 4), (''>'', 4),
      (''>='', 4), (''+'', 5), (''-'', 5), (''*'', 6), (''/'', 6), (''%'', 6)]"

definition unary_operators :: "jsstring list" where
  "unary_operators = map js [''!'', ''+'', ''-'']"

fun with_span :: "nat \<Rightarrow> nat \<Rightarrow> node \<Rightarrow> node" where
  "with_span i j (Literal v b _ _) = Literal v b i j"
| "with_span i j (Variable x _ _) = Variable x i j"
| "with_span i j (Call f as _ _) = Call f as i j"
| "with_span i j (Unary op x _ _) = Unary op x i j"
| "with_span i j (Binary op l r _ _) = Binary op l r i j"
| "with_span i j (Conditional c y n _ _) = Conditional c y n i j"

abbreviation enter :: "parser \<Rightarrow> parser" where
  "enter p \<equiv> p\<lparr>depth := depth p + 1\<rparr>"

abbreviation leave :: "parser \<Rightarrow> parser" where
  "leave p \<equiv> p\<lparr>depth := depth p - 1\<rparr>"

text \<open>
  The branches of \<open>primary\<close> that need no further input: literals, keywords and variables.
\<close>

definition simple_primary :: "lexeme \<Rightarrow> node option" where
  "simple_primary t =
     (let i = lex_start t; j = lex_end t in
      case lex_value t of
        Some v \<Rightarrow> Some (Literal v (lex_integer t) i j)
      | None \<Rightarrow>
          if kind t \<noteq> K_name then None
          else if lex_text t = js ''nil'' then Some (Literal NilLit False i j)
          else if lex_text t = js ''true'' \<or> lex_text t = js ''false''
            then Some (Literal (BoolLit (lex_text t = js ''true'')) False i j)
          else None)"

function (sequential)
    expression :: "jsstring \<Rightarrow> nat \<Rightarrow> parser \<Rightarrow> thrown + node \<times> parser"
  and binary_loop :: "jsstring \<Rightarrow> nat \<Rightarrow> node \<Rightarrow> parser \<Rightarrow> thrown + node \<times> parser"
  and primary :: "jsstring \<Rightarrow> parser \<Rightarrow> thrown + node \<times> parser"
  and args_loop :: "jsstring \<Rightarrow> node list \<Rightarrow> parser \<Rightarrow> thrown + node list \<times> parser" where
  "expression src minimum p =
     (if 128 < depth p + 1 then throw Code_limit (js ''expression depth'') None
      else rbind (primary src (enter p)) (\<lambda>(l, p1).
           rbind (binary_loop src minimum l p1) (\<lambda>(left, p2).
           if minimum = 0 \<and> is_text p2 (js ''?'') then
             rbind (take_lexeme src p2) (\<lambda>(_, p3).
             rbind (expression src 0 p3) (\<lambda>(yes, p4).
             rbind (expect src (js '':'') p4) (\<lambda>(_, p5).
             rbind (expression src 0 p5) (\<lambda>(no, p6).
             Inr (Conditional left yes no (node_start left) (node_end no), leave p6)))))
           else Inr (left, leave p2))))"
| "binary_loop src minimum left p =
     (case map_of PRECEDENCE (lex_text (current p)) of
        None \<Rightarrow> Inr (left, p)
      | Some prec \<Rightarrow>
          if prec < minimum then Inr (left, p)
          else rbind (take_lexeme src p) (\<lambda>(t, p1).
               rbind (expression src (prec + 1) p1) (\<lambda>(right, p2).
               binary_loop src minimum
                 (Binary (lex_text t) left right (node_start left) (node_end right)) p2)))"
| "primary src p =
     rbind (take_lexeme src p) (\<lambda>(t, p1).
     case simple_primary t of
       Some n \<Rightarrow> Inr (n, p1)
     | None \<Rightarrow>
         if lex_text t = js ''('' then
           rbind (expression src 0 p1) (\<lambda>(n, p2).
           rbind (expect src (js '')'') p2) (\<lambda>(close, p3).
           Inr (with_span (lex_start t) (lex_end close) n, p3)))
         else if lex_text t \<in> set unary_operators then
           rbind (expression src 7 p1) (\<lambda>(n, p2).
           Inr (Unary (lex_text t) n (lex_start t) (node_end n), p2))
         else if kind t \<noteq> K_name then throw Code_syntax (lex_text t) (Some (lex_start t))
         else if \<not> is_text p1 (js ''('') then
           (if lex_text t \<notin> set BILLING_VARIABLES
            then throw Code_unsupported (lex_text t) (Some (lex_start t))
            else Inr (Variable (lex_text t) (lex_start t) (lex_end t), p1))
         else (case map_of BILLING_FUNCTIONS (lex_text t) of
             None \<Rightarrow> throw Code_unsupported (lex_text t) (Some (lex_start t))
           | Some arity \<Rightarrow>
               rbind (take_lexeme src p1) (\<lambda>(_, p2).
               rbind (args_loop src [] p2) (\<lambda>(as, p3).
               rbind (expect src (js '')'') p3) (\<lambda>(close, p4).
               if length as \<noteq> arity then throw Code_type (lex_text t) (Some (lex_start t))
               else Inr (Call (lex_text t) as (lex_start t) (lex_end close), p4))))))"
| "args_loop src as p =
     (if is_text p (js '')'') then Inr (as, p)
      else rbind (expression src 0 p) (\<lambda>(a, p1).
           if \<not> is_text p1 (js '','') then Inr (as @ [a], p1)
           else rbind (take_lexeme src p1) (\<lambda>(_, p2). args_loop src (as @ [a]) p2)))"
  by pat_completeness auto

section \<open>The parser terminates\<close>

text \<open>
  Every successful call reads at least one lexeme, and no state counts more than 10000 of
  them, so the number of lexemes that may still be read decreases.
\<close>

lemma take_lexeme_count:
  "take_lexeme src p = Inr (t, p') \<Longrightarrow>
     t = current p \<and> lexemes p' = lexemes p + 1 \<and> lexemes p' \<le> 10000 \<and> depth p' = depth p"
  by (auto simp: take_lexeme_def next_lexeme_def rbind_simps throw_def split: if_splits)

lemma expect_take: "expect src t p = Inr x \<Longrightarrow> is_text p t \<and> take_lexeme src p = Inr x"
  by (auto simp: expect_def throw_def split: if_splits)

lemma throw_not_Inr [simp]: "throw c d q \<noteq> Inr x" "Inr x \<noteq> throw c d q"
  by (simp_all add: throw_def)

lemma rbind_pairE:
  assumes "rbind m f = Inr y"
  obtains a b where "m = Inr (a, b)" and "f (a, b) = Inr y"
  using assms by (cases m) auto

lemma parser_progress:
  "expression_binary_loop_primary_args_loop_dom (Inl (Inl (src, minimum, p))) \<Longrightarrow>
     (\<And>n p'. expression src minimum p = Inr (n, p') \<Longrightarrow> lexemes p < lexemes p')"
  "expression_binary_loop_primary_args_loop_dom (Inl (Inr (src, minimum, left, p))) \<Longrightarrow>
     (\<And>n p'. binary_loop src minimum left p = Inr (n, p') \<Longrightarrow> lexemes p \<le> lexemes p')"
  "expression_binary_loop_primary_args_loop_dom (Inr (Inl (src, p))) \<Longrightarrow>
     (\<And>n p'. primary src p = Inr (n, p') \<Longrightarrow> lexemes p < lexemes p')"
  "expression_binary_loop_primary_args_loop_dom (Inr (Inr (src, as, p))) \<Longrightarrow>
     (\<And>ns p'. args_loop src as p = Inr (ns, p') \<Longrightarrow> lexemes p \<le> lexemes p')"
proof (induction src minimum p and src minimum left p and src p and src as p
    rule: expression_binary_loop_primary_args_loop.pinduct)
  case (1 src minimum p)
  from "1.hyps" "1.prems" obtain l p1 left p2 where d: "\<not> 128 < depth p + 1"
    and pr: "primary src (enter p) = Inr (l, p1)" and bl: "binary_loop src minimum l p1 = Inr (left, p2)"
    and res: "(if minimum = 0 \<and> is_text p2 (js ''?'') then
             rbind (take_lexeme src p2) (\<lambda>(_, p3).
             rbind (expression src 0 p3) (\<lambda>(yes, p4).
             rbind (expect src (js '':'') p4) (\<lambda>(_, p5).
             rbind (expression src 0 p5) (\<lambda>(no, p6).
             Inr (Conditional left yes no (node_start left) (node_end no), leave p6)))))
           else Inr (left, leave p2)) = Inr (n, p')"
    by (auto simp: expression.psimps split: if_splits elim!: rbind_pairE)
  have "lexemes p < lexemes p2"
    using "1.IH"(1) [OF d pr] "1.IH"(2) [OF d pr refl bl] by simp
  moreover have "lexemes p2 \<le> lexemes p'"
  proof (cases "minimum = 0 \<and> is_text p2 (js ''?'')")
    case True
    with res obtain t p3 yes p4 c p5 no p6 where tk: "take_lexeme src p2 = Inr (t, p3)"
      and e1: "expression src 0 p3 = Inr (yes, p4)" and ex: "expect src (js '':'') p4 = Inr (c, p5)"
      and e2: "expression src 0 p5 = Inr (no, p6)" and p': "p' = leave p6"
      by (auto split: if_splits elim!: rbind_pairE)
    show ?thesis
      using "1.IH"(3) [OF d pr refl bl refl True tk refl e1]
        "1.IH"(4) [OF d pr refl bl refl True tk refl e1 refl ex refl e2]
        take_lexeme_count [OF tk] take_lexeme_count [OF conjunct2 [OF expect_take [OF ex]]] p' by simp
  next
    case False
    with res show ?thesis by auto
  qed
  ultimately show ?case by simp
next
  case (2 src minimum left p)
  show ?case
  proof (cases "\<exists>q. map_of PRECEDENCE (lex_text (current p)) = Some q \<and> \<not> q < minimum")
    case True
    then obtain q where q: "map_of PRECEDENCE (lex_text (current p)) = Some q" "\<not> q < minimum" by blast
    from "2.hyps" "2.prems" q obtain t p1 right p2 where tk: "take_lexeme src p = Inr (t, p1)"
      and e: "expression src (q + 1) p1 = Inr (right, p2)"
      and bl: "binary_loop src minimum (Binary (lex_text t) left right (node_start left) (node_end right)) p2
        = Inr (n, p')"
      by (auto simp: binary_loop.psimps elim!: rbind_pairE)
    show ?thesis
      using "2.IH"(1) [OF q tk refl e] "2.IH"(2) [OF q tk refl e refl bl] take_lexeme_count [OF tk] by simp
  next
    case False
    with "2.hyps" "2.prems" show ?thesis by (auto simp: binary_loop.psimps split: option.splits if_splits)
  qed
next
  case (3 src p)
  from "3.hyps" "3.prems" obtain t p1 where tk: "take_lexeme src p = Inr (t, p1)"
    by (auto simp: primary.psimps elim!: rbind_pairE)
  note res = "3.prems" [unfolded primary.psimps [OF "3.hyps"], unfolded tk rbind_Inr prod.case]
  note c = take_lexeme_count [OF tk]
  show ?case
  proof (cases "simple_primary t")
    case (Some m)
    with res c show ?thesis by simp
  next
    case None
    note r = res [unfolded None option.case]
    consider (paren) "lex_text t = js ''(''"
      | (unary) "lex_text t \<noteq> js ''(''" "lex_text t \<in> set unary_operators"
      | (var) "lex_text t \<noteq> js ''(''" "lex_text t \<notin> set unary_operators" "kind t = K_name" "\<not> is_text p1 (js ''('')"
      | (call) "lex_text t \<noteq> js ''(''" "lex_text t \<notin> set unary_operators" "kind t = K_name" "is_text p1 (js ''('')"
      | (bad) "lex_text t \<noteq> js ''(''" "lex_text t \<notin> set unary_operators" "kind t \<noteq> K_name" by blast
    then show ?thesis
    proof cases
      case paren
      with r obtain m p2 cl where e: "expression src 0 p1 = Inr (m, p2)"
        and ex: "expect src (js '')'') p2 = Inr (cl, p')" by (auto elim!: rbind_pairE)
      show ?thesis using "3.IH"(1) [OF tk refl None paren e] c
          take_lexeme_count [OF conjunct2 [OF expect_take [OF ex]]] by simp
    next
      case unary
      with r obtain m where e: "expression src 7 p1 = Inr (m, p')" by (auto elim!: rbind_pairE)
      show ?thesis using "3.IH"(2) [OF tk refl None unary e] c by simp
    next
      case var
      with r c show ?thesis by (auto split: if_splits)
    next
      case call
      obtain ar where ar: "map_of BILLING_FUNCTIONS (lex_text t) = Some ar"
        using r call by (cases "map_of BILLING_FUNCTIONS (lex_text t)") auto
      with r call obtain o2 p2 as p3 cl where tk2: "take_lexeme src p1 = Inr (o2, p2)"
        and al: "args_loop src [] p2 = Inr (as, p3)" and ex: "expect src (js '')'') p3 = Inr (cl, p')"
        by (auto split: if_splits elim!: rbind_pairE)
      show ?thesis using "3.IH"(3) [OF tk refl None call(1,2) _ _ ar tk2 refl al] call(3,4) c
          take_lexeme_count [OF tk2] take_lexeme_count [OF conjunct2 [OF expect_take [OF ex]]] by simp
    next
      case bad
      with r show ?thesis by simp
    qed
  qed
next
  case (4 src as p)
  show ?case
  proof (cases "is_text p (js '')'')")
    case True
    with 4 show ?thesis by (simp add: args_loop.psimps)
  next
    case False
    with "4.hyps" "4.prems" obtain a p1 where e: "expression src 0 p = Inr (a, p1)"
      by (auto simp: args_loop.psimps elim!: rbind_pairE)
    note r = "4.prems" [unfolded args_loop.psimps [OF "4.hyps"], unfolded e rbind_Inr prod.case]
    note c = "4.IH"(1) [OF False e]
    show ?thesis
    proof (cases "is_text p1 (js '','')")
      case True
      with r False obtain cm p2 where tk: "take_lexeme src p1 = Inr (cm, p2)"
        and al: "args_loop src (as @ [a]) p2 = Inr (ns, p')" by (auto elim!: rbind_pairE)
      from True have "\<not> \<not> is_text p1 (js '','')" by simp
      from "4.IH"(2) [OF False e refl this tk refl al] c take_lexeme_count [OF tk]
      show ?thesis by simp
    next
      case F2: False
      with r False c show ?thesis by auto
    qed
  qed
qed

termination expression
proof (relation "measures
    [\<lambda>x. case x of Inl (Inl (src, m, p)) \<Rightarrow> 10001 - lexemes p | Inl (Inr (src, m, l, p)) \<Rightarrow> 10001 - lexemes p
       | Inr (Inl (src, p)) \<Rightarrow> 10001 - lexemes p | Inr (Inr (src, as, p)) \<Rightarrow> 10001 - lexemes p,
     \<lambda>x. case x of Inl (Inl _) \<Rightarrow> 1 | Inl (Inr _) \<Rightarrow> 0 | Inr (Inl _) \<Rightarrow> 0 | Inr (Inr _) \<Rightarrow> 2]", goal_cases)
  case 1
  show ?case by simp
qed (auto dest!: take_lexeme_count expect_take parser_progress)

declare expression.simps [simp del] binary_loop.simps [simp del]
  primary.simps [simp del] args_loop.simps [simp del]

text \<open>The method \<open>parse\<close> on a new parser.\<close>

definition parse :: "jsstring \<Rightarrow> thrown + node" where
  "parse src =
     rbind (new_parser src) (\<lambda>p.
     rbind (expression src 0 p) (\<lambda>(n, p').
     if kind (current p') \<noteq> K_end
     then throw Code_unsupported (lex_text (current p')) (Some (lex_start (current p')))
     else Inr n))"

end
