(* ===== verification/Grammar.thy ===== *)
theory Grammar imports Parser begin

text \<open>
  The grammar of billing expressions, stated without the parser: \<open>level k\<close> derives the
  expressions whose binary operators bind at least as tightly as \<open>k\<close>, with one level per
  precedence and left-associative operators, level 0 adding the conditional.  The parser is
  proved sound for it: whatever tree it returns is derived by the grammar from exactly the
  lexemes it consumed.
\<close>

section \<open>The lexemes a parser state consumed\<close>

fun taken :: "jsstring \<Rightarrow> parser \<Rightarrow> lexeme list \<Rightarrow> parser \<Rightarrow> bool" where
  "taken src p [] p' \<longleftrightarrow> p'\<lparr>depth := depth p\<rparr> = p"
| "taken src p (t # ts) p' \<longleftrightarrow> (\<exists>p1. take_lexeme src p = Inr (t, p1) \<and> taken src p1 ts p')"

lemma take_lexeme_depth:
  "take_lexeme src (p\<lparr>depth := d\<rparr>) =
     rbind (take_lexeme src p) (\<lambda>(t, p'). Inr (t, p'\<lparr>depth := d\<rparr>))"
  by (auto simp: take_lexeme_def next_lexeme_def throw_def rbind_def split: sum.splits)

lemma taken_depth_start: "taken src (p\<lparr>depth := d\<rparr>) ts p' = taken src p ts p'"
proof (induction ts arbitrary: p)
  case Nil
  have "p'\<lparr>depth := d\<rparr> = p\<lparr>depth := d\<rparr> \<longleftrightarrow> p'\<lparr>depth := depth p\<rparr> = p" for p' :: parser
    by (cases p; cases p') auto
  then show ?case by simp
next
  case (Cons t ts)
  show ?case
  proof
    assume "taken src (p\<lparr>depth := d\<rparr>) (t # ts) p'"
    then show "taken src p (t # ts) p'"
      using Cons by (auto simp: take_lexeme_depth elim!: rbind_pairE)
  next
    assume "taken src p (t # ts) p'"
    then obtain p1 where "take_lexeme src p = Inr (t, p1)" "taken src p1 ts p'" by auto
    then show "taken src (p\<lparr>depth := d\<rparr>) (t # ts) p'"
      using Cons by (auto simp: take_lexeme_depth)
  qed
qed

lemma taken_depth_end: "taken src p ts (p'\<lparr>depth := d\<rparr>) = taken src p ts p'"
  by (induction ts arbitrary: p) auto

lemma taken_append: "taken src p ts q \<Longrightarrow> taken src q us r \<Longrightarrow> taken src p (ts @ us) r"
proof (induction ts arbitrary: p)
  case Nil
  then have "p = q\<lparr>depth := depth p\<rparr>" by simp
  with Nil show ?case using taken_depth_start [where p = q and d = "depth p"] by simp
qed auto

lemma taken_single: "take_lexeme src p = Inr (t, p') \<Longrightarrow> taken src p [t] p'"
  by simp

lemma taken_refl [simp]: "taken src p [] p"
  by simp

section \<open>The grammar\<close>

inductive level :: "nat \<Rightarrow> lexeme list \<Rightarrow> node \<Rightarrow> bool"
  and prim :: "lexeme list \<Rightarrow> node \<Rightarrow> bool"
  and arglist :: "lexeme list \<Rightarrow> node list \<Rightarrow> bool" where
  level_prim: "prim ts n \<Longrightarrow> level k ts n"
| level_binary: "level q ts l \<Longrightarrow> map_of PRECEDENCE (lex_text op) = Some q \<Longrightarrow>
     level (q + 1) us r \<Longrightarrow> k \<le> q \<Longrightarrow>
     level k (ts @ op # us) (Binary (lex_text op) l r (node_start l) (node_end r))"
| level_conditional: "level 1 ts c \<Longrightarrow> lex_text qm = js ''?'' \<Longrightarrow> level 0 us y \<Longrightarrow>
     lex_text co = js '':'' \<Longrightarrow> level 0 vs n \<Longrightarrow>
     level 0 (ts @ qm # us @ co # vs) (Conditional c y n (node_start c) (node_end n))"
| prim_simple: "simple_primary t = Some n \<Longrightarrow> prim [t] n"
| prim_paren: "lex_text op = js ''('' \<Longrightarrow> level 0 ts n \<Longrightarrow> lex_text cl = js '')'' \<Longrightarrow>
     prim (op # ts @ [cl]) (with_span (lex_start op) (lex_end cl) n)"
| prim_unary: "lex_text op \<in> set unary_operators \<Longrightarrow> level 7 ts n \<Longrightarrow>
     prim (op # ts) (Unary (lex_text op) n (lex_start op) (node_end n))"
| prim_variable: "kind t = K_name \<Longrightarrow> lex_text t \<in> set BILLING_VARIABLES \<Longrightarrow>
     prim [t] (Variable (lex_text t) (lex_start t) (lex_end t))"
| prim_call: "kind f = K_name \<Longrightarrow> map_of BILLING_FUNCTIONS (lex_text f) = Some (length as) \<Longrightarrow>
     lex_text op = js ''('' \<Longrightarrow> arglist ts as \<Longrightarrow> lex_text cl = js '')'' \<Longrightarrow>
     prim (f # op # ts @ [cl]) (Call (lex_text f) as (lex_start f) (lex_end cl))"
| args_none: "arglist [] []"
| args_last: "level 0 ts a \<Longrightarrow> arglist ts [a]"
| args_more: "level 0 ts a \<Longrightarrow> lex_text co = js '','' \<Longrightarrow> arglist us as \<Longrightarrow>
     arglist (ts @ co # us) (a # as)"

lemma level_mono: "level k ts n \<Longrightarrow> j \<le> k \<Longrightarrow> level j ts n"
  by (erule level.cases) (auto intro: level_prim_arglist.intros)

definition operator_below :: "nat \<Rightarrow> parser \<Rightarrow> bool" where
  "operator_below k p \<longleftrightarrow> (\<forall>q. map_of PRECEDENCE (lex_text (current p)) = Some q \<longrightarrow> q < k)"

text \<open>
  A left operand that the loop may still extend: it can stand to the left of the operator
  that is current, and as a result of the loop.
\<close>

definition left_operand :: "nat \<Rightarrow> lexeme list \<Rightarrow> node \<Rightarrow> parser \<Rightarrow> bool" where
  "left_operand k ts n p \<longleftrightarrow>
     level (max k 1) ts n \<and> (\<forall>q. map_of PRECEDENCE (lex_text (current p)) = Some q \<longrightarrow> level q ts n)"

lemma precedence_pos: "map_of PRECEDENCE t = Some q \<Longrightarrow> 1 \<le> q"
  by (drule map_of_SomeD) (auto simp: PRECEDENCE_def)

lemma parser_sound:
  "expression src minimum p = Inr (n, p') \<Longrightarrow>
     \<exists>ts. taken src p ts p' \<and> level minimum ts n \<and> (0 < minimum \<longrightarrow> operator_below minimum p')"
  "binary_loop src minimum left p = Inr (n, p') \<Longrightarrow>
     (\<And>ts. left_operand minimum ts left p \<Longrightarrow>
       \<exists>us. taken src p us p' \<and> level (max minimum 1) (ts @ us) n \<and> operator_below (max minimum 1) p')"
  "primary src p = Inr (n, p') \<Longrightarrow> \<exists>ts. taken src p ts p' \<and> prim ts n"
  "args_loop src as p = Inr (ns, p') \<Longrightarrow>
     \<exists>ts bs. taken src p ts p' \<and> ns = as @ bs \<and> arglist ts bs"
proof (induction src minimum p and src minimum left p and src p and src as p
    arbitrary: n p' and n p' and n p' and ns p'
    rule: expression_binary_loop_primary_args_loop.induct)
  case (1 src minimum p)
  from "1.prems" obtain l p1 left p2 where d: "\<not> 128 < depth p + 1"
    and pr: "primary src (enter p) = Inr (l, p1)" and bl: "binary_loop src minimum l p1 = Inr (left, p2)"
    and res: "(if minimum = 0 \<and> is_text p2 (js ''?'') then
             rbind (take_lexeme src p2) (\<lambda>(_, p3).
             rbind (expression src 0 p3) (\<lambda>(yes, p4).
             rbind (expect src (js '':'') p4) (\<lambda>(_, p5).
             rbind (expression src 0 p5) (\<lambda>(no, p6).
             Inr (Conditional left yes no (node_start left) (node_end no), leave p6)))))
           else Inr (left, leave p2)) = Inr (n, p')"
    by (subst (asm) expression.simps) (auto split: if_splits elim!: rbind_pairE)
  obtain ts where ts: "taken src p ts p1" "prim ts l"
    using "1.IH"(1) [OF d pr] by (auto simp: taken_depth_start)
  then have "left_operand minimum ts l p1"
    by (auto simp: left_operand_def intro: level_prim)
  then obtain us where us: "taken src p1 us p2" "level (max minimum 1) (ts @ us) left"
    "operator_below (max minimum 1) p2"
    using "1.IH"(2) [OF d pr refl bl] by blast
  note tk2 = taken_append [OF ts(1) us(1)]
  show ?case
  proof (cases "minimum = 0 \<and> is_text p2 (js ''?'')")
    case True
    with res obtain t p3 yes p4 c p5 no p6 where tk: "take_lexeme src p2 = Inr (t, p3)"
      and e1: "expression src 0 p3 = Inr (yes, p4)" and ex: "expect src (js '':'') p4 = Inr (c, p5)"
      and e2: "expression src 0 p5 = Inr (no, p6)" and p': "p' = leave p6"
      and n: "n = Conditional left yes no (node_start left) (node_end no)"
      by (auto split: if_splits elim!: rbind_pairE)
    obtain vs where vs: "taken src p3 vs p4" "level 0 vs yes"
      using "1.IH"(3) [OF d pr refl bl refl True tk refl e1] by auto
    obtain ws where ws: "taken src p5 ws p6" "level 0 ws no"
      using "1.IH"(4) [OF d pr refl bl refl True tk refl e1 refl ex refl e2] by auto
    note exd = expect_take [OF ex]
    have "taken src p ((ts @ us) @ [t] @ vs @ [c] @ ws) p6"
      using tk2 taken_single [OF tk] vs(1) taken_single [OF conjunct2 [OF exd]] ws(1)
      by (blast intro: taken_append)
    moreover have "lex_text t = js ''?''" "lex_text c = js '':''"
      using True exd take_lexeme_count [OF tk] take_lexeme_count [OF conjunct2 [OF exd]]
      by (auto simp: is_text_def)
    ultimately show ?thesis using True us(2) vs(2) ws(2)
      by (auto simp: n p' taken_depth_end intro!: exI [of _ "(ts @ us) @ t # vs @ c # ws"]
          level_conditional [of "ts @ us", simplified])
  next
    case False
    with res have n: "n = left" "p' = leave p2" by auto
    have "level minimum (ts @ us) left" using us(2) by (rule level_mono) simp
    moreover have "0 < minimum \<longrightarrow> operator_below minimum (leave p2)"
      using us(3) by (auto simp: operator_below_def max_def split: if_splits)
    ultimately show ?thesis using tk2 by (auto simp: n taken_depth_end)
  qed
next
  case (2 src minimum left p)
  show ?case
  proof (cases "\<exists>q. map_of PRECEDENCE (lex_text (current p)) = Some q \<and> \<not> q < minimum")
    case True
    then obtain q where q: "map_of PRECEDENCE (lex_text (current p)) = Some q" "\<not> q < minimum" by blast
    from "2.prems"(1) q obtain t p1 right p2 where tk: "take_lexeme src p = Inr (t, p1)"
      and e: "expression src (q + 1) p1 = Inr (right, p2)"
      and bl: "binary_loop src minimum (Binary (lex_text t) left right (node_start left) (node_end right)) p2
        = Inr (n, p')"
      by (subst (asm) binary_loop.simps) (auto elim!: rbind_pairE)
    have t: "t = current p" using take_lexeme_count [OF tk] by simp
    obtain us where us: "taken src p1 us p2" "level (q + 1) us right" "operator_below (q + 1) p2"
      using "2.IH"(1) [OF q tk refl e] by auto
    let ?b = "Binary (lex_text t) left right (node_start left) (node_end right)"
    have lq: "level q ts left" using "2.prems"(2) q by (simp add: left_operand_def)
    have b: "level k (ts @ t # us) ?b" if "k \<le> q" for k
      using level_binary [OF lq _ us(2)] q t that by blast
    have "left_operand minimum (ts @ t # us) ?b p2"
      using b us(3) q precedence_pos [OF q(1)] by (auto simp: left_operand_def operator_below_def)
    then obtain vs where vs: "taken src p2 vs p'" "level (max minimum 1) ((ts @ t # us) @ vs) n"
      "operator_below (max minimum 1) p'"
      using "2.IH"(2) [OF q tk refl e refl bl] by blast
    have "taken src p ([t] @ us @ vs) p'"
      using taken_single [OF tk] us(1) vs(1) by (blast intro: taken_append)
    with vs show ?thesis by (intro exI [of _ "t # us @ vs"]) simp
  next
    case False
    with "2.prems"(1) have n: "n = left" "p' = p"
      by (subst (asm) binary_loop.simps; auto split: option.splits if_splits)+
    have "operator_below (max minimum 1) p" using False by (auto simp: operator_below_def)
    with "2.prems"(2) show ?thesis by (intro exI [of _ "[]"]) (auto simp: n left_operand_def)
  qed
next
  case (3 src p)
  from "3.prems" obtain t p1 where tk: "take_lexeme src p = Inr (t, p1)"
    by (subst (asm) primary.simps) (auto elim!: rbind_pairE)
  note res = "3.prems" [unfolded primary.simps [of src p], unfolded tk rbind_Inr prod.case]
  note tk1 = taken_single [OF tk]
  show ?case
  proof (cases "simple_primary t")
    case (Some m)
    with res tk1 show ?thesis by (intro exI [of _ "[t]"]) (simp add: prim_simple del: taken.simps)
  next
    case None
    note r = res [unfolded None option.case]
    consider (paren) "lex_text t = js ''(''"
      | (unary) "lex_text t \<noteq> js ''(''" "lex_text t \<in> set unary_operators"
      | (var) "lex_text t \<noteq> js ''(''" "lex_text t \<notin> set unary_operators" "kind t = K_name" "\<not> is_text p1 (js ''('')"
      | (call) "lex_text t \<noteq> js ''(''" "lex_text t \<notin> set unary_operators" "kind t = K_name" "is_text p1 (js ''('')"
      | (bad) "lex_text t \<noteq> js ''(''" "lex_text t \<notin> set unary_operators" "kind t \<noteq> K_name" by blast
    then show ?thesis
    proof cases
      case paren
      with r obtain m p2 cl where e: "expression src 0 p1 = Inr (m, p2)"
        and ex: "expect src (js '')'') p2 = Inr (cl, p')"
        and n: "n = with_span (lex_start t) (lex_end cl) m" by (auto elim!: rbind_pairE)
      obtain ts where ts: "taken src p1 ts p2" "level 0 ts m"
        using "3.IH"(1) [OF tk refl None paren e] by auto
      note exd = expect_take [OF ex]
      have "taken src p ([t] @ ts @ [cl]) p'"
        using tk1 ts(1) taken_single [OF conjunct2 [OF exd]] by (blast intro: taken_append)
      moreover have "lex_text cl = js '')''"
        using exd take_lexeme_count [OF conjunct2 [OF exd]] by (auto simp: is_text_def)
      ultimately show ?thesis using paren ts(2) n
        by (intro exI [of _ "t # ts @ [cl]"]) (auto intro: prim_paren)
    next
      case unary
      with r obtain m where e: "expression src 7 p1 = Inr (m, p')"
        and n: "n = Unary (lex_text t) m (lex_start t) (node_end m)" by (auto elim!: rbind_pairE)
      obtain ts where ts: "taken src p1 ts p'" "level 7 ts m"
        using "3.IH"(2) [OF tk refl None unary e] by auto
      have "taken src p ([t] @ ts) p'" using tk1 ts(1) by (rule taken_append)
      then show ?thesis using unary ts(2) n by (intro exI [of _ "t # ts"]) (auto intro: prim_unary)
    next
      case var
      with r tk1 show ?thesis by (auto split: if_splits intro!: exI [of _ "[t]"] prim_variable)
    next
      case call
      obtain ar where ar: "map_of BILLING_FUNCTIONS (lex_text t) = Some ar"
        using r call by (cases "map_of BILLING_FUNCTIONS (lex_text t)") auto
      with r call obtain o2 p2 as p3 cl where tk2: "take_lexeme src p1 = Inr (o2, p2)"
        and al: "args_loop src [] p2 = Inr (as, p3)" and ex: "expect src (js '')'') p3 = Inr (cl, p')"
        and len: "length as = ar" and n: "n = Call (lex_text t) as (lex_start t) (lex_end cl)"
        by (auto split: if_splits elim!: rbind_pairE)
      obtain ts where ts: "taken src p2 ts p3" "arglist ts as"
        using "3.IH"(3) [OF tk refl None call(1,2) _ _ ar tk2 refl al] call(3,4) by auto
      note exd = expect_take [OF ex]
      have "taken src p ([t] @ [o2] @ ts @ [cl]) p'"
        using tk1 taken_single [OF tk2] ts(1) taken_single [OF conjunct2 [OF exd]]
        by (blast intro: taken_append)
      moreover have "lex_text cl = js '')''" "lex_text o2 = js ''(''"
        using exd call(4) take_lexeme_count [OF tk2] take_lexeme_count [OF conjunct2 [OF exd]]
        by (auto simp: is_text_def)
      ultimately show ?thesis using call(3) ar len ts(2) n
        by (intro exI [of _ "t # o2 # ts @ [cl]"]) (auto intro: prim_call)
    next
      case bad
      with r show ?thesis by simp
    qed
  qed
next
  case (4 src as p)
  show ?case
  proof (cases "is_text p (js '')'')")
    case True
    with "4.prems" have "ns = as" "p' = p" by (subst (asm) args_loop.simps; simp)+
    then show ?thesis by (intro exI [of _ "[]"]) (auto intro: args_none)
  next
    case False
    with "4.prems" obtain a p1 where e: "expression src 0 p = Inr (a, p1)"
      by (subst (asm) args_loop.simps) (auto elim!: rbind_pairE)
    note r = "4.prems" [unfolded args_loop.simps [of src as p], unfolded e rbind_Inr prod.case]
    obtain ts where ts: "taken src p ts p1" "level 0 ts a" using "4.IH"(1) [OF False e] by auto
    show ?thesis
    proof (cases "is_text p1 (js '','')")
      case True
      with r False obtain cm p2 where tk: "take_lexeme src p1 = Inr (cm, p2)"
        and al: "args_loop src (as @ [a]) p2 = Inr (ns, p')" by (auto elim!: rbind_pairE)
      from True have "\<not> \<not> is_text p1 (js '','')" by simp
      from "4.IH"(2) [OF False e refl this tk refl al] obtain us bs
        where us: "taken src p2 us p'" "ns = (as @ [a]) @ bs" "arglist us bs" by auto
      have "taken src p (ts @ [cm] @ us) p'"
        using ts(1) taken_single [OF tk] us(1) by (blast intro: taken_append)
      moreover have "lex_text cm = js '',''"
        using True take_lexeme_count [OF tk] by (auto simp: is_text_def)
      ultimately show ?thesis using ts(2) us(2,3)
        by (intro exI [of _ "ts @ cm # us"] exI [of _ "a # bs"]) (auto intro: args_more)
    next
      case F2: False
      with r False have "ns = as @ [a]" "p' = p1" by auto
      with ts show ?thesis by (intro exI [of _ ts] exI [of _ "[a]"]) (auto intro: args_last)
    qed
  qed
qed

end
