(* ===== verification/Spans.thy ===== *)
theory Spans imports Grammar begin

text \<open>
  What the grammar gives for the trees the parser returns: every node is well formed (known
  operators, variables and functions with the right number of arguments; integer literals
  that binary64 represents exactly), the spans of the children lie in order inside the span
  of their node, and so no two nodes of a tree have the same span.  The engine compares
  nodes by identity; the last fact is why equality of node values is the same relation on
  the nodes of one tree.
\<close>

section \<open>Lexemes lie in order\<close>

definition lexeme_ok :: "jsstring \<Rightarrow> lexeme \<Rightarrow> bool" where
  "lexeme_ok src t \<longleftrightarrow>
     lex_start t \<le> lex_end t \<and> lex_end t \<le> length src \<and>
     (lex_start t = lex_end t \<longrightarrow> lex_text t = [] \<and> lex_value t = None) \<and>
     (case lex_value t of
        Some (NumberLit v) \<Rightarrow> valid_number v \<and> is_finite v \<and> \<not> is_negative v \<and> (lex_integer t \<longrightarrow> is_safe_integer v)
      | Some (StringLit s) \<Rightarrow> \<not> lex_integer t
      | Some _ \<Rightarrow> False
      | None \<Rightarrow> \<not> lex_integer t)"

lemma scan_exponent_le: "length (snd (scan_exponent r)) \<le> length r"
proof (cases r)
  case (Cons c t)
  have "length (dropWhile is_digit (case t of d # u \<Rightarrow> if d = 43 \<or> d = 45 then u else t | [] \<Rightarrow> t)) \<le> length t"
    using length_dropWhile_le [of is_digit] by (cases t) (auto intro: le_SucI)
  with Cons show ?thesis by (auto simp: scan_exponent_def Let_def intro: le_SucI)
qed (simp add: scan_exponent_def)

lemma dropWhile_shorter: "takeWhile P xs \<noteq> [] \<Longrightarrow> length (dropWhile P xs) < length xs"
  by (metis append_self_conv2 takeWhile_dropWhile_id length_append less_add_same_cancel2 length_greater_0_conv)

lemma scan_decimal_shorter: "scan_decimal s = Some (d, x, r) \<Longrightarrow> length r < length s"
proof -
  assume a: "scan_decimal s = Some (d, x, r)"
  let ?ip = "takeWhile is_digit s" and ?r = "dropWhile is_digit s"
  show ?thesis
  proof (cases "\<exists>t. ?r = 46 # t")
    case True
    then obtain t where t: "?r = 46 # t" by blast
    from a t have "r = snd (scan_exponent (dropWhile is_digit t))"
      by (auto simp: scan_decimal_def Let_def split: prod.splits if_splits)
    then have "length r \<le> length t"
      using scan_exponent_le [of "dropWhile is_digit t"] length_dropWhile_le [of is_digit t] by simp
    with t length_dropWhile_le [of is_digit s] show ?thesis by simp
  next
    case False
    then have nd: "(case ?r of c # _ \<Rightarrow> c = 46 | [] \<Rightarrow> False) = False" by (auto split: list.splits)
    from a nd have "?ip \<noteq> []" "r = snd (scan_exponent ?r)"
      unfolding scan_decimal_def Let_def nd by (auto split: prod.splits if_splits)
    then show ?thesis using scan_exponent_le [of ?r] dropWhile_shorter [of is_digit s] by simp
  qed
qed

lemma scan_string_end: "scan_string q i r v = Closed w j \<Longrightarrow> i < j \<and> j \<le> i + length r"
proof (induction q i r v rule: scan_string.induct)
  case (2 quote pos c r val)
  from "2.prems" consider "c = quote" "j = pos + 1"
    | "c \<noteq> quote" "c \<noteq> 10 \<and> c \<noteq> 13" "c \<noteq> 92" "scan_string quote (pos + 1) r (val @ [c]) = Closed w j"
    | d r' u where "c \<noteq> quote" "c \<noteq> 10 \<and> c \<noteq> 13" "c = 92" "r = d # r'" "escape_value d = Some u"
        "scan_string quote (pos + 2) r' (val @ [u]) = Closed w j"
    | d r' len where "c \<noteq> quote" "c \<noteq> 10 \<and> c \<noteq> 13" "c = 92" "r = d # r'" "escape_value d = None"
        "d = 117 \<or> d = 120" "len = (if d = 117 then 4 else 2)" "length (take len r') = len"
        "list_all is_hex (take len r')"
        "scan_string quote (pos + 2 + len) (drop len r') (val @ [parse_hex (take len r')]) = Closed w j"
    by (subst (asm) scan_string.simps) (auto simp: Let_def split: if_splits list.splits option.splits)
  then show ?case
  proof cases
    case 1
    then show ?thesis by simp
  next
    case 2
    with "2.IH"(1) show ?thesis by auto
  next
    case (3 d r' u)
    then show ?thesis using "2.IH"(3) [OF 3(1) _ _ 3(4,5,6)] by simp
  next
    case (4 d r' len)
    then show ?thesis using "2.IH"(2) [OF 4(1) _ _ 4(4,5,6,7) refl _ 4(10)] by auto
  qed
qed simp

lemma match_name_length: "length (match_name s) \<le> length s"
  using length_takeWhile_le [of is_word "tl s"] by (auto simp: match_name_def split: list.splits)

lemma match_symbol_length: "length (match_symbol s) \<le> length s"
  by (auto simp: match_symbol_def split: list.splits)

lemma round_ratio_not_negative: "\<not> is_negative (round_ratio False p q)"
  by (simp add: round_ratio_def Let_def pack_def)

lemma js_Number_sign:
  assumes "u \<noteq> []" "is_digit (hd u) \<or> hd u = 46"
  shows "\<not> is_negative (js_Number u)"
proof -
  have s: "\<not> is_space (hd u)" using assms(2) by (auto simp: is_digit_def is_space_def)
  then have t: "trim_start u = u" using assms(1) by (cases u) (auto simp: trim_start_def)
  have "hd (trim u) \<noteq> 45" if "trim u \<noteq> []"
    using that trim_end_hd [of u] assms(2) unfolding trim_def t by (auto simp: is_digit_def)
  moreover have "\<not> is_negative (unsigned_number v)" for v
    by (auto simp: unsigned_number_def number_of_decimal_def round_ratio_not_negative split: option.splits)
  ultimately show ?thesis by (simp add: js_Number_def Let_def round_ratio_not_negative)
qed

lemma scan_decimal_head:
  assumes "scan_decimal r = Some y"
  shows "is_digit (hd r) \<or> hd r = 46"
  using assms by (cases r) (auto simp: scan_decimal_def Let_def split: if_splits)

lemma next_number_ok:
  assumes "next_number u i = Inr t" "u \<noteq> []" "i + length u \<le> length src" "is_digit (hd u) \<or> hd u = 46"
  shows "lexeme_ok src t \<and> lex_start t = i"
  using assms js_Number_sign [OF assms(2,4)]
  by (simp add: next_number_def Let_def split: if_splits) (auto simp: lexeme_ok_def)

lemma next_string_ok:
  assumes "next_string src i r = Inr t" "r \<noteq> []" "i + length r \<le> length src"
  shows "lexeme_ok src t \<and> lex_start t = i"
proof (cases "scan_string (hd r) (i + 1) (tl r) []")
  case (Closed v j)
  then have "i + 1 < j" "j \<le> i + 1 + length (tl r)" by (auto dest: scan_string_end)
  with Closed assms show ?thesis by (cases r) (auto simp: next_string_def lexeme_ok_def)
qed (use assms in \<open>simp_all add: next_string_def\<close>)

lemma plain_lexeme_ok:
  "i + length u \<le> length src \<Longrightarrow> lexeme_ok src (plain_lexeme k u i) \<and> lex_start (plain_lexeme k u i) = i"
  by (auto simp: plain_lexeme_def lexeme_ok_def)

lemma lexeme_at_ok:
  assumes "lexeme_at src i = Inr t" and i: "i \<le> length src"
  shows "lexeme_ok src t \<and> lex_start t = i"
proof (cases "drop i src = []")
  case True
  with assms plain_lexeme_ok [of i "[]" src K_end] show ?thesis by (simp add: lexeme_at_def)
next
  case ne: False
  let ?r = "drop i src"
  show ?thesis
  proof (cases "scan_decimal ?r")
    case None
    have len: "length (match_name ?r) \<le> length ?r" "length (match_symbol ?r) \<le> length ?r"
      by (rule match_name_length, rule match_symbol_length)
    then have b: "i + length ?r \<le> length src" "i + length (match_name ?r) \<le> length src"
      "i + length (match_symbol ?r) \<le> length src" using i by simp_all
    show ?thesis
      using assms(1) ne None next_string_ok [OF _ ne b(1)] plain_lexeme_ok [OF b(2)] plain_lexeme_ok [OF b(3)]
      by (auto simp: lexeme_at_def Let_def split: if_splits)
  next
    case (Some y)
    then obtain d x a where y: "scan_decimal ?r = Some (d, x, a)" by (cases y) auto
    let ?u = "take (length ?r - length a) ?r"
    have n: "next_number ?u i = Inr t" using assms(1) ne y by (simp add: lexeme_at_def)
    have u: "?u \<noteq> []" using scan_decimal_shorter [OF y] ne by simp
    have "hd ?u = hd ?r" using u by (cases ?r) auto
    then have "is_digit (hd ?u) \<or> hd ?u = 46" using scan_decimal_head [OF y] by simp
    from next_number_ok [OF n u _ this, of src] i show ?thesis by simp
  qed
qed

lemma skip_space_le: "i \<le> length src \<Longrightarrow> i \<le> skip_space src i \<and> skip_space src i \<le> length src"
  using length_takeWhile_le [of is_space "drop i src"] by (auto simp: skip_space_def)

text \<open>The state between two calls of the parser.\<close>

definition parser_ok :: "jsstring \<Rightarrow> parser \<Rightarrow> bool" where
  "parser_ok src p \<longleftrightarrow> lexeme_ok src (current p) \<and> cursor p = lex_end (current p)"

lemma take_lexeme_ok:
  assumes "take_lexeme src p = Inr (t, p')" and "parser_ok src p"
  shows "t = current p \<and> parser_ok src p' \<and> lex_end t \<le> lex_start (current p')"
proof -
  obtain l where l: "lexeme_at src (skip_space src (cursor p)) = Inr l" and t: "t = current p"
    and p': "current p' = l" "cursor p' = lex_end l"
    using assms(1) by (auto simp: take_lexeme_def next_lexeme_def rbind_simps split: if_splits)
  have c: "cursor p \<le> length src" using assms(2) by (auto simp: parser_ok_def lexeme_ok_def)
  show ?thesis
    using lexeme_at_ok [OF l] skip_space_le [OF c] assms(2) t p' by (auto simp: parser_ok_def)
qed

definition ordered :: "lexeme list \<Rightarrow> bool" where
  "ordered ts \<longleftrightarrow> sorted_wrt (\<lambda>a b. lex_end a \<le> lex_start b) ts"

lemma taken_ordered:
  "taken src p ts p' \<Longrightarrow> parser_ok src p \<Longrightarrow>
     parser_ok src p' \<and> ordered ts \<and> lex_start (current p) \<le> lex_start (current p') \<and>
     (\<forall>t \<in> set ts. lexeme_ok src t \<and> lex_start (current p) \<le> lex_start t \<and> lex_end t \<le> lex_start (current p'))"
proof (induction ts arbitrary: p)
  case Nil
  then have "p = p'\<lparr>depth := depth p\<rparr>" by simp
  then have "current p = current p'" "cursor p = cursor p'"
    by (metis parser.select_convs(4) parser.surjective parser.update_convs(3),
        metis parser.select_convs(1) parser.surjective parser.update_convs(3))
  with Nil.prems(2) show ?case by (simp add: parser_ok_def ordered_def)
next
  case (Cons t ts)
  then obtain p1 where p1: "take_lexeme src p = Inr (t, p1)" "taken src p1 ts p'" by auto
  note t = take_lexeme_ok [OF p1(1) Cons.prems(2)]
  have lt: "lexeme_ok src t" using t Cons.prems(2) by (simp add: parser_ok_def)
  with Cons.IH [OF p1(2)] t show ?case
    by (fastforce simp: ordered_def lexeme_ok_def)
qed

section \<open>Well-formed nodes\<close>

fun syntax_ok :: "node \<Rightarrow> bool" where
  "syntax_ok (Literal v intg _ _) =
     (case v of
        NumberLit x \<Rightarrow> valid_number x \<and> is_finite x \<and> \<not> is_negative x \<and> (intg \<longrightarrow> is_safe_integer x)
      | _ \<Rightarrow> \<not> intg)"
| "syntax_ok (Variable x _ _) = (x \<in> set BILLING_VARIABLES)"
| "syntax_ok (Call f as _ _) = (map_of BILLING_FUNCTIONS f = Some (length as))"
| "syntax_ok (Unary op _ _ _) = (op \<in> set unary_operators)"
| "syntax_ok (Binary op _ _ _ _) = (map_of PRECEDENCE op \<noteq> None)"
| "syntax_ok (Conditional _ _ _ _ _) = True"

definition span_ok :: "node \<Rightarrow> bool" where
  "span_ok n \<longleftrightarrow>
     node_start n < node_end n \<and>
     sorted_wrt (\<lambda>a b. node_end a \<le> node_start b) (children n) \<and>
     (\<forall>c \<in> set (children n). node_start n \<le> node_start c \<and> node_end c \<le> node_end n \<and>
        node_end c - node_start c < node_end n - node_start n)"

definition tree_ok :: "node \<Rightarrow> bool" where
  "tree_ok n \<longleftrightarrow> (\<forall>m \<in> set (postorder n). syntax_ok m \<and> span_ok m)"

lemma tree_ok_children: "tree_ok n \<longleftrightarrow> syntax_ok n \<and> span_ok n \<and> (\<forall>c \<in> set (children n). tree_ok c)"
  unfolding tree_ok_def by (subst postorder_children) auto

lemma with_span_simps [simp]:
  "node_start (with_span i j n) = i" "node_end (with_span i j n) = j"
  "children (with_span i j n) = children n" "syntax_ok (with_span i j n) = syntax_ok n"
  by (cases n; simp)+

lemma grammar_text:
  "level k ts n \<Longrightarrow> (\<forall>t \<in> set ts. lex_text t \<noteq> [] \<or> lex_value t \<noteq> None) \<and> ts \<noteq> []"
  "prim ts n \<Longrightarrow> (\<forall>t \<in> set ts. lex_text t \<noteq> [] \<or> lex_value t \<noteq> None) \<and> ts \<noteq> []"
  "arglist ts ns \<Longrightarrow> (\<forall>t \<in> set ts. lex_text t \<noteq> [] \<or> lex_value t \<noteq> None)"
proof (induction rule: level_prim_arglist.inducts)
  case (level_binary q ts l op us r k)
  then have "lex_text op \<noteq> []" by (auto dest!: map_of_SomeD simp: PRECEDENCE_def)
  with level_binary show ?case by auto
next
  case (prim_unary op ts n)
  then have "lex_text op \<noteq> []" by (auto simp: unary_operators_def)
  with prim_unary show ?case by auto
next
  case (prim_variable t)
  then have "lex_text t \<noteq> []" by (auto simp: BILLING_VARIABLES_def TOKEN_VARIABLES_def)
  then show ?case by auto
next
  case (prim_call f as op ts cl)
  then have "lex_text f \<noteq> []" by (auto dest!: map_of_SomeD simp: BILLING_FUNCTIONS_def)
  with prim_call show ?case by auto
qed (auto simp: simple_primary_def Let_def split: option.splits if_splits)

lemma grammar_span:
  "level k ts n \<Longrightarrow> node_start n = lex_start (hd ts) \<and> node_end n = lex_end (last ts)"
  "prim ts n \<Longrightarrow> node_start n = lex_start (hd ts) \<and> node_end n = lex_end (last ts)"
  "arglist ts ns \<Longrightarrow> True"
proof (induction rule: level_prim_arglist.inducts)
  case (prim_simple t n)
  then show ?case by (auto simp: simple_primary_def Let_def split: option.splits if_splits)
qed (auto dest: grammar_text)

text \<open>Sequences of lexemes that lie in order and are not empty.\<close>

definition proper :: "jsstring \<Rightarrow> lexeme list \<Rightarrow> bool" where
  "proper src ts \<longleftrightarrow> ordered ts \<and> (\<forall>t \<in> set ts. lexeme_ok src t \<and> lex_start t < lex_end t)"

lemma proper_append [simp]:
  "proper src (ts @ us) \<longleftrightarrow> proper src ts \<and> proper src us \<and>
     (\<forall>t \<in> set ts. \<forall>u \<in> set us. lex_end t \<le> lex_start u)"
  by (auto simp: proper_def ordered_def sorted_wrt_append)

lemma proper_Cons [simp]:
  "proper src (t # ts) \<longleftrightarrow> lexeme_ok src t \<and> lex_start t < lex_end t \<and> proper src ts \<and>
     (\<forall>u \<in> set ts. lex_end t \<le> lex_start u)"
  by (auto simp: proper_def ordered_def)

lemma proper_Nil [simp]: "proper src []"
  by (simp add: proper_def ordered_def)

lemma proper_hd_last: "proper src ts \<Longrightarrow> ts \<noteq> [] \<Longrightarrow> lex_start (hd ts) < lex_end (last ts)"
  by (cases ts) (auto, metis last_in_set le_trans less_le_trans less_imp_le proper_def)

lemma proper_bounds:
  "proper src ts \<Longrightarrow> t \<in> set ts \<Longrightarrow> lex_start (hd ts) \<le> lex_start t \<and> lex_end t \<le> lex_end (last ts)"
proof (induction ts)
  case (Cons u ts)
  then show ?case by (cases "ts = []") (auto, (meson hd_in_set last_in_set less_imp_le order_trans proper_def)+)
qed simp

lemma tree_ok_span: "tree_ok n \<Longrightarrow> node_start n < node_end n"
  by (simp add: tree_ok_children [of n] span_ok_def)

lemma tree_ok_with_span:
  assumes "tree_ok n" "i \<le> node_start n" "node_end n \<le> j"
  shows "tree_ok (with_span i j n)"
proof -
  have "span_ok n" using assms(1) by (simp add: tree_ok_children [of n])
  then have "span_ok (with_span i j n)"
    using assms(2,3) unfolding span_ok_def with_span_simps by fastforce
  with assms(1) show ?thesis
    by (simp add: tree_ok_children [of n] tree_ok_children [of "with_span i j n"])
qed

lemma grammar_tree_ok:
  "level k ts n \<Longrightarrow> proper src ts \<Longrightarrow> tree_ok n"
  "prim ts n \<Longrightarrow> proper src ts \<Longrightarrow> tree_ok n"
  "arglist ts ns \<Longrightarrow> proper src ts \<Longrightarrow>
     (\<forall>a \<in> set ns. tree_ok a) \<and> sorted_wrt (\<lambda>a b. node_end a \<le> node_start b) ns \<and>
     (\<forall>a \<in> set ns. ts \<noteq> [] \<and> lex_start (hd ts) \<le> node_start a \<and> node_end a \<le> lex_end (last ts))"
proof (induction rule: level_prim_arglist.inducts)
  case (level_binary q ts l op us r k)
  note s = grammar_span(1) [OF level_binary.hyps(1)] grammar_span(1) [OF level_binary.hyps(3)]
    grammar_text(1) [OF level_binary.hyps(1)] grammar_text(1) [OF level_binary.hyps(3)]
  have ok: "tree_ok l" "tree_ok r" using level_binary.IH level_binary.prems by simp_all
  note lt = tree_ok_span [OF ok(1)] tree_ok_span [OF ok(2)]
  have "lex_end (last ts) \<le> lex_start op" "lex_start op < lex_end op" "lex_end op \<le> lex_start (hd us)"
    using level_binary.prems s by auto
  with s lt ok level_binary.hyps(2) show ?case
    by (auto simp: tree_ok_children [of "Binary _ _ _ _ _"] span_ok_def)
next
  case (level_conditional ts c qm us y co vs n)
  note s = grammar_span(1) [OF level_conditional.hyps(1)] grammar_span(1) [OF level_conditional.hyps(3)]
    grammar_span(1) [OF level_conditional.hyps(5)] grammar_text(1) [OF level_conditional.hyps(1)]
    grammar_text(1) [OF level_conditional.hyps(3)] grammar_text(1) [OF level_conditional.hyps(5)]
  have ok: "tree_ok c" "tree_ok y" "tree_ok n" using level_conditional.IH level_conditional.prems by simp_all
  note lt = tree_ok_span [OF ok(1)] tree_ok_span [OF ok(2)] tree_ok_span [OF ok(3)]
  have "lex_end (last ts) \<le> lex_start qm" "lex_start qm < lex_end qm" "lex_end qm \<le> lex_start (hd us)"
    "lex_end (last us) \<le> lex_start co" "lex_start co < lex_end co" "lex_end co \<le> lex_start (hd vs)"
    using level_conditional.prems s by auto
  with s lt ok show ?case by (auto simp: tree_ok_children [of "Conditional _ _ _ _ _"] span_ok_def)
next
  case (prim_simple t n)
  then show ?case
    by (auto simp: simple_primary_def Let_def lexeme_ok_def tree_ok_children [of "Literal _ _ _ _"] span_ok_def
        split: option.splits if_splits literal.splits)
next
  case (prim_paren op ts n cl)
  note s = grammar_span(1) [OF prim_paren.hyps(2)] grammar_text(1) [OF prim_paren.hyps(2)]
  have "tree_ok n" using prim_paren.IH prim_paren.prems by simp
  moreover have "lex_start op < lex_end op" "lex_end op \<le> lex_start (hd ts)"
    "lex_end (last ts) \<le> lex_start cl" "lex_start cl < lex_end cl"
    using prim_paren.prems s by auto
  ultimately show ?case using s by (intro tree_ok_with_span) auto
next
  case (prim_unary op ts n)
  note s = grammar_span(1) [OF prim_unary.hyps(2)] grammar_text(1) [OF prim_unary.hyps(2)]
  have ok: "tree_ok n" using prim_unary.IH prim_unary.prems by simp
  moreover have "lex_start op < lex_end op" "lex_end op \<le> lex_start (hd ts)"
    using prim_unary.prems s by auto
  ultimately show ?case using s tree_ok_span [OF ok] prim_unary.hyps(1)
    by (auto simp: tree_ok_children [of "Unary _ _ _ _"] span_ok_def)
next
  case (prim_variable t)
  then show ?case by (simp add: tree_ok_children [of "Variable _ _ _"] span_ok_def)
next
  case (prim_call f as op ts cl)
  have a: "\<forall>a \<in> set as. tree_ok a" "sorted_wrt (\<lambda>a b. node_end a \<le> node_start b) as"
    "\<forall>a \<in> set as. ts \<noteq> [] \<and> lex_start (hd ts) \<le> node_start a \<and> node_end a \<le> lex_end (last ts)"
    using prim_call.IH prim_call.prems by auto
  have o: "lex_start f < lex_end f" "lex_end f \<le> lex_start cl" "lex_start cl < lex_end cl"
    "ts \<noteq> [] \<Longrightarrow> lex_end f \<le> lex_start (hd ts)" "ts \<noteq> [] \<Longrightarrow> lex_end (last ts) \<le> lex_start cl"
    using prim_call.prems by auto
  have "lex_start f \<le> node_start c \<and> node_end c \<le> lex_end cl \<and>
      node_end c - node_start c < lex_end cl - lex_start f" if "c \<in> set as" for c
    using a(1,3) o that tree_ok_span [of c] by fastforce
  with a(1,2) o prim_call.hyps(2) show ?case
    by (auto simp: tree_ok_children [of "Call _ _ _ _"] span_ok_def)
next
  case (args_last ts a)
  then show ?case using grammar_span(1) [OF args_last.hyps] grammar_text(1) [OF args_last.hyps] by auto
next
  case (args_more ts a co us as)
  note s = grammar_span(1) [OF args_more.hyps(1)] grammar_text(1) [OF args_more.hyps(1)]
  have p: "proper src ts" "proper src us" "\<forall>t \<in> set ts. lex_end t \<le> lex_start co"
    "lex_start co < lex_end co" "\<forall>u \<in> set us. lex_end co \<le> lex_start u" using args_more.prems by auto
  have b: "lex_end (last ts) \<le> lex_start co" "us \<noteq> [] \<Longrightarrow> lex_end co \<le> lex_start (hd us)"
    "lex_start (hd ts) < lex_end (last ts)" "us \<noteq> [] \<Longrightarrow> lex_start (hd us) < lex_end (last us)"
    using p s proper_hd_last [OF p(1)] proper_hd_last [OF p(2)] by auto
  have a: "tree_ok a" and as: "\<forall>c \<in> set as. tree_ok c" "sorted_wrt (\<lambda>a b. node_end a \<le> node_start b) as"
    "\<forall>c \<in> set as. us \<noteq> [] \<and> lex_start (hd us) \<le> node_start c \<and> node_end c \<le> lex_end (last us)"
    using args_more.IH p by auto
  have "lex_end (last ts) \<le> node_start c \<and> lex_start (hd ts) \<le> node_start c \<and>
      node_end c \<le> lex_end (last (ts @ co # us))" if "c \<in> set as" for c
    using as(3) that b p(4) by auto
  moreover have "lex_end (last ts) \<le> lex_end (last (ts @ co # us))" using b p(4) by (cases us) auto
  ultimately show ?case using a as(1,2) s by simp
qed auto

lemma tree_ok_inside:
  "tree_ok n \<Longrightarrow> m \<in> set (postorder n) \<Longrightarrow> node_start n \<le> node_start m \<and> node_end m \<le> node_end n \<and>
     node_start m < node_end m \<and> (m \<noteq> n \<longrightarrow> node_end m - node_start m < node_end n - node_start n)"
proof (induction n rule: node_induct_children)
  case (1 n)
  have ok: "span_ok n" "\<forall>c \<in> set (children n). tree_ok c" using "1.prems"(1) by (auto simp: tree_ok_children [of n])
  show ?case
  proof (cases "m = n")
    case True
    with ok show ?thesis by (simp add: span_ok_def)
  next
    case False
    with "1.prems"(2) obtain c where c: "c \<in> set (children n)" "m \<in> set (postorder c)"
      by (subst (asm) postorder_children) auto
    with "1.IH" ok have "node_start c \<le> node_start m \<and> node_end m \<le> node_end c \<and> node_start m < node_end m"
      by blast
    with ok(1) c(1) show ?thesis unfolding span_ok_def by fastforce
  qed
qed

definition node_span :: "node \<Rightarrow> nat \<times> nat" where
  "node_span n = (node_start n, node_end n)"

lemma distinct_concat_sorted:
  assumes "sorted_wrt (\<lambda>a b. node_end a \<le> node_start b) cs" "\<forall>c \<in> set cs. tree_ok c"
    and "\<forall>c \<in> set cs. distinct (map node_span (postorder c))"
  shows "distinct (map node_span (concat (map postorder cs)))"
  using assms
proof (induction cs)
  case (Cons c cs)
  have "node_span m \<noteq> node_span m'" if m: "m \<in> set (postorder c)" and m': "m' \<in> set (postorder d)" "d \<in> set cs"
    for m m' d
  proof -
    have "node_end m \<le> node_end c" "node_end c \<le> node_start d" "node_start d \<le> node_start m'"
      "node_start m' < node_end m'"
      using Cons.prems m m' tree_ok_inside [of c m] tree_ok_inside [of d m'] by auto
    then show ?thesis by (auto simp: node_span_def)
  qed
  with Cons show ?case by fastforce
qed simp

theorem tree_ok_distinct: "tree_ok n \<Longrightarrow> distinct (map node_span (postorder n))"
proof (induction n rule: node_induct_children)
  case (1 n)
  have ok: "span_ok n" "\<forall>c \<in> set (children n). tree_ok c" using "1.prems" by (auto simp: tree_ok_children [of n])
  have "distinct (map node_span (concat (map postorder (children n))))"
    by (rule distinct_concat_sorted) (use ok "1.IH" in \<open>auto simp: span_ok_def\<close>)
  moreover have "node_span n \<noteq> node_span m" if "m \<in> set (postorder c)" "c \<in> set (children n)" for m c
  proof -
    have "node_end m - node_start m < node_end n - node_start n"
      using that ok tree_ok_inside [of c m] unfolding span_ok_def by fastforce
    then show ?thesis by (auto simp: node_span_def)
  qed
  ultimately show ?case by (subst postorder_children) auto
qed

section \<open>The trees of the parser\<close>

lemma match_version_length: "match_version src = Some (ds, n) \<Longrightarrow> n \<le> length src"
proof -
  assume a: "match_version src = Some (ds, n)"
  then obtain c t where r: "dropWhile is_space src = c # t" and ds: "ds = takeWhile is_digit t"
    and st: "starts_with (dropWhile is_digit t) (js '':'')"
    and n: "n = length (takeWhile is_space src) + length ds + 2"
    by (auto simp: match_version_def Let_def split: list.splits if_splits)
  have "length src = length (takeWhile is_space src) + length (c # t)"
    using r by (metis length_append takeWhile_dropWhile_id)
  moreover have "length (c # t) = 1 + length t" by simp
  moreover have "length t = length ds + length (dropWhile is_digit t)"
    using ds by (metis length_append takeWhile_dropWhile_id)
  moreover have "0 < length (dropWhile is_digit t)" using st by (cases "dropWhile is_digit t") (auto simp: js_def)
  ultimately show ?thesis using n by linarith
qed

lemma next_lexeme_ok:
  assumes "next_lexeme src p = Inr (l, p')" "cursor p \<le> length src"
  shows "parser_ok src (p'\<lparr>current := l\<rparr>)"
  using assms lexeme_at_ok [of src "skip_space src (cursor p)" l] skip_space_le [of "cursor p" src]
  by (auto simp: next_lexeme_def parser_ok_def rbind_simps split: if_splits)

lemma new_parser_ok:
  assumes a: "new_parser src = Inr p"
  shows "parser_ok src p"
proof -
  have first: "parser_ok src p"
    if "rbind (next_lexeme src \<lparr>cursor = i, lexemes = 0, depth = 0, current = plain_lexeme K_end [] 0\<rparr>)
          (\<lambda>(l, p). Inr (p\<lparr>current := l\<rparr>)) = Inr p" "i \<le> length src" for i
    using that next_lexeme_ok by (fastforce elim!: rbind_pairE)
  show ?thesis
  proof (cases "match_version src")
    case None
    with a first [of 0] show ?thesis by (simp add: new_parser_def split: if_splits)
  next
    case (Some y)
    then obtain ds n where "match_version src = Some (ds, n)" by (cases y) auto
    with a first [of n] match_version_length show ?thesis by (simp add: new_parser_def split: if_splits)
  qed
qed

lemma parse_level:
  assumes "parse src = Inr n"
  obtains p ts p' where "new_parser src = Inr p" "taken src p ts p'" "level 0 ts n"
    "kind (current p') = K_end" "proper src ts"
proof -
  from assms obtain p p' where p: "new_parser src = Inr p" "expression src 0 p = Inr (n, p')"
    "kind (current p') = K_end"
    by (auto simp: parse_def rbind_simps split: if_splits)
  obtain ts where ts: "taken src p ts p'" "level 0 ts n" using parser_sound(1) [OF p(2)] by blast
  note o = taken_ordered [OF ts(1) new_parser_ok [OF p(1)]]
  have "lex_start t < lex_end t" if "t \<in> set ts" for t
  proof -
    have "lexeme_ok src t" "lex_text t \<noteq> [] \<or> lex_value t \<noteq> None"
      using o grammar_text(1) [OF ts(2)] that by auto
    then show ?thesis unfolding lexeme_ok_def by (metis le_neq_implies_less)
  qed
  with o have "proper src ts" by (simp add: proper_def)
  with p ts that show thesis by blast
qed

theorem parse_tree_ok:
  assumes "parse src = Inr n"
  shows "tree_ok n \<and> node_end n \<le> length src"
proof -
  from assms obtain ts where ts: "level 0 ts n" "proper src ts" by (rule parse_level)
  then have "lexeme_ok src (last ts)" using grammar_text(1) [OF ts(1)] by (simp add: proper_def)
  then show ?thesis
    using grammar_tree_ok(1) [OF ts] grammar_span(1) [OF ts(1)] by (simp add: lexeme_ok_def)
qed

end
