(* ===== verification/Typecheck.thy ===== *)
theory Typecheck
  imports Spans
begin

text \<open>
  The static type check of a parsed expression (\<open>billing-expression/parser.ts\<close>,
  \<open>checkExpressionTypes\<close>).  The source walks the tree in post-order and records the type of
  every node in a map; here that walk is proved to compute a recursive inference, and the
  inference to decide a typing relation given by one rule per construct.
\<close>

section \<open>The checker\<close>

datatype expr_type = T_number | T_string | T_boolean | T_nil | T_dynamic

type_synonym node_types = "node \<rightharpoonup> expr_type"

text \<open>The name of a type, as it appears in a diagnostic.\<close>

fun type_name :: "expr_type \<Rightarrow> jsstring" where
  "type_name T_number = js ''number''"
| "type_name T_string = js ''string''"
| "type_name T_boolean = js ''boolean''"
| "type_name T_nil = js ''nil''"
| "type_name T_dynamic = js ''dynamic''"

definition requireType :: "node_types \<Rightarrow> node \<Rightarrow> expr_type \<Rightarrow> thrown + unit" where
  "requireType types child expected =
     (if types child \<noteq> Some expected \<and> types child \<noteq> Some T_dynamic
      then throw Code_type (type_name expected @ js '' operand'') (Some (node_start child))
      else Inr ())"

text \<open>
  \<open>requireType(node.args[i], expected)\<close>: an absent argument is \<open>undefined\<close>, which has no type,
  and reading its position is a type error of the language.
\<close>

definition require_arg :: "node_types \<Rightarrow> node list \<Rightarrow> nat \<Rightarrow> expr_type \<Rightarrow> thrown + unit" where
  "require_arg types as i expected =
     (if i < length as then requireType types (as ! i) expected
      else Inl (OtherError (js ''Cannot read properties of undefined'')))"

fun literal_type :: "literal \<Rightarrow> expr_type" where
  "literal_type NilLit = T_nil"
| "literal_type (NumberLit _) = T_number"
| "literal_type (StringLit _) = T_string"
| "literal_type (BoolLit _) = T_boolean"

definition logical_operators :: "jsstring list" where
  "logical_operators = map js [''&&'', ''||'']"

definition comparison_operators :: "jsstring list" where
  "comparison_operators = map js [''=='', ''!='', ''<'', ''<='', ''>'', ''>='']"

definition numeric_functions :: "jsstring list" where
  "numeric_functions = map js [''fixed'', ''min'', ''max'', ''abs'', ''ceil'', ''floor'']"

definition string_argument_functions :: "jsstring list" where
  "string_argument_functions = map js [''param'', ''header'', ''u''] @ TIME_FUNCTIONS"

fun node_type :: "node_types \<Rightarrow> node \<Rightarrow> thrown + expr_type" where
  "node_type types (Literal v _ _ _) = Inr (literal_type v)"
| "node_type types (Variable _ _ _) = Inr T_number"
| "node_type types (Unary op x _ _) =
     (let result = (if op = js ''!'' then T_boolean else T_number)
      in rbind (requireType types x result) (\<lambda>_. Inr result))"
| "node_type types (Conditional c y n _ _) =
     rbind (requireType types c T_boolean) (\<lambda>_.
     Inr (if types y = types n then (case types y of Some t \<Rightarrow> t | None \<Rightarrow> T_dynamic)
          else T_dynamic))"
| "node_type types (Binary op l r _ _) =
     (if op \<in> set logical_operators then
        rbind (requireType types l T_boolean) (\<lambda>_.
        rbind (requireType types r T_boolean) (\<lambda>_. Inr T_boolean))
      else if op \<in> set comparison_operators then Inr T_boolean
      else if op = js ''+'' \<and> types l = Some T_string \<and> types r = Some T_string then Inr T_string
      else rbind (requireType types l T_number) (\<lambda>_.
           rbind (requireType types r T_number) (\<lambda>_. Inr T_number)))"
| "node_type types (Call f as _ _) =
     rbind (if f \<in> set string_argument_functions then require_arg types as 0 T_string else Inr ()) (\<lambda>_.
     if f = js ''header'' then Inr T_string
     else if f = js ''has'' then rbind (require_arg types as 1 T_string) (\<lambda>_. Inr T_boolean)
     else if f = js ''tier'' then
       rbind (require_arg types as 0 T_string) (\<lambda>_.
       rbind (require_arg types as 1 T_number) (\<lambda>_. Inr T_number))
     else if f \<in> set TIME_FUNCTIONS then Inr T_number
     else if f \<in> set numeric_functions then
       rbind (rfold (\<lambda>a _. requireType types a T_number) as ()) (\<lambda>_. Inr T_number)
     else Inr T_dynamic)"

definition type_visitor :: "node \<Rightarrow> node_types \<Rightarrow> thrown + node_types" where
  "type_visitor n types = rbind (node_type types n) (\<lambda>t. Inr (types(n \<mapsto> t)))"

definition checkExpressionTypes :: "node \<Rightarrow> thrown + unit" where
  "checkExpressionTypes ast =
     rbind (visitExpression ast type_visitor (\<lambda>_. None)) (\<lambda>_. Inr ())"

section \<open>The walk computes a recursive inference\<close>

lemma node_count_child: "c \<in> set (children n) \<Longrightarrow> node_count c < node_count n"
  using member_le_sum_list [of "node_count c" "map node_count (children n)"]
  by (subst (2) node_count_children) (simp add: less_Suc_eq_le)

text \<open>The types of the children, looked up by the node.\<close>

definition typed_children :: "node list \<Rightarrow> expr_type list \<Rightarrow> node_types" where
  "typed_children cs ts = map_of (zip cs ts)"

function infer :: "node \<Rightarrow> thrown + expr_type" where
  "infer n = rbind (rmap infer (children n)) (\<lambda>ts. node_type (typed_children (children n) ts) n)"
  by auto
termination
  by (relation "measure node_count") (auto intro: node_count_child)

declare infer.simps [simp del]

lemma requireType_cong: "types c = types' c \<Longrightarrow> requireType types c t = requireType types' c t"
  by (simp add: requireType_def)

lemma node_type_cong:
  assumes "\<And>c. c \<in> set (children n) \<Longrightarrow> types c = types' c"
  shows "node_type types n = node_type types' n"
proof (cases n)
  case (Call f as i j)
  have "require_arg types as i t = require_arg types' as i t" for i t
    using assms Call by (auto simp: require_arg_def intro!: requireType_cong)
  moreover have "rfold (\<lambda>a _. requireType types a T_number) as () =
      rfold (\<lambda>a _. requireType types' a T_number) as ()"
    using assms Call by (intro rfold_cong requireType_cong) auto
  ultimately show ?thesis using Call by simp
qed (use assms requireType_cong [of types _ types'] in auto)

text \<open>A map in the middle of the walk holds the inferred type of every node it knows.\<close>

definition types_ok :: "node_types \<Rightarrow> bool" where
  "types_ok types \<longleftrightarrow> (\<forall>n t. types n = Some t \<longrightarrow> infer n = Inr t)"

lemma type_walk_lift:
  assumes "types_ok types"
    and "\<And>c types. c \<in> set cs \<Longrightarrow> types_ok types \<Longrightarrow>
      rel_sum (=) (\<lambda>types' t. types_ok types' \<and> types \<subseteq>\<^sub>m types' \<and> types' c = Some t)
        (rfold type_visitor (postorder c) types) (infer c)"
  shows "rel_sum (=) (\<lambda>types' ts. types_ok types' \<and> types \<subseteq>\<^sub>m types' \<and> map types' cs = map Some ts)
    (rfold type_visitor (concat (map postorder cs)) types) (rmap infer cs)"
  using assms
proof (induction cs arbitrary: types)
  case (Cons c cs)
  show ?case
  proof (cases "infer c")
    case (Inl e)
    with Cons.prems(2) [of c types] Cons.prems(1) show ?thesis
      by (cases "rfold type_visitor (postorder c) types") (auto simp: rfold_append)
  next
    case (Inr t)
    with Cons.prems(2) [of c types] Cons.prems(1) obtain types1
      where t1: "rfold type_visitor (postorder c) types = Inr types1" "types_ok types1"
        "types \<subseteq>\<^sub>m types1" "types1 c = Some t"
      by (cases "rfold type_visitor (postorder c) types") auto
    note IH = Cons.IH [OF t1(2) Cons.prems(2)]
    show ?thesis
    proof (cases "rmap infer cs")
      case (Inl e)
      with IH Inr t1(1) show ?thesis
        by (cases "rfold type_visitor (concat (map postorder cs)) types1") (auto simp: rfold_append)
    next
      case (Inr ts)
      with IH obtain types2 where t2: "rfold type_visitor (concat (map postorder cs)) types1 = Inr types2"
        "types_ok types2" "types1 \<subseteq>\<^sub>m types2" "map types2 cs = map Some ts"
        by (cases "rfold type_visitor (concat (map postorder cs)) types1") auto
      have "types2 c = Some t" using t1(4) t2(3) by (auto simp: map_le_def dom_def)
      with Inr \<open>infer c = Inr t\<close> t1 t2 show ?thesis
        by (auto simp: rfold_append intro: map_le_trans)
    qed
  qed
qed simp

lemma type_walk:
  "types_ok types \<Longrightarrow>
     rel_sum (=) (\<lambda>types' t. types_ok types' \<and> types \<subseteq>\<^sub>m types' \<and> types' n = Some t)
       (rfold type_visitor (postorder n) types) (infer n)"
proof (induction n arbitrary: types rule: node_induct_children)
  case (1 n)
  have kids: "rel_sum (=) (\<lambda>types' ts. types_ok types' \<and> types \<subseteq>\<^sub>m types' \<and> map types' (children n) = map Some ts)
      (rfold type_visitor (concat (map postorder (children n))) types) (rmap infer (children n))"
    by (rule type_walk_lift [OF "1.prems"]) (rule "1.IH")
  show ?case
  proof (cases "rmap infer (children n)")
    case (Inl e)
    with kids show ?thesis
      by (cases "rfold type_visitor (concat (map postorder (children n))) types")
        (auto simp: postorder_children [of n] rfold_append infer.simps [of n])
  next
    case (Inr ts)
    with kids obtain types1 where t1: "rfold type_visitor (concat (map postorder (children n))) types = Inr types1"
      "types_ok types1" "types \<subseteq>\<^sub>m types1" "map types1 (children n) = map Some ts"
      by (cases "rfold type_visitor (concat (map postorder (children n))) types") auto
    have "types1 c = typed_children (children n) ts c" if c: "c \<in> set (children n)" for c
    proof -
      obtain t where t: "infer c = Inr t" "typed_children (children n) ts c = Some t"
        using rmap_all [OF Inr c] by (auto simp: typed_children_def)
      have "types1 c \<in> Some ` set ts" using t1(4) c by (metis image_eqI list.set_map)
      then obtain t' where "types1 c = Some t'" by auto
      with t1(2) t show ?thesis by (auto simp: types_ok_def)
    qed
    then have eq: "node_type types1 n = infer n"
      unfolding infer.simps [of n] Inr rbind_Inr by (rule node_type_cong)
    have walk: "rfold type_visitor (postorder n) types = rbind (infer n) (\<lambda>t. Inr (types1(n \<mapsto> t)))"
      using t1(1) eq by (cases "infer n") (simp_all add: postorder_children [of n] rfold_append type_visitor_def)
    show ?thesis
    proof (cases "infer n")
      case (Inr t)
      have "types_ok (types1(n \<mapsto> t))" using t1(2) Inr by (auto simp: types_ok_def)
      moreover have "types \<subseteq>\<^sub>m types1(n \<mapsto> t)"
        using t1(3) "1.prems" Inr by (fastforce simp: map_le_def types_ok_def dom_def)
      ultimately show ?thesis using walk Inr by simp
    qed (use walk in simp)
  qed
qed

lemma checkExpressionTypes_infer:
  "height n \<le> 256 \<Longrightarrow> checkExpressionTypes n = rbind (infer n) (\<lambda>_. Inr ())"
proof -
  assume h: "height n \<le> 256"
  have "types_ok (\<lambda>_. None)" by (simp add: types_ok_def)
  from type_walk [OF this, of n] show ?thesis
    by (cases "infer n"; cases "rfold type_visitor (postorder n) (\<lambda>_. None)")
      (auto simp: checkExpressionTypes_def visitExpression_postorder [OF h])
qed

section \<open>The inference decides a typing relation\<close>

definition fits :: "expr_type \<Rightarrow> expr_type \<Rightarrow> bool" where
  "fits actual expected \<longleftrightarrow> actual = expected \<or> actual = T_dynamic"

inductive typed :: "node \<Rightarrow> expr_type \<Rightarrow> bool" where
  typed_literal: "typed (Literal v b i j) (literal_type v)"
| typed_variable: "typed (Variable x i j) T_number"
| typed_not: "typed x t \<Longrightarrow> fits t T_boolean \<Longrightarrow> typed (Unary (js ''!'') x i j) T_boolean"
| typed_sign: "op \<noteq> js ''!'' \<Longrightarrow> typed x t \<Longrightarrow> fits t T_number \<Longrightarrow> typed (Unary op x i j) T_number"
| typed_conditional: "typed c s \<Longrightarrow> fits s T_boolean \<Longrightarrow> typed y t \<Longrightarrow> typed n u \<Longrightarrow>
     typed (Conditional c y n i j) (if t = u then t else T_dynamic)"
| typed_logical: "op \<in> set logical_operators \<Longrightarrow> typed l s \<Longrightarrow> fits s T_boolean \<Longrightarrow>
     typed r t \<Longrightarrow> fits t T_boolean \<Longrightarrow> typed (Binary op l r i j) T_boolean"
| typed_comparison: "op \<in> set comparison_operators \<Longrightarrow> typed l s \<Longrightarrow> typed r t \<Longrightarrow>
     typed (Binary op l r i j) T_boolean"
| typed_concat: "typed l T_string \<Longrightarrow> typed r T_string \<Longrightarrow> typed (Binary (js ''+'') l r i j) T_string"
| typed_arith: "op \<notin> set logical_operators \<Longrightarrow> op \<notin> set comparison_operators \<Longrightarrow>
     typed l s \<Longrightarrow> fits s T_number \<Longrightarrow> typed r t \<Longrightarrow> fits t T_number \<Longrightarrow>
     typed (Binary op l r i j) T_number"
| typed_lookup: "f = js ''param'' \<or> f = js ''u'' \<Longrightarrow> typed a t \<Longrightarrow> fits t T_string \<Longrightarrow>
     typed (Call f [a] i j) T_dynamic"
| typed_header: "typed a t \<Longrightarrow> fits t T_string \<Longrightarrow> typed (Call (js ''header'') [a] i j) T_string"
| typed_time: "f \<in> set TIME_FUNCTIONS \<Longrightarrow> typed a t \<Longrightarrow> fits t T_string \<Longrightarrow>
     typed (Call f [a] i j) T_number"
| typed_has: "typed a s \<Longrightarrow> typed b t \<Longrightarrow> fits t T_string \<Longrightarrow>
     typed (Call (js ''has'') [a, b] i j) T_boolean"
| typed_tier: "typed a s \<Longrightarrow> fits s T_string \<Longrightarrow> typed b t \<Longrightarrow> fits t T_number \<Longrightarrow>
     typed (Call (js ''tier'') [a, b] i j) T_number"
| typed_numeric: "f \<in> set numeric_functions \<Longrightarrow> (\<And>a. a \<in> set as \<Longrightarrow> \<exists>t. typed a t \<and> fits t T_number) \<Longrightarrow>
     typed (Call f as i j) T_number"

inductive_cases typed_LiteralE: "typed (Literal v b i j) t"
inductive_cases typed_VariableE: "typed (Variable x i j) t"
inductive_cases typed_UnaryE: "typed (Unary op x i j) t"
inductive_cases typed_BinaryE: "typed (Binary op l r i j) t"
inductive_simps typed_Conditional_iff: "typed (Conditional c y n i j) t"
inductive_cases typed_CallE: "typed (Call f as i j) t"
inductive_simps typed_Call_iff: "typed (Call f as i j) t"

definition inferred :: "node \<Rightarrow> expr_type option" where
  "inferred n = (case infer n of Inr t \<Rightarrow> Some t | Inl _ \<Rightarrow> None)"

lemma infer_inferred: "infer n = rbind (rmap infer (children n)) (\<lambda>_. node_type inferred n)"
proof (cases "rmap infer (children n)")
  case (Inr ts)
  have "typed_children (children n) ts c = inferred c" if "c \<in> set (children n)" for c
    using rmap_all [OF Inr that] by (auto simp: typed_children_def inferred_def)
  then show ?thesis unfolding infer.simps [of n] Inr rbind_Inr by (rule node_type_cong)
qed (simp add: infer.simps [of n])

lemma inferred_iff: "inferred n = Some t \<longleftrightarrow> infer n = Inr t"
  by (auto simp: inferred_def split: sum.splits)

lemma infer_Inr_iff:
  "infer n = Inr t \<longleftrightarrow> (\<forall>c \<in> set (children n). \<exists>s. inferred c = Some s) \<and> node_type inferred n = Inr t"
  using rmap_Inr_iff [of infer "children n"]
  by (subst infer_inferred) (auto simp: rbind_eq_Inr inferred_iff)

lemma requireType_iff: "requireType types c t = Inr u \<longleftrightarrow> (\<exists>s. types c = Some s \<and> fits s t)"
  by (auto simp: requireType_def fits_def)

lemma require_arg_iff:
  "require_arg types as k t = Inr u \<longleftrightarrow> k < length as \<and> (\<exists>s. types (as ! k) = Some s \<and> fits s t)"
  by (auto simp: require_arg_def requireType_iff)

lemma rfold_require_iff:
  "rfold (\<lambda>a _. requireType types a t) as () = Inr u \<longleftrightarrow> (\<forall>a \<in> set as. \<exists>s. types a = Some s \<and> fits s t)"
  by (induction as) (auto simp: rbind_simps requireType_iff)

text \<open>The functions of a well-formed call, with their numbers of arguments.\<close>

lemma billing_call_cases:
  assumes "map_of BILLING_FUNCTIONS f = Some (length as)"
  obtains (lookup) a where "f = js ''param'' \<or> f = js ''u''" "as = [a]"
  | (header) a where "f = js ''header''" "as = [a]"
  | (time) a where "f \<in> set TIME_FUNCTIONS" "as = [a]"
  | (has) a b where "f = js ''has''" "as = [a, b]"
  | (tier) a b where "f = js ''tier''" "as = [a, b]"
  | (extremum) a b where "f = js ''min'' \<or> f = js ''max''" "as = [a, b]"
  | (rounding) a where "f = js ''abs'' \<or> f = js ''ceil'' \<or> f = js ''floor''" "as = [a]"
  | (fixed) a where "f = js ''fixed''" "as = [a]"
proof -
  have l: "length as = 1 \<Longrightarrow> \<exists>a. as = [a]" "length as = 2 \<Longrightarrow> \<exists>a b. as = [a, b]"
    by (auto simp: length_Suc_conv numeral_2_eq_2)
  from assms have "(f, length as) \<in> set BILLING_FUNCTIONS" by (rule map_of_SomeD)
  then show thesis
    using l that unfolding BILLING_FUNCTIONS_def TIME_FUNCTIONS_def by auto
qed

lemma function_names [simp]:
  "js ''param'' \<in> set string_argument_functions" "js ''u'' \<in> set string_argument_functions"
  "js ''header'' \<in> set string_argument_functions" "js ''has'' \<notin> set string_argument_functions"
  "js ''tier'' \<notin> set string_argument_functions"
  "js ''param'' \<notin> set TIME_FUNCTIONS" "js ''u'' \<notin> set TIME_FUNCTIONS" "js ''header'' \<notin> set TIME_FUNCTIONS"
  "js ''has'' \<notin> set TIME_FUNCTIONS" "js ''tier'' \<notin> set TIME_FUNCTIONS"
  "js ''param'' \<notin> set numeric_functions" "js ''u'' \<notin> set numeric_functions"
  "js ''header'' \<notin> set numeric_functions" "js ''has'' \<notin> set numeric_functions" "js ''tier'' \<notin> set numeric_functions"
  by (simp_all add: string_argument_functions_def TIME_FUNCTIONS_def numeric_functions_def)

lemma time_function_names:
  assumes "f \<in> set TIME_FUNCTIONS"
  shows "f \<in> set string_argument_functions" "f \<notin> set numeric_functions" "f \<noteq> js ''header''" "f \<noteq> js ''has''"
    "f \<noteq> js ''tier''" "f \<noteq> js ''param''" "f \<noteq> js ''u''"
  using assms by (auto simp: string_argument_functions_def TIME_FUNCTIONS_def numeric_functions_def)

lemma numeric_function_names:
  assumes "f \<in> set numeric_functions"
  shows "f \<notin> set string_argument_functions" "f \<notin> set TIME_FUNCTIONS" "f \<noteq> js ''header''" "f \<noteq> js ''has''"
    "f \<noteq> js ''tier''" "f \<noteq> js ''param''" "f \<noteq> js ''u''"
  using assms by (auto simp: string_argument_functions_def TIME_FUNCTIONS_def numeric_functions_def)

lemma operator_names [simp]:
  "js ''+'' \<notin> set logical_operators" "js ''+'' \<notin> set comparison_operators"
  "op \<in> set comparison_operators \<Longrightarrow> op \<notin> set logical_operators"
  by (auto simp: logical_operators_def comparison_operators_def)

lemma call_typed_iff:
  assumes ok: "map_of BILLING_FUNCTIONS f = Some (length as)"
    and IH: "\<And>a t. a \<in> set as \<Longrightarrow> inferred a = Some t \<longleftrightarrow> typed a t"
  shows "infer (Call f as i j) = Inr t \<longleftrightarrow> typed (Call f as i j) t"
proof -
  have num: ?thesis if f: "f \<in> set numeric_functions"
    using numeric_function_names [OF f] f IH
    by (auto simp: infer_Inr_iff rbind_simps rfold_require_iff intro!: typed_numeric elim!: typed_CallE; blast)
  show ?thesis using ok
  proof (cases rule: billing_call_cases)
    case (time a)
    with time_function_names [OF time(1)] IH show ?thesis
      by (auto simp: infer_Inr_iff rbind_simps require_arg_iff intro: typed_time elim!: typed_CallE)
  next
    case (extremum a b)
    then show ?thesis by (intro num) (auto simp: numeric_functions_def)
  next
    case (rounding a)
    then show ?thesis by (intro num) (auto simp: numeric_functions_def)
  next
    case (fixed a)
    then show ?thesis by (intro num) (auto simp: numeric_functions_def)
  next
    case (lookup a)
    have "infer (Call f as i j) = Inr t \<longleftrightarrow> (\<exists>s. typed a s \<and> fits s T_string) \<and> t = T_dynamic"
      using lookup IH by (auto simp: infer_Inr_iff rbind_eq_Inr require_arg_iff)
    also have "\<dots> \<longleftrightarrow> typed (Call f as i j) t" using lookup by (auto simp: typed_Call_iff)
    finally show ?thesis .
  next
    case (header a)
    have "infer (Call f as i j) = Inr t \<longleftrightarrow> (\<exists>s. typed a s \<and> fits s T_string) \<and> t = T_string"
      using header IH by (auto simp: infer_Inr_iff rbind_eq_Inr require_arg_iff)
    also have "\<dots> \<longleftrightarrow> typed (Call f as i j) t" using header by (auto simp: typed_Call_iff)
    finally show ?thesis .
  next
    case (has a b)
    have "infer (Call f as i j) = Inr t \<longleftrightarrow> (\<exists>s. typed a s) \<and> (\<exists>s. typed b s \<and> fits s T_string) \<and> t = T_boolean"
      using has IH by (auto simp: infer_Inr_iff rbind_eq_Inr require_arg_iff)
    also have "\<dots> \<longleftrightarrow> typed (Call f as i j) t" using has by (auto simp: typed_Call_iff)
    finally show ?thesis .
  next
    case (tier a b)
    have "infer (Call f as i j) = Inr t \<longleftrightarrow>
        (\<exists>s. typed a s \<and> fits s T_string) \<and> (\<exists>s. typed b s \<and> fits s T_number) \<and> t = T_number"
      using tier IH by (auto simp: infer_Inr_iff rbind_eq_Inr require_arg_iff)
    also have "\<dots> \<longleftrightarrow> typed (Call f as i j) t" using tier by (auto simp: typed_Call_iff)
    finally show ?thesis .
  qed
qed

lemma infer_typed: "\<forall>m \<in> set (postorder n). syntax_ok m \<Longrightarrow> infer n = Inr t \<longleftrightarrow> typed n t"
proof (induction n arbitrary: t rule: node_induct_children)
  case (1 n)
  have IH: "inferred c = Some s \<longleftrightarrow> typed c s" if "c \<in> set (children n)" for c s
    using "1.IH" [OF that] "1.prems" postorder_child [OF that] by (auto simp: inferred_iff)
  have ok: "syntax_ok n" using "1.prems" self_in_postorder by blast
  show ?case
  proof (cases n)
    case (Literal v b i j)
    then show ?thesis by (auto simp: infer_Inr_iff intro: typed_literal elim: typed_LiteralE)
  next
    case (Variable x i j)
    then show ?thesis by (auto simp: infer_Inr_iff intro: typed_variable elim: typed_VariableE)
  next
    case (Call f as i j)
    with call_typed_iff [of f as] IH ok show ?thesis by simp
  next
    case (Unary op x i j)
    with IH show ?thesis
      by (auto simp: infer_Inr_iff rbind_simps requireType_iff Let_def
          intro: typed_not typed_sign elim!: typed_UnaryE split: if_splits)
  next
    case (Binary op l r i j)
    then have one: "typed l s \<Longrightarrow> typed l s' \<Longrightarrow> s = s'" for s s' using IH [of l s] IH [of l s'] by simp
    from Binary IH show ?thesis
      by (auto simp: infer_Inr_iff rbind_simps requireType_iff fits_def dest: one
          intro: typed_logical typed_comparison typed_concat typed_arith elim!: typed_BinaryE split: if_splits)
  next
    case (Conditional c y m i j)
    have "infer n = Inr t \<longleftrightarrow> (\<exists>s. inferred c = Some s \<and> fits s T_boolean) \<and>
        (\<exists>t1 t2. inferred y = Some t1 \<and> inferred m = Some t2 \<and> t = (if t1 = t2 then t1 else T_dynamic))"
      by (auto simp: Conditional infer_Inr_iff rbind_eq_Inr requireType_iff)
    also have "\<dots> \<longleftrightarrow> (\<exists>s. typed c s \<and> fits s T_boolean) \<and>
        (\<exists>t1 t2. typed y t1 \<and> typed m t2 \<and> t = (if t1 = t2 then t1 else T_dynamic))"
      using IH [of c] IH [of y] IH [of m] by (simp add: Conditional split del: if_split)
    also have "\<dots> \<longleftrightarrow> typed n t"
      unfolding Conditional typed_Conditional_iff by blast
    finally show ?thesis .
  qed
qed

end
