(* ===== verification/Memo.thy ===== *)
theory Memo
  imports Prelude
begin

text \<open>
  The contract of a cache in front of a computation that may throw.  The parser keeps a
  bounded cache of compilations and the evaluator a cache of clock readings per time zone;
  both are proved to be instances, so that both are transparent: the caller gets what the
  computation gives, whatever was asked before.
\<close>

locale memo_cache =
  fixes lookup :: "'c \<Rightarrow> 'k \<Rightarrow> 'v option"
    and store :: "'k \<Rightarrow> 'v \<Rightarrow> 'c \<Rightarrow> 'c"
    and cache_ok :: "'c \<Rightarrow> bool"
  assumes lookup_stored: "cache_ok c \<Longrightarrow> lookup c k = None \<Longrightarrow> lookup (store k v c) k = Some v"
    and lookup_other: "cache_ok c \<Longrightarrow> lookup c k = None \<Longrightarrow> k' \<noteq> k \<Longrightarrow>
      lookup (store k v c) k' = Some w \<Longrightarrow> lookup c k' = Some w"
    and store_ok: "cache_ok c \<Longrightarrow> lookup c k = None \<Longrightarrow> cache_ok (store k v c)"
begin

definition memo :: "('k \<Rightarrow> 'e + 'v) \<Rightarrow> 'k \<Rightarrow> 'c \<Rightarrow> 'e + 'v \<times> 'c" where
  "memo compute k c =
     (case lookup c k of
        Some v \<Rightarrow> Inr (v, c)
      | None \<Rightarrow> rbind (compute k) (\<lambda>v. Inr (v, store k v c)))"

definition consistent :: "('k \<Rightarrow> 'e + 'v) \<Rightarrow> 'c \<Rightarrow> bool" where
  "consistent compute c \<longleftrightarrow> cache_ok c \<and> (\<forall>k v. lookup c k = Some v \<longrightarrow> compute k = Inr v)"

lemma memo_consistent:
  assumes "consistent compute c" and "memo compute k c = Inr (v, c')"
  shows "compute k = Inr v \<and> consistent compute c' \<and> lookup c' k = Some v"
proof (cases "lookup c k")
  case None
  with assms(2) have v: "compute k = Inr v" "c' = store k v c" by (auto simp: memo_def rbind_simps)
  have "compute k' = Inr w" if "lookup c' k' = Some w" for k' w
    using that v None assms(1) lookup_stored lookup_other
    by (cases "k' = k") (auto simp: consistent_def)
  with v None assms(1) show ?thesis by (simp add: consistent_def lookup_stored store_ok)
qed (use assms in \<open>auto simp: memo_def consistent_def\<close>)

lemma memo_transparent:
  assumes "consistent compute c"
  shows "rbind (memo compute k c) (\<lambda>(v, _). Inr v) = compute k"
  using assms by (cases "lookup c k"; cases "compute k") (auto simp: memo_def consistent_def)

lemma memo_throws: "memo compute k c = Inl e \<Longrightarrow> compute k = Inl e"
  by (auto simp: memo_def rbind_simps split: option.splits)

end

section \<open>An insertion-ordered map\<close>

text \<open>
  A \<open>Map\<close> of the source whose iteration order matters, as an association list from the
  oldest entry to the newest.  Setting a key that is present keeps its place.
\<close>

type_synonym ('k, 'v) ordered_map = "('k \<times> 'v) list"

fun om_set :: "'k \<Rightarrow> 'v \<Rightarrow> ('k, 'v) ordered_map \<Rightarrow> ('k, 'v) ordered_map" where
  "om_set k v [] = [(k, v)]"
| "om_set k v ((k', w) # m) = (if k' = k then (k, v) # m else (k', w) # om_set k v m)"

lemma map_of_om_set [simp]: "map_of (om_set k v m) = (map_of m)(k \<mapsto> v)"
  by (induction k v m rule: om_set.induct) auto

lemma fst_om_set: "map fst (om_set k v m) = map fst m @ (if k \<in> fst ` set m then [] else [k])"
  by (induction k v m rule: om_set.induct) auto

lemma distinct_om_set: "distinct (map fst m) \<Longrightarrow> distinct (map fst (om_set k v m))"
  by (auto simp: fst_om_set)

lemma length_om_set: "length (om_set k v m) = length m + (if k \<in> fst ` set m then 0 else 1)"
  using arg_cong [OF fst_om_set, of length k v m] by simp

lemma map_of_tl: "distinct (map fst m) \<Longrightarrow> map_of (tl m) k = Some v \<Longrightarrow> map_of m k = Some v"
  by (cases m) (auto dest!: map_of_SomeD intro: rev_image_eqI)

text \<open>Storing into a map that holds at most \<open>n\<close> entries drops the oldest one first.\<close>

definition om_store_bounded :: "nat \<Rightarrow> 'k \<Rightarrow> 'v \<Rightarrow> ('k, 'v) ordered_map \<Rightarrow> ('k, 'v) ordered_map" where
  "om_store_bounded n k v m = om_set k v (if n \<le> length m then tl m else m)"

definition om_ok :: "nat \<Rightarrow> ('k, 'v) ordered_map \<Rightarrow> bool" where
  "om_ok n m \<longleftrightarrow> distinct (map fst m) \<and> length m \<le> n"

lemma om_store_bounded_cache:
  assumes "0 < n"
  shows "memo_cache map_of (om_store_bounded n) (om_ok n)"
proof
  fix c :: "('k \<times> 'v) list" and k k' :: 'k and v w :: 'v
  assume ok: "om_ok n c" and new: "map_of c k = None"
  let ?c = "if n \<le> length c then tl c else c"
  have d: "distinct (map fst ?c)" using ok by (auto simp: om_ok_def distinct_tl map_tl)
  have l: "length ?c < n" using ok assms by (auto simp: om_ok_def)
  show "map_of (om_store_bounded n k v c) k = Some v" by (simp add: om_store_bounded_def)
  show "map_of c k' = Some w" if "k' \<noteq> k" "map_of (om_store_bounded n k v c) k' = Some w"
    using that ok map_of_tl [of c k' w] by (auto simp: om_store_bounded_def om_ok_def split: if_splits)
  show "om_ok n (om_store_bounded n k v c)"
    using distinct_om_set [OF d, of k v] length_om_set [of k v ?c] l
    by (auto simp: om_ok_def om_store_bounded_def)
qed

lemma om_set_cache: "memo_cache map_of om_set (\<lambda>_. True)"
  by unfold_locales (auto split: if_splits)

end
