(* ===== verification/Compile.thy ===== *)
theory Compile
  imports Typecheck Memo
begin

text \<open>
  Compilation of a billing expression (\<open>billing-expression/parser.ts\<close>:
  \<open>containsPricingMarker\<close>, \<open>validateFixedPricingTree\<close>, \<open>compileBillingExpression\<close> and
  its cache of at most 128 results).
\<close>

section \<open>Compiled expressions\<close>

record request_rule =
  rule_node :: node
  rule_condition :: node
  rule_multiplier :: js_number
  rule_cond :: jsstring

record compiled =
  source :: jsstring
  version :: nat
  ast :: node
  variables :: "jsstring set"
  called :: "jsstring set"
  requestRules :: "request_rule list"

datatype compilation = Ready compiled | Failed failure

section \<open>Fixed prices\<close>

definition containsPricingMarker :: "node \<Rightarrow> thrown + bool" where
  "containsPricingMarker n =
     rbind (expressionDependencies n) (\<lambda>d.
     Inr (js ''tier'' \<in> dep_functions d \<or> js ''fixed'' \<in> dep_functions d))"

definition fixed_pricing_detail :: jsstring where
  "fixed_pricing_detail = js (''Use tier(name, fixed(amount)) with a finite, non-negative numeric '' @
     ''literal; combine pricing branches only with conditions and request multipliers.'')"

text \<open>A factor that multiplies a price: the image count or a request rule with a non-negative multiplier.\<close>

fun is_image_count :: "node \<Rightarrow> bool" where
  "is_image_count (Variable x _ _) = (x = js ''image_count'')"
| "is_image_count _ = False"

definition is_price_factor :: "request_rule list \<Rightarrow> node \<Rightarrow> thrown + bool" where
  "is_price_factor rules factor =
     (if is_image_count factor then Inr True
      else case find (\<lambda>r. rule_node r = factor) rules of
          None \<Rightarrow> Inr False
        | Some r \<Rightarrow>
            if js_le zero_num (rule_multiplier r)
            then rbind (containsPricingMarker (rule_condition r)) (\<lambda>b. Inr (\<not> b))
            else Inr False)"

fun is_fixed_amount :: "node \<Rightarrow> bool" where
  "is_fixed_amount (Literal (NumberLit v) _ _ _) =
     (js_le zero_num v \<and> is_finite (js_mul v (num 1000000)))"
| "is_fixed_amount _ = False"

text \<open>The part of the function that follows the recursive cases: a single tier.\<close>

definition validate_tier :: "node \<Rightarrow> thrown + unit" where
  "validate_tier n =
     (let bad = throw Code_type fixed_pricing_detail (Some (node_start n)) in
      case n of
        Call f as _ _ \<Rightarrow>
          if f \<noteq> js ''tier'' then bad
          else (case as of
              [] \<Rightarrow> Inl (OtherError (js ''Cannot read properties of undefined''))
            | label # rest \<Rightarrow>
                rbind (containsPricingMarker label) (\<lambda>b.
                if b then bad
                else case rest of
                    [] \<Rightarrow> Inl (OtherError (js ''Cannot read properties of undefined''))
                  | price # _ \<Rightarrow>
                      (case price of
                         Call g bs _ _ \<Rightarrow>
                           if g = js ''fixed'' then
                             (case bs of
                                [] \<Rightarrow> Inl (OtherError (js ''Cannot read properties of undefined''))
                              | amount # _ \<Rightarrow> if is_fixed_amount amount then Inr () else bad)
                           else rbind (containsPricingMarker price) (\<lambda>b. if b then bad else Inr ())
                       | _ \<Rightarrow> rbind (containsPricingMarker price) (\<lambda>b. if b then bad else Inr ()))))
      | _ \<Rightarrow> bad)"

fun validateFixedPricingTree :: "node \<Rightarrow> request_rule list \<Rightarrow> thrown + unit" where
  "validateFixedPricingTree (Conditional c y n i j) rules =
     rbind (containsPricingMarker c) (\<lambda>b.
     if \<not> b then rbind (validateFixedPricingTree y rules) (\<lambda>_. validateFixedPricingTree n rules)
     else validate_tier (Conditional c y n i j))"
| "validateFixedPricingTree (Binary op l r i j) rules =
     (if op = js ''*'' then
        rbind (is_price_factor rules r) (\<lambda>b.
        if b then validateFixedPricingTree l rules
        else rbind (is_price_factor rules l) (\<lambda>b.
             if b then validateFixedPricingTree r rules
             else validate_tier (Binary op l r i j)))
      else validate_tier (Binary op l r i j))"
| "validateFixedPricingTree n rules = validate_tier n"

section \<open>Compilation\<close>

definition request_functions :: "jsstring list" where
  "request_functions = map js [''param'', ''header''] @ TIME_FUNCTIONS"

definition rule_visitor :: "jsstring \<Rightarrow> node \<Rightarrow> request_rule list \<Rightarrow> thrown + request_rule list" where
  "rule_visitor src n rules =
     (case n of
        Conditional c (Literal (NumberLit m) _ _ _) (Literal (NumberLit one) _ _ _) _ _ \<Rightarrow>
          if \<not> js_eq one (num 1) then Inr rules
          else rbind (expressionDependencies c) (\<lambda>d.
               if \<not> list_ex (\<lambda>f. f \<in> dep_functions d) request_functions then Inr rules
               else Inr (rules @ [\<lparr>rule_node = n, rule_condition = c, rule_multiplier = m,
                       rule_cond = slice src (node_start c) (node_end c)\<rparr>]))
      | _ \<Rightarrow> Inr rules)"

definition compile_source :: "jsstring \<Rightarrow> thrown + compiled" where
  "compile_source src =
     rbind (parse src) (\<lambda>n.
     rbind (checkExpressionTypes n) (\<lambda>_.
     rbind (expressionDependencies n) (\<lambda>d.
     rbind (visitExpression n (rule_visitor src) []) (\<lambda>rules.
     rbind (if js ''fixed'' \<in> dep_functions d then validateFixedPricingTree n rules else Inr ()) (\<lambda>_.
     Inr \<lparr>source = src, version = 1, ast = n, variables = dep_variables d, called = dep_functions d,
          requestRules = rules\<rparr>)))))"

text \<open>The result of a compilation that does not consult the cache.\<close>

definition compile_result :: "jsstring \<Rightarrow> compilation" where
  "compile_result src =
     (case compile_source src of Inr c \<Rightarrow> Ready c | Inl e \<Rightarrow> Failed (expressionFailure e))"

type_synonym compile_cache = "(jsstring, compilation) ordered_map"

definition compileBillingExpression :: "jsstring \<Rightarrow> compile_cache \<Rightarrow> compilation \<times> compile_cache" where
  "compileBillingExpression src cache =
     (case map_of cache src of
        Some r \<Rightarrow> (r, cache)
      | None \<Rightarrow>
          let r = compile_result src;
              cache' = (if 128 \<le> length cache \<and> cache \<noteq> [] then tl cache else cache)
          in (r, om_set src r cache'))"

section \<open>The cache is transparent and bounded\<close>

interpretation compiledCache: memo_cache map_of "om_store_bounded 128" "om_ok 128"
  by (rule om_store_bounded_cache) simp

definition cache_consistent :: "compile_cache \<Rightarrow> bool" where
  "cache_consistent cache \<longleftrightarrow>
     om_ok 128 cache \<and> (\<forall>src r. map_of cache src = Some r \<longrightarrow> r = compile_result src)"

lemma cache_consistent_iff:
  "cache_consistent c \<longleftrightarrow> compiledCache.consistent (\<lambda>src. Inr (compile_result src) :: thrown + _) c"
  by (auto simp: cache_consistent_def compiledCache.consistent_def)

lemma compile_memo:
  "compiledCache.memo (\<lambda>src. Inr (compile_result src) :: thrown + _) src cache =
     Inr (compileBillingExpression src cache)"
  by (auto simp: compiledCache.memo_def compileBillingExpression_def om_store_bounded_def Let_def
      split: option.splits)

lemma compile_cached:
  assumes "cache_consistent cache" and "compileBillingExpression src cache = (r, cache')"
  shows "r = compile_result src" and "cache_consistent cache'" and "map_of cache' src = Some r"
  using compiledCache.memo_consistent [OF assms(1) [unfolded cache_consistent_iff], of src r cache']
    compile_memo [of src cache] assms(2) by (auto simp: cache_consistent_iff)

section \<open>What compilation collects\<close>

definition has_marker :: "node \<Rightarrow> bool" where
  "has_marker n \<longleftrightarrow> js ''tier'' \<in> node_functions n \<or> js ''fixed'' \<in> node_functions n"

lemma containsPricingMarker_iff: "height n \<le> 256 \<Longrightarrow> containsPricingMarker n = Inr (has_marker n)"
  by (simp add: containsPricingMarker_def expressionDependencies_eq has_marker_def)

text \<open>A conditional multiplier: a numeric literal if a condition on the request holds, one otherwise.\<close>

definition is_request_rule :: "node \<Rightarrow> bool" where
  "is_request_rule n =
     (case n of
        Conditional c (Literal (NumberLit _) _ _ _) (Literal (NumberLit one) _ _ _) _ _ \<Rightarrow>
          js_eq one (num 1) \<and> (\<exists>f \<in> set request_functions. f \<in> node_functions c)
      | _ \<Rightarrow> False)"

fun mk_request_rule :: "jsstring \<Rightarrow> node \<Rightarrow> request_rule" where
  "mk_request_rule src (Conditional c (Literal (NumberLit m) b i j) n s e) =
     \<lparr>rule_node = Conditional c (Literal (NumberLit m) b i j) n s e, rule_condition = c, rule_multiplier = m,
      rule_cond = slice src (node_start c) (node_end c)\<rparr>"
| "mk_request_rule src n = undefined"

lemma rule_visitor_eq:
  assumes "height n \<le> 256"
  shows "rule_visitor src n rules = Inr (if is_request_rule n then rules @ [mk_request_rule src n] else rules)"
  using assms
  by (auto simp: rule_visitor_def is_request_rule_def expressionDependencies_eq list_ex_iff
      split: node.split literal.split)

lemma rfold_rule_visitor:
  "\<forall>n \<in> set ns. height n \<le> 256 \<Longrightarrow>
     rfold (rule_visitor src) ns rules = Inr (rules @ map (mk_request_rule src) (filter is_request_rule ns))"
  by (induction ns arbitrary: rules) (auto simp: rule_visitor_eq)

lemma collect_rules:
  assumes "height n \<le> 256"
  shows "visitExpression n (rule_visitor src) [] = Inr (map (mk_request_rule src) (filter is_request_rule (postorder n)))"
  using assms height_postorder [of _ n]
  by (simp add: visitExpression_postorder) (subst rfold_rule_visitor; force)

text \<open>The trees that may contain a fixed price.\<close>

definition price_factor :: "request_rule list \<Rightarrow> node \<Rightarrow> bool" where
  "price_factor rules n \<longleftrightarrow> is_image_count n \<or>
     (\<exists>r. find (\<lambda>r. rule_node r = n) rules = Some r \<and> js_le zero_num (rule_multiplier r) \<and>
        \<not> has_marker (rule_condition r))"

inductive pricing_tree :: "request_rule list \<Rightarrow> node \<Rightarrow> bool" for rules where
  pricing_conditional: "\<not> has_marker c \<Longrightarrow> pricing_tree rules y \<Longrightarrow> pricing_tree rules n \<Longrightarrow>
     pricing_tree rules (Conditional c y n i j)"
| pricing_factor_right: "price_factor rules r \<Longrightarrow> pricing_tree rules l \<Longrightarrow>
     pricing_tree rules (Binary (js ''*'') l r i j)"
| pricing_factor_left: "\<not> price_factor rules r \<Longrightarrow> price_factor rules l \<Longrightarrow> pricing_tree rules r \<Longrightarrow>
     pricing_tree rules (Binary (js ''*'') l r i j)"
| pricing_fixed: "\<not> has_marker label \<Longrightarrow> is_fixed_amount a \<Longrightarrow>
     pricing_tree rules (Call (js ''tier'') [label, Call (js ''fixed'') [a] k l] i j)"
| pricing_tokens: "\<not> has_marker label \<Longrightarrow> \<not> has_marker price \<Longrightarrow>
     pricing_tree rules (Call (js ''tier'') [label, price] i j)"

inductive_simps pricing_Conditional_iff: "pricing_tree rules (Conditional c y n i j)"
inductive_simps pricing_Binary_iff: "pricing_tree rules (Binary op l r i j)"
inductive_simps pricing_Call_iff: "pricing_tree rules (Call f as i j)"
inductive_simps pricing_leaf_iff:
  "pricing_tree rules (Literal v b i j)" "pricing_tree rules (Variable x i j)" "pricing_tree rules (Unary op x i j)"

lemma is_price_factor_iff:
  assumes "\<forall>r \<in> set rules. height (rule_condition r) \<le> 256"
  shows "is_price_factor rules n = Inr (price_factor rules n)"
proof -
  have "height (rule_condition r) \<le> 256" if "find (\<lambda>r. rule_node r = n) rules = Some r" for r
    using assms that by (auto simp: find_Some_iff)
  then show ?thesis
    by (auto simp: is_price_factor_def price_factor_def containsPricingMarker_iff split: option.splits)
qed

lemma pricing_leaf [simp]:
  "\<not> pricing_tree rules (Literal v b i j)" "\<not> pricing_tree rules (Variable x i j)"
  "\<not> pricing_tree rules (Unary op y i j)"
  by (auto simp: pricing_leaf_iff)

lemma node_functions_children:
  "node_functions n =
     (case n of Call f _ _ _ \<Rightarrow> {f} | _ \<Rightarrow> {}) \<union> (\<Union>c \<in> set (children n). node_functions c)"
  unfolding node_functions_def by (subst postorder_children) (auto split: node.splits)

lemma has_marker_call: "has_marker (Call f as i j) \<longleftrightarrow>
    f = js ''tier'' \<or> f = js ''fixed'' \<or> (\<exists>a \<in> set as. has_marker a)"
  by (subst has_marker_def, subst (1 2) node_functions_children) (auto simp: has_marker_def)

lemma validate_tier_call:
  assumes h: "height (Call f as i j) \<le> 256" and ok: "\<forall>m \<in> set (postorder (Call f as i j)). syntax_ok m"
  shows "validate_tier (Call f as i j) =
    (if pricing_tree rules (Call f as i j) then Inr () else throw Code_type fixed_pricing_detail (Some i))"
proof (cases "f = js ''tier''")
  case False
  then show ?thesis by (simp add: validate_tier_def pricing_Call_iff)
next
  case f: True
  have "map_of BILLING_FUNCTIONS f = Some (length as)" using ok by simp
  then have "length as = 2" using f by (simp add: BILLING_FUNCTIONS_def)
  then obtain label price where as: "as = [label, price]" by (auto simp: length_Suc_conv numeral_2_eq_2)
  have m: "containsPricingMarker label = Inr (has_marker label)" "containsPricingMarker price = Inr (has_marker price)"
    using h as by (auto intro!: containsPricingMarker_iff)
  show ?thesis
  proof (cases "\<exists>bs k l. price = Call (js ''fixed'') bs k l")
    case True
    then obtain bs k l where p: "price = Call (js ''fixed'') bs k l" by blast
    have "map_of BILLING_FUNCTIONS (js ''fixed'') = Some (length bs)" using ok as p by simp
    then have "length bs = 1" by (simp add: BILLING_FUNCTIONS_def)
    then obtain a where "bs = [a]" by (auto simp: length_Suc_conv)
    then show ?thesis using f as p m(1)
      by (auto simp: validate_tier_def Let_def pricing_Call_iff has_marker_call)
  next
    case False
    then have "\<not> (\<exists>bs k l. price = Call (js ''fixed'') bs k l)" .
    with f as m show ?thesis
      by (auto simp: validate_tier_def Let_def pricing_Call_iff split: node.split)
  qed
qed

lemma validate_tier_other:
  "(\<And>f as i j. n \<noteq> Call f as i j) \<Longrightarrow> validate_tier n = throw Code_type fixed_pricing_detail (Some (node_start n))"
  by (cases n) (auto simp: validate_tier_def)

text \<open>The position of the diagnostic is that of some node of the tree.\<close>

lemma validateFixedPricingTree_iff:
  assumes "height n \<le> 256" "\<forall>m \<in> set (postorder n). syntax_ok m"
    and rules: "\<forall>r \<in> set rules. height (rule_condition r) \<le> 256"
  shows "(pricing_tree rules n \<longrightarrow> validateFixedPricingTree n rules = Inr ()) \<and>
    (\<not> pricing_tree rules n \<longrightarrow>
       (\<exists>q. validateFixedPricingTree n rules = throw Code_type fixed_pricing_detail (Some q)))"
  using assms(1,2)
proof (induction n)
  case (Call f as i j)
  then show ?case using validate_tier_call [of f as i j rules] by auto
next
  case (Binary op l r i j)
  have IH: "(pricing_tree rules l \<longrightarrow> validateFixedPricingTree l rules = Inr ()) \<and>
      (\<not> pricing_tree rules l \<longrightarrow> (\<exists>q. validateFixedPricingTree l rules = throw Code_type fixed_pricing_detail (Some q)))"
    "(pricing_tree rules r \<longrightarrow> validateFixedPricingTree r rules = Inr ()) \<and>
      (\<not> pricing_tree rules r \<longrightarrow> (\<exists>q. validateFixedPricingTree r rules = throw Code_type fixed_pricing_detail (Some q)))"
    using Binary by auto
  then show ?case
    by (cases "op = js ''*''"; cases "price_factor rules r"; cases "price_factor rules l")
      (auto simp: is_price_factor_iff [OF rules] pricing_Binary_iff validate_tier_other)
next
  case (Conditional c y n i j)
  have "height c \<le> 256" using Conditional.prems by simp
  moreover have IH: "(pricing_tree rules y \<longrightarrow> validateFixedPricingTree y rules = Inr ()) \<and>
      (\<not> pricing_tree rules y \<longrightarrow> (\<exists>q. validateFixedPricingTree y rules = throw Code_type fixed_pricing_detail (Some q)))"
    "(pricing_tree rules n \<longrightarrow> validateFixedPricingTree n rules = Inr ()) \<and>
      (\<not> pricing_tree rules n \<longrightarrow> (\<exists>q. validateFixedPricingTree n rules = throw Code_type fixed_pricing_detail (Some q)))"
    using Conditional by auto
  ultimately show ?case
    by (cases "has_marker c"; cases "pricing_tree rules y")
      (auto simp: containsPricingMarker_iff pricing_Conditional_iff validate_tier_other throw_def)
qed (auto simp: validate_tier_other)

text \<open>The conditions under which a parsed expression compiles.\<close>

definition compiled_rules :: "jsstring \<Rightarrow> node \<Rightarrow> request_rule list" where
  "compiled_rules src n = map (mk_request_rule src) (filter is_request_rule (postorder n))"

definition compilable :: "jsstring \<Rightarrow> node \<Rightarrow> bool" where
  "compilable src n \<longleftrightarrow> height n \<le> 256 \<and> (\<exists>t. typed n t) \<and>
     (js ''fixed'' \<in> node_functions n \<longrightarrow> pricing_tree (compiled_rules src n) n)"

lemma is_request_ruleE:
  assumes "is_request_rule n"
  obtains c m b i j one b' i' j' s e
  where "n = Conditional c (Literal (NumberLit m) b i j) (Literal (NumberLit one) b' i' j') s e"
    "js_eq one (num 1)" "\<exists>f \<in> set request_functions. f \<in> node_functions c"
  using assms by (auto simp: is_request_rule_def split: node.splits literal.splits)

lemma compiled_rules_height:
  assumes "height n \<le> 256" "r \<in> set (compiled_rules src n)"
  shows "height (rule_condition r) \<le> 256"
proof -
  obtain m where "m \<in> set (postorder n)" "is_request_rule m" "r = mk_request_rule src m"
    using assms(2) by (auto simp: compiled_rules_def)
  moreover from this have "height m \<le> 256" using height_postorder assms(1) by fastforce
  ultimately show ?thesis by (auto elim!: is_request_ruleE)
qed

theorem compile_source_iff:
  assumes "parse src = Inr n"
  shows "compile_source src = Inr c \<longleftrightarrow>
    compilable src n \<and>
    c = \<lparr>source = src, version = 1, ast = n, variables = node_variables n, called = node_functions n,
         requestRules = compiled_rules src n\<rparr>"
proof -
  have syn: "\<forall>m \<in> set (postorder n). syntax_ok m"
    using parse_tree_ok [OF assms] by (auto simp: tree_ok_def)
  show ?thesis
  proof (cases "height n \<le> 256")
    case h: True
    let ?rules = "compiled_rules src n"
    have v: "validateFixedPricingTree n ?rules = Inr () \<longleftrightarrow> pricing_tree ?rules n"
      using validateFixedPricingTree_iff [OF h syn, of ?rules] compiled_rules_height [OF h] by auto
    have t: "checkExpressionTypes n = Inr () \<longleftrightarrow> (\<exists>t. typed n t)"
      by (simp add: checkExpressionTypes_infer [OF h] rbind_eq_Inr infer_typed [OF syn])
    have "compile_source src = Inr c \<longleftrightarrow>
        checkExpressionTypes n = Inr () \<and>
        (js ''fixed'' \<in> node_functions n \<longrightarrow> validateFixedPricingTree n ?rules = Inr ()) \<and>
        c = \<lparr>source = src, version = 1, ast = n, variables = node_variables n, called = node_functions n,
             requestRules = ?rules\<rparr>"
      using assms h
      by (auto simp: compile_source_def rbind_eq_Inr expressionDependencies_eq collect_rules compiled_rules_def)
    then show ?thesis using v t h by (auto simp: compilable_def)
  next
    case False
    with assms show ?thesis
      by (auto simp: compile_source_def rbind_eq_Inr expressionDependencies_eq compilable_def)
  qed
qed

end
