(* ===== verification/JsValue.thy ===== *)
theory JsValue
  imports Expression "HOL-Library.List_Lexorder"
begin

text \<open>
  The values a request body, a usage report or an expression can hold: what JSON can express,
  and \<open>undefined\<close>.  An object is the list of its own properties.  The two functions of
  \<open>billing-expression/runtime.ts\<close> that only read such values are here: \<open>readRequestPath\<close>
  follows a path into a value and \<open>billingString\<close> prints a value the way the server does.
\<close>

section \<open>Values\<close>

datatype json =
    J_undefined
  | J_null
  | J_bool bool
  | J_number js_number
  | J_string jsstring
  | J_array "json list"
  | J_object "(jsstring \<times> json) list"

text \<open>Strings compare by code units, which is the lexicographic order of the library.\<close>

lemma str_less_lexord: "str_less s t \<longleftrightarrow> s < t"
  by (induction s t rule: str_less.induct) (auto simp: order.strict_iff_order)

definition is_nullish :: "json \<Rightarrow> bool" where
  "is_nullish v \<longleftrightarrow> v = J_undefined \<or> v = J_null"

text \<open>\<open>typeof v === 'object'\<close>, which \<open>null\<close> satisfies as well.\<close>

definition is_object_type :: "json \<Rightarrow> bool" where
  "is_object_type v \<longleftrightarrow> (case v of J_null \<Rightarrow> True | J_array _ \<Rightarrow> True | J_object _ \<Rightarrow> True | _ \<Rightarrow> False)"

text \<open>Strict equality of two values that are not both objects.\<close>

fun strict_eq :: "json \<Rightarrow> json \<Rightarrow> bool" where
  "strict_eq J_undefined J_undefined = True"
| "strict_eq J_null J_null = True"
| "strict_eq (J_bool a) (J_bool b) = (a = b)"
| "strict_eq (J_number x) (J_number y) = js_eq x y"
| "strict_eq (J_string s) (J_string t) = (s = t)"
| "strict_eq _ _ = False"

text \<open>A string of digits read as an array index.\<close>

fun number_to_nat :: "js_number \<Rightarrow> nat" where
  "number_to_nat (Finite s m e) = nat (m * 2 ^ nat e div 2 ^ nat (- e))"
| "number_to_nat _ = 0"

definition array_get :: "json list \<Rightarrow> nat \<Rightarrow> json" where
  "array_get xs i = (if i < length xs then xs ! i else J_undefined)"

section \<open>Request paths\<close>

definition path_wildcards :: jsstring where
  "path_wildcards = js ''*?[]()|@!''"

fun path_parts :: "jsstring \<Rightarrow> jsstring \<Rightarrow> jsstring \<Rightarrow> jsstring list \<Rightarrow> thrown + jsstring list" where
  "path_parts path [] part parts = Inr (parts @ [part])"
| "path_parts path (c # r) part parts =
     (if c = 92 then
        (case r of
           [] \<Rightarrow> throw Code_unsupported path None
         | d # r' \<Rightarrow> path_parts path r' (part @ [d]) parts)
      else if c = 46 then path_parts path r [] (parts @ [part])
      else if c \<in> set path_wildcards then throw Code_unsupported path None
      else path_parts path r (part @ [c]) parts)"

fun walk_path :: "jsstring \<Rightarrow> json \<Rightarrow> jsstring list \<Rightarrow> thrown + json" where
  "walk_path path v [] = Inr (if is_nullish v then J_null else v)"
| "walk_path path v (key # rest) =
     (case v of
        J_array xs \<Rightarrow>
          if key = js ''#'' \<and> rest = [] then Inr (J_number (num (int (length xs))))
          else if key = js ''#'' then throw Code_unsupported path None
          else if \<not> (key \<noteq> [] \<and> list_all is_digit key) then Inr J_null
          else let index = js_Number key
               in walk_path path
                    (if is_safe_integer index then array_get xs (number_to_nat index) else J_undefined) rest
      | J_object fs \<Rightarrow>
          (case map_of fs key of Some w \<Rightarrow> walk_path path w rest | None \<Rightarrow> Inr J_null)
      | _ \<Rightarrow> Inr J_null)"

definition readRequestPath :: "json \<Rightarrow> jsstring \<Rightarrow> thrown + json" where
  "readRequestPath body rawPath =
     (let path = trim rawPath
      in if path = [] then Inr J_null
         else rbind (path_parts path path [] []) (\<lambda>parts. walk_path path body parts))"

section \<open>Printing a value\<close>

definition pad_start_zero :: "nat \<Rightarrow> jsstring \<Rightarrow> jsstring" where
  "pad_start_zero n s = replicate (n - length s) 48 @ s"

definition billing_number :: "js_number \<Rightarrow> thrown + jsstring" where
  "billing_number x =
     (if \<not> is_finite x then throw Code_number (js ''request number'') None
      else if js_eq x zero_num \<and> is_negative x then Inr (js ''-0'')
      else case exponential_parts x of (mantissa, e) \<Rightarrow>
        if 6 \<le> e \<or> e < - 4
        then Inr (mantissa @ js ''e'' @ (if e < 0 then js ''-'' else js ''+'') @
                  pad_start_zero 2 (dec_string (nat \<bar>e\<bar>)))
        else Inr (js_String x))"

lemma json_size_field [termination_simp]:
  "(k, v) \<in> set fs \<Longrightarrow> size v < Suc (size_list (size_prod (\<lambda>_. 0) size) fs)"
  by (induction fs) auto

function billingString :: "json \<Rightarrow> nat \<Rightarrow> thrown + jsstring" where
  "billingString v d =
     (if 128 < d then throw Code_limit (js ''request value depth'') None
      else case v of
        J_undefined \<Rightarrow> Inr (js ''<nil>'')
      | J_null \<Rightarrow> Inr (js ''<nil>'')
      | J_array xs \<Rightarrow>
          rbind (rmap (\<lambda>x. billingString x (d + 1)) xs) (\<lambda>ss. Inr (js ''['' @ join (js '' '') ss @ js '']''))
      | J_object fs \<Rightarrow>
          rbind (rmap (\<lambda>(k, x). rbind (billingString x (d + 1)) (\<lambda>s. Inr (k @ js '':'' @ s))) (sort_key fst fs))
            (\<lambda>ss. Inr (js ''map['' @ join (js '' '') ss @ js '']''))
      | J_number x \<Rightarrow> billing_number x
      | J_bool b \<Rightarrow> Inr (if b then js ''true'' else js ''false'')
      | J_string s \<Rightarrow> Inr s)"
  by pat_completeness auto
termination
proof (relation "measure (\<lambda>(v, d). size v)", goal_cases)
  case (2 v d xs x)
  then show ?case by (auto simp: less_Suc_eq_le size_list_estimation')
next
  case (3 v d fs z k x)
  then show ?case using json_size_field [of k x fs] by auto
qed simp

declare billingString.simps [simp del]

section \<open>Facts\<close>

text \<open>A key in which every unit with a meaning in a path is escaped.\<close>

definition escape_key :: "jsstring \<Rightarrow> jsstring" where
  "escape_key k = concat (map (\<lambda>c. if c = 92 \<or> c = 46 \<or> c \<in> set path_wildcards then [92, c] else [c]) k)"

lemma path_parts_escape: "path_parts p (escape_key k @ r) part parts = path_parts p r (part @ k) parts"
proof (induction k arbitrary: part)
  case (Cons c k)
  have "path_parts p (escape_key (c # k) @ r) part parts = path_parts p (escape_key k @ r) (part @ [c]) parts"
    by (auto simp: escape_key_def)
  with Cons show ?case by simp
qed (simp add: escape_key_def)

lemma path_parts_join:
  "path_parts p (join (js ''.'') (map escape_key (k # ks))) [] parts = Inr (parts @ k # ks)"
proof (induction ks arbitrary: k parts)
  case Nil
  show ?case using path_parts_escape [of p k "[]" "[]" parts] by simp
next
  case (Cons k' ks)
  have "js ''.'' = [46]" by (simp add: js_def)
  then show ?case
    using path_parts_escape [of p k "46 # join (js ''.'') (map escape_key (k' # ks))" "[]" parts] Cons
    by simp
qed

text \<open>Following keys into nested objects.\<close>

fun object_path :: "json \<Rightarrow> jsstring list \<Rightarrow> json option" where
  "object_path v [] = Some v"
| "object_path (J_object fs) (k # ks) = (case map_of fs k of Some w \<Rightarrow> object_path w ks | None \<Rightarrow> None)"
| "object_path _ (k # ks) = None"

lemma walk_object_path:
  "object_path v ks = Some w \<Longrightarrow> walk_path p v ks = Inr (if is_nullish w then J_null else w)"
  by (induction v ks rule: object_path.induct) (auto split: option.splits)

lemma readRequestPath_keys:
  assumes "ks \<noteq> []" and "object_path body ks = Some w"
    and "trim (join (js ''.'') (map escape_key ks)) = join (js ''.'') (map escape_key ks)"
    and "join (js ''.'') (map escape_key ks) \<noteq> []"
  shows "readRequestPath body (join (js ''.'') (map escape_key ks)) = Inr (if is_nullish w then J_null else w)"
proof -
  obtain k ks' where ks: "ks = k # ks'" using assms(1) by (cases ks) auto
  let ?p = "join (js ''.'') (map escape_key ks)"
  have "path_parts ?p ?p [] [] = Inr ks"
    using path_parts_join [of ?p k ks' "[]"] ks by simp
  then show ?thesis using assms(3,4) walk_object_path [OF assms(2)] by (simp add: readRequestPath_def Let_def)
qed

fun json_ok :: "nat \<Rightarrow> json \<Rightarrow> bool" where
  "json_ok d (J_number x) = is_finite x"
| "json_ok d (J_array xs) = (\<forall>x \<in> set xs. 0 < d \<and> json_ok (d - 1) x)"
| "json_ok d (J_object fs) = (\<forall>(k, x) \<in> set fs. 0 < d \<and> json_ok (d - 1) x)"
| "json_ok d _ = True"

lemma billing_number_iff: "(\<exists>s. billing_number x = Inr s) \<longleftrightarrow> is_finite x"
  by (auto simp: billing_number_def throw_def split: prod.split)

lemma billingString_iff:
  "d \<le> 128 \<Longrightarrow> (\<exists>s. billingString v d = Inr s) \<longleftrightarrow> json_ok (128 - d) v"
proof (induction v d rule: billingString.induct)
  case (1 v d)
  show ?case
  proof (cases v)
    case (J_array xs)
    have e: "(\<exists>s. billingString x (d + 1) = Inr s) \<longleftrightarrow> 0 < 128 - d \<and> json_ok (128 - d - 1) x" if "x \<in> set xs" for x
    proof (cases "d = 128")
      case True
      then show ?thesis by (subst billingString.simps) (simp add: throw_def)
    next
      case False
      then show ?thesis using "1.IH"(1) [of xs x] "1.prems" J_array that by simp
    qed
    show ?thesis using "1.prems" e
      by (subst billingString.simps) (simp add: J_array rbind_eq_Inr rmap_Inr_iff)
  next
    case (J_object fs)
    have e: "(\<exists>s. billingString x (d + 1) = Inr s) \<longleftrightarrow> 0 < 128 - d \<and> json_ok (128 - d - 1) x" if "(k, x) \<in> set fs" for k x
    proof (cases "d = 128")
      case True
      then show ?thesis by (subst billingString.simps) (simp add: throw_def)
    next
      case False
      then show ?thesis using "1.IH"(2) [of fs "(k, x)" k x] "1.prems" J_object that by simp
    qed
    have "(\<exists>s. billingString v d = Inr s) \<longleftrightarrow> (\<forall>z \<in> set fs. \<exists>s. billingString (snd z) (d + 1) = Inr s)"
      using "1.prems"
      by (subst billingString.simps) (simp add: J_object rbind_eq_Inr rmap_Inr_iff case_prod_beta)
    also have "\<dots> \<longleftrightarrow> (\<forall>z \<in> set fs. 0 < 128 - d \<and> json_ok (128 - d - 1) (snd z))"
      using e by (intro ball_cong refl) (metis prod.collapse)
    finally show ?thesis by (simp add: J_object case_prod_beta)
  qed (use "1.prems" in \<open>subst billingString.simps; simp add: billing_number_iff\<close>)+
qed

end
