(* ===== verification/JsDate.thy ===== *)
theory JsDate
  imports Main
begin

text \<open>
  The UTC fields of a \<open>Date\<close>, as the language standard defines them.  A time value is an
  integer number of milliseconds since the epoch, or no number at all (an invalid date).
  The year is found by a guess that is proved to be off by at most one, and the calendar
  fields are proved to determine the day.
\<close>

type_synonym date = "int option"

definition ms_per_day :: int where
  "ms_per_day = 86400000"

definition utc_hours :: "int \<Rightarrow> int" where
  "utc_hours t = (t div 3600000) mod 24"

definition utc_minutes :: "int \<Rightarrow> int" where
  "utc_minutes t = (t div 60000) mod 60"

definition day_number :: "int \<Rightarrow> int" where
  "day_number t = t div ms_per_day"

text \<open>The epoch was a Thursday; Sunday is 0.\<close>

definition utc_day :: "int \<Rightarrow> int" where
  "utc_day t = (day_number t + 4) mod 7"

text \<open>The number of the first day of a year.\<close>

definition day_from_year :: "int \<Rightarrow> int" where
  "day_from_year y =
     365 * (y - 1970) + (y - 1969) div 4 - (y - 1901) div 100 + (y - 1601) div 400"

definition is_leap :: "int \<Rightarrow> bool" where
  "is_leap y \<longleftrightarrow> y mod 4 = 0 \<and> (y mod 100 \<noteq> 0 \<or> y mod 400 = 0)"

definition year_from_day :: "int \<Rightarrow> int" where
  "year_from_day d =
     (let y = 1970 + (400 * d) div 146097
      in if d < day_from_year y then y - 1
         else if day_from_year (y + 1) \<le> d then y + 1
         else y)"

text \<open>The day of the year on which each month starts.\<close>

definition month_starts :: "bool \<Rightarrow> int list" where
  "month_starts leap =
     (if leap then [0, 31, 60, 91, 121, 152, 182, 213, 244, 274, 305, 335]
      else [0, 31, 59, 90, 120, 151, 181, 212, 243, 273, 304, 334])"

definition day_in_year :: "int \<Rightarrow> int" where
  "day_in_year d = d - day_from_year (year_from_day d)"

text \<open>Months are numbered from 1.\<close>

definition month_from_day :: "int \<Rightarrow> nat" where
  "month_from_day d =
     length (filter (\<lambda>s. s \<le> day_in_year d) (month_starts (is_leap (year_from_day d))))"

definition date_from_day :: "int \<Rightarrow> int" where
  "date_from_day d =
     day_in_year d - month_starts (is_leap (year_from_day d)) ! (month_from_day d - 1) + 1"

definition utc_month :: "int \<Rightarrow> int" where
  "utc_month t = int (month_from_day (day_number t))"

definition utc_date :: "int \<Rightarrow> int" where
  "utc_date t = date_from_day (day_number t)"

section \<open>The calendar\<close>

lemma div_Suc_int:
  fixes x k :: int
  assumes "0 < k"
  shows "(x + 1) div k = x div k + (if (x + 1) mod k = 0 then 1 else 0)"
proof (cases "x mod k = k - 1")
  case True
  then have "x + 1 = (x div k + 1) * k" using div_mult_mod_eq [of x k] unfolding distrib_right by linarith
  then show ?thesis using assms by simp
next
  case False
  then have r: "0 \<le> x mod k + 1" "x mod k + 1 < k" "x mod k + 1 \<noteq> 0"
    using assms pos_mod_bound [of k x] pos_mod_sign [of k x] by linarith+
  have e: "x + 1 = k * (x div k) + (x mod k + 1)" using mult_div_mod_eq [of k x] by simp
  show ?thesis using int_div_pos_eq [OF e r(1,2)] int_mod_pos_eq [OF e r(1,2)] r(3) by simp
qed

lemma mod_shift: "(k :: int) dvd c \<Longrightarrow> (y - c) mod k = 0 \<longleftrightarrow> y mod k = 0"
  by (simp add: mod_eq_0_iff_dvd dvd_diff_left_iff)

lemma div_step:
  assumes "0 < (k :: int)" "k dvd c" "c' = c + 1"
  shows "(y - c) div k = (y - c') div k + (if y mod k = 0 then 1 else 0)"
  using div_Suc_int [OF assms(1), of "y - c'"] mod_shift [OF assms(2), of y] assms(3) by simp

lemma leap_sum:
  fixes z A B C :: int
  assumes "R \<Longrightarrow> Q" "Q \<Longrightarrow> P"
  shows "365 * (z + 1) + (A + (if P then 1 else 0)) - (B + (if Q then 1 else 0)) + (C + (if R then 1 else 0)) =
    365 * z + A - B + C + (if P \<and> (\<not> Q \<or> R) then 366 else 365)"
  using assms by (cases P; cases Q; cases R) auto

lemma day_from_year_Suc: "day_from_year (y + 1) = day_from_year y + (if is_leap y then 366 else 365)"
proof -
  have s: "y + 1 - 1970 = (y - 1970) + 1" "y + 1 - 1969 = y - 1968" "y + 1 - 1901 = y - 1900"
    "y + 1 - 1601 = y - 1600" by simp_all
  have e: "(y - 1968) div 4 = (y - 1969) div 4 + (if y mod 4 = 0 then 1 else 0)"
    "(y - 1900) div 100 = (y - 1901) div 100 + (if y mod 100 = 0 then 1 else 0)"
    "(y - 1600) div 400 = (y - 1601) div 400 + (if y mod 400 = 0 then 1 else 0)"
    by (rule div_step; simp)+
  have "y mod 100 = 0" if "y mod 400 = 0"
    using that dvd_trans [of 100 400 y] by (simp add: mod_eq_0_iff_dvd)
  moreover have "y mod 4 = 0" if "y mod 100 = 0"
    using that dvd_trans [of 4 100 y] by (simp add: mod_eq_0_iff_dvd)
  ultimately show ?thesis unfolding day_from_year_def is_leap_def s e by (rule leap_sum)
qed

lemma linear_bounds:
  fixes Y A B C :: int
  assumes "4 * A \<le> Y + 1" "Y + 1 \<le> 4 * A + 3" "100 * B \<le> Y + 69" "Y + 69 \<le> 100 * B + 99"
    "400 * C \<le> Y + 369" "Y + 369 \<le> 400 * C + 399"
  shows "400 * (365 * Y + A - B + C) \<le> 146097 * Y + 589" "146097 * Y - 506 \<le> 400 * (365 * Y + A - B + C)"
proof -
  have "400 * A \<le> 100 * Y + 100" "4 * Y - 120 \<le> 400 * B" using assms by simp_all
  with assms(5) show "400 * (365 * Y + A - B + C) \<le> 146097 * Y + 589" by (simp add: algebra_simps)
  have "100 * Y - 200 \<le> 400 * A" "400 * B \<le> 4 * Y + 276" using assms by simp_all
  with assms(6) show "146097 * Y - 506 \<le> 400 * (365 * Y + A - B + C)" by (simp add: algebra_simps)
qed

lemma div_bounds: "0 < (k :: int) \<Longrightarrow> k * (x div k) \<le> x \<and> x \<le> k * (x div k) + (k - 1)"
  using mult_div_mod_eq [of k x] pos_mod_bound [of k x] pos_mod_sign [of k x] by linarith

lemma day_from_year_bounds:
  "400 * day_from_year y \<le> 146097 * (y - 1970) + 589"
  "146097 * (y - 1970) - 506 \<le> 400 * day_from_year y"
  unfolding day_from_year_def
  using div_bounds [of 4 "y - 1969"] div_bounds [of 100 "y - 1901"] div_bounds [of 400 "y - 1601"]
  by (intro linear_bounds; simp)+

theorem year_from_day: "day_from_year (year_from_day d) \<le> d \<and> d < day_from_year (year_from_day d + 1)"
proof -
  define y where "y = 1970 + (400 * d) div 146097"
  have b: "146097 * (y - 1970) \<le> 400 * d" "400 * d < 146097 * (y - 1970) + 146097"
    using div_bounds [of 146097 "400 * d"] by (simp_all add: y_def)
  have "400 * day_from_year (y - 1) \<le> 400 * d" "400 * d < 400 * day_from_year (y + 2)"
    using b day_from_year_bounds(1) [of "y - 1"] day_from_year_bounds(2) [of "y + 2"]
    by (simp_all add: algebra_simps)
  then have lo: "day_from_year (y - 1) \<le> d" and hi: "d < day_from_year (y + 2)" by simp_all
  have "year_from_day d = (if d < day_from_year y then y - 1
      else if day_from_year (y + 1) \<le> d then y + 1 else y)"
    by (simp add: year_from_day_def y_def Let_def)
  then show ?thesis using lo hi by (auto simp: add.assoc)
qed

lemma day_in_year_bounds:
  "0 \<le> day_in_year d" "day_in_year d < (if is_leap (year_from_day d) then 366 else 365)"
  using year_from_day [of d] by (auto simp: day_in_year_def day_from_year_Suc)

text \<open>Counting the months that have started finds the month a day lies in.\<close>

lemma count_starts:
  assumes "sorted xs" "xs \<noteq> []" "hd xs \<le> (k :: int)"
  shows "let n = length (filter (\<lambda>s. s \<le> k) xs)
    in 1 \<le> n \<and> n \<le> length xs \<and> xs ! (n - 1) \<le> k \<and> (n < length xs \<longrightarrow> k < xs ! n)"
proof -
  let ?f = "takeWhile (\<lambda>s. s \<le> k) xs"
  have eq: "filter (\<lambda>s. s \<le> k) xs = ?f"
    using assms(1) by (induction xs) (auto simp: takeWhile_eq_Nil_iff dest!: hd_in_set)
  have ne: "?f \<noteq> []" using assms(2,3) by (cases xs) auto
  have le: "length ?f \<le> length xs" by (rule length_takeWhile_le)
  have "?f ! (length ?f - 1) \<in> set ?f" using ne by (intro nth_mem) simp
  then have "?f ! (length ?f - 1) \<le> k" by (rule set_takeWhileD [THEN conjunct2])
  moreover have "?f ! (length ?f - 1) = xs ! (length ?f - 1)" using ne by (intro takeWhile_nth) simp
  moreover have "\<not> xs ! length ?f \<le> k" if "length ?f < length xs" using nth_length_takeWhile [OF that] .
  ultimately show ?thesis using ne le by (simp add: eq Let_def Suc_le_eq not_le)
qed

lemma month_starts_sorted: "sorted (month_starts l)" "month_starts l \<noteq> []" "hd (month_starts l) = 0"
  "length (month_starts l) = 12"
  by (simp_all add: month_starts_def)

definition days_in_month :: "bool \<Rightarrow> nat \<Rightarrow> int" where
  "days_in_month leap m =
     (if m = 2 then (if leap then 29 else 28) else if m \<in> {4, 6, 9, 11} then 30 else 31)"

lemma month_starts_Suc:
  assumes "1 \<le> m" "m \<le> 12"
  shows "(if m = 12 then (if l then 366 else 365) else month_starts l ! m) =
    month_starts l ! (m - 1) + days_in_month l m"
proof -
  have "m \<in> {1, 2, 3, 4, 5, 6, 7, 8, 9, 10, 11, 12}" using assms unfolding insert_iff empty_iff by presburger
  then show ?thesis by (auto simp: month_starts_def days_in_month_def)
qed

theorem calendar_correct:
  fixes d :: int
  defines "y \<equiv> year_from_day d" and "m \<equiv> month_from_day d"
  shows "1 \<le> m" "m \<le> 12" "1 \<le> date_from_day d" "date_from_day d \<le> days_in_month (is_leap y) m"
    "day_from_year y + month_starts (is_leap y) ! (m - 1) + (date_from_day d - 1) = d"
proof -
  let ?s = "month_starts (is_leap y)" and ?k = "day_in_year d"
  have c: "1 \<le> m \<and> m \<le> 12 \<and> ?s ! (m - 1) \<le> ?k \<and> (m < 12 \<longrightarrow> ?k < ?s ! m)"
    using count_starts [of ?s ?k] month_starts_sorted [of "is_leap y"] day_in_year_bounds(1) [of d]
      length_filter_le [of "\<lambda>s. s \<le> ?k" ?s, unfolded month_starts_sorted(4)]
    by (simp add: m_def y_def month_from_day_def Let_def)
  then show "1 \<le> m" "m \<le> 12" by auto
  have d: "date_from_day d = ?k - ?s ! (m - 1) + 1" by (simp add: date_from_day_def y_def m_def)
  with c show "1 \<le> date_from_day d" by simp
  have "?k < (if m = 12 then (if is_leap y then 366 else 365) else ?s ! m)"
    using c day_in_year_bounds(2) [of d] by (auto simp: y_def)
  then show "date_from_day d \<le> days_in_month (is_leap y) m"
    using month_starts_Suc [of m "is_leap y"] c d by linarith
  show "day_from_year y + ?s ! (m - 1) + (date_from_day d - 1) = d"
    using d by (simp add: day_in_year_def y_def)
qed

lemma utc_ranges:
  "0 \<le> utc_hours t" "utc_hours t < 24" "0 \<le> utc_minutes t" "utc_minutes t < 60"
  "0 \<le> utc_day t" "utc_day t < 7" "1 \<le> utc_month t" "utc_month t \<le> 12"
  "1 \<le> utc_date t" "utc_date t \<le> 31"
  using calendar_correct [of "day_number t"]
  by (auto simp: utc_hours_def utc_minutes_def utc_day_def utc_month_def utc_date_def days_in_month_def
      split: if_splits)

end
