(* ===== verification/Runtime.thy ===== *)
theory Runtime
  imports Compile JsValue JsDate
begin

text \<open>
  The evaluator (\<open>billing-expression/runtime.ts\<close>, class \<open>BillingRuntime\<close> and the two entry
  points).  What the language runtime provides and the source does not contain is a
  parameter, the \<open>platform\<close>: the time zone data behind \<open>Intl.DateTimeFormat\<close>, the lower
  case of strings with a unit outside ASCII, and the current time.  The fields of the class
  that never change are the \<open>runtime_env\<close>, the others the \<open>runtime\<close>.
  A method that evaluates sub-expressions takes the evaluator as an argument; the recursion
  is closed in \<open>evaluate\<close>.
\<close>

section \<open>The platform\<close>

type_synonym format_parts = "(jsstring \<times> jsstring) list"

text \<open>
  \<open>intl zone\<close> is \<open>None\<close> when the constructor of the formatter throws; otherwise it holds the
  resolved zone and what \<open>formatToParts\<close> gives for a time value.
\<close>

record platform =
  intl :: "jsstring \<Rightarrow> (jsstring \<times> (int \<Rightarrow> format_parts)) option"
  lower_unicode :: "jsstring \<Rightarrow> jsstring"
  clock :: date

definition ascii_lower :: "code_unit \<Rightarrow> code_unit" where
  "ascii_lower c = (if 65 \<le> c \<and> c \<le> 90 then c + 32 else c)"

definition toLowerCase :: "platform \<Rightarrow> jsstring \<Rightarrow> jsstring" where
  "toLowerCase pf s = (if list_all (\<lambda>c. c < 128) s then map ascii_lower s else lower_unicode pf s)"

section \<open>The clock\<close>

record time_values =
  tv_hour :: js_number
  tv_minute :: js_number
  tv_weekday :: js_number
  tv_month :: js_number
  tv_day :: js_number

fun split_on :: "code_unit \<Rightarrow> jsstring \<Rightarrow> jsstring list" where
  "split_on d [] = [[]]"
| "split_on d (c # s) =
     (if c = d then [] # split_on d s
      else case split_on d s of w # ws \<Rightarrow> (c # w) # ws | [] \<Rightarrow> [[c]])"

definition is_upper :: "code_unit \<Rightarrow> bool" where
  "is_upper c \<longleftrightarrow> 65 \<le> c \<and> c \<le> 90"

definition zone_segment :: "jsstring \<Rightarrow> bool" where
  "zone_segment s =
     (case s of
        [] \<Rightarrow> False
      | c # r \<Rightarrow> is_upper c \<and> list_all (\<lambda>d. is_word d \<or> d = 43 \<or> d = 45) r)"

text \<open>The pattern \<open>/^[A-Z][A-Za-z0-9_+-]*(?:\/[A-Z][A-Za-z0-9_+-]*)*$/\<close>.\<close>

definition is_zone_name :: "jsstring \<Rightarrow> bool" where
  "is_zone_name s = list_all zone_segment (split_on 47 s)"

definition weekday_names :: "jsstring list" where
  "weekday_names = map js [''Sun'', ''Mon'', ''Tue'', ''Wed'', ''Thu'', ''Fri'', ''Sat'']"

fun find_index :: "('a \<Rightarrow> bool) \<Rightarrow> 'a list \<Rightarrow> nat option" where
  "find_index P [] = None"
| "find_index P (x # xs) = (if P x then Some 0 else map_option Suc (find_index P xs))"

definition part_number :: "format_parts \<Rightarrow> string \<Rightarrow> js_number" where
  "part_number parts k = (case map_of (rev parts) (js k) of Some s \<Rightarrow> js_Number s | None \<Rightarrow> NaN)"

definition utc_values :: "int \<Rightarrow> time_values" where
  "utc_values t =
     \<lparr>tv_hour = num (utc_hours t), tv_minute = num (utc_minutes t), tv_weekday = num (utc_day t),
      tv_month = num (utc_month t), tv_day = num (utc_date t)\<rparr>"

definition zone_values :: "format_parts \<Rightarrow> time_values" where
  "zone_values parts =
     \<lparr>tv_hour = part_number parts ''hour'', tv_minute = part_number parts ''minute'',
      tv_weekday =
        (case map_of (rev parts) (js ''weekday'') of
           None \<Rightarrow> num (- 1)
         | Some w \<Rightarrow> (case find_index (\<lambda>d. d = w) weekday_names of Some i \<Rightarrow> num (int i) | None \<Rightarrow> num (- 1))),
      tv_month = part_number parts ''month'', tv_day = part_number parts ''day''\<rparr>"

definition timeInBillingZone :: "platform \<Rightarrow> date \<Rightarrow> jsstring \<Rightarrow> thrown + time_values" where
  "timeInBillingZone pf now zone =
     (case now of
        None \<Rightarrow> throw Code_type (js ''simulation time'') None
      | Some t \<Rightarrow>
          let timezone = (if trim zone = [] then js ''UTC'' else trim zone) in
          if timezone = js ''Local'' then throw Code_unsupported (js ''server Local timezone'') None
          else if \<not> is_zone_name timezone then Inr (utc_values t)
          else (case intl pf timezone of
              None \<Rightarrow> Inr (utc_values t)
            | Some (resolved, format) \<Rightarrow>
                if toLowerCase pf resolved = toLowerCase pf timezone \<and> resolved \<noteq> timezone
                then Inr (utc_values t)
                else Inr (zone_values (format t))))"

definition time_value :: "jsstring \<Rightarrow> time_values \<Rightarrow> js_number" where
  "time_value f tv =
     (if f = js ''hour'' then tv_hour tv
      else if f = js ''minute'' then tv_minute tv
      else if f = js ''weekday'' then tv_weekday tv
      else if f = js ''month'' then tv_month tv
      else tv_day tv)"

section \<open>Context and state\<close>

record request =
  req_body :: json
  req_headers :: "(jsstring \<times> json) list"

record billing_context =
  ctx_imageCount :: json
  ctx_tokens :: "(jsstring \<times> json) list"
  ctx_request :: "request option"
  ctx_usage :: "(jsstring \<times> json) list option"
  ctx_now :: "date option"

definition empty_context :: billing_context where
  "empty_context = \<lparr>ctx_imageCount = J_undefined, ctx_tokens = [], ctx_request = None, ctx_usage = None, ctx_now = None\<rparr>"

datatype billing_unit = Unit_token | Unit_request

record billing_rule =
  br_cond :: jsstring
  br_multiplier :: js_number
  br_matched :: bool

record runtime_env =
  env_platform :: platform
  env_compiled :: compiled
  env_context :: billing_context
  env_now :: date
  env_headers :: "(jsstring, jsstring) ordered_map"

record runtime =
  rt_rules :: "billing_rule list"
  rt_tier :: jsstring
  rt_unit :: billing_unit
  rt_fixed :: "js_number option"
  rt_times :: "(jsstring, time_values) ordered_map"
  rt_depth :: nat

record rvalue =
  rv_value :: json
  rv_integer :: bool

abbreviation rv :: "json \<Rightarrow> rvalue" where
  "rv v \<equiv> \<lparr>rv_value = v, rv_integer = False\<rparr>"

definition add_header ::
    "platform \<Rightarrow> jsstring \<times> json \<Rightarrow> (jsstring, jsstring) ordered_map \<Rightarrow> thrown + (jsstring, jsstring) ordered_map" where
  "add_header pf h hs =
     (case h of (name, raw) \<Rightarrow>
        (case raw of
           J_string s \<Rightarrow>
             let key = toLowerCase pf (trim name); v = trim s
             in Inr (if key \<noteq> [] \<and> v \<noteq> [] then om_set key v hs else hs)
         | _ \<Rightarrow> throw Code_type (js ''request header'') None))"

definition new_runtime :: "platform \<Rightarrow> compiled \<Rightarrow> billing_context \<Rightarrow> thrown + runtime_env \<times> runtime" where
  "new_runtime pf c ctx =
     rbind (rfold (add_header pf) (case ctx_request ctx of Some r \<Rightarrow> req_headers r | None \<Rightarrow> []) []) (\<lambda>hs.
     Inr (\<lparr>env_platform = pf, env_compiled = c, env_context = ctx,
           env_now = (case ctx_now ctx of Some d \<Rightarrow> d | None \<Rightarrow> clock pf), env_headers = hs\<rparr>,
          \<lparr>rt_rules = map (\<lambda>r. \<lparr>br_cond = rule_cond r, br_multiplier = rule_multiplier r, br_matched = False\<rparr>)
             (requestRules c),
           rt_tier = [], rt_unit = Unit_token, rt_fixed = None, rt_times = [], rt_depth = 0\<rparr>))"

section \<open>The methods\<close>

type_synonym evaluator = "node \<Rightarrow> runtime \<Rightarrow> thrown + rvalue \<times> runtime"

definition boolean :: "evaluator \<Rightarrow> node \<Rightarrow> runtime \<Rightarrow> thrown + bool \<times> runtime" where
  "boolean ev n st =
     rbind (ev n st) (\<lambda>(v, st').
     case rv_value v of
       J_bool b \<Rightarrow> Inr (b, st')
     | _ \<Rightarrow> throw Code_type (js ''boolean condition'') (Some (node_start n)))"

definition numeric :: "evaluator \<Rightarrow> node \<Rightarrow> runtime \<Rightarrow> thrown + (js_number \<times> bool) \<times> runtime" where
  "numeric ev n st =
     rbind (ev n st) (\<lambda>(v, st').
     case rv_value v of
       J_number x \<Rightarrow> Inr ((x, rv_integer v), st')
     | _ \<Rightarrow> throw Code_type (js ''numeric operand'') (Some (node_start n)))"

definition string_value :: "evaluator \<Rightarrow> node \<Rightarrow> runtime \<Rightarrow> thrown + jsstring \<times> runtime" where
  "string_value ev n st =
     rbind (ev n st) (\<lambda>(v, st').
     case rv_value v of
       J_string s \<Rightarrow> Inr (s, st')
     | _ \<Rightarrow> throw Code_type (js ''string argument'') (Some (node_start n)))"

text \<open>The comparisons of two strings or two numbers; \<open>None\<close> for any other operator.\<close>

definition compare_values :: "jsstring \<Rightarrow> json \<Rightarrow> json \<Rightarrow> bool option" where
  "compare_values op a b =
     (case (a, b) of
        (J_number x, J_number y) \<Rightarrow>
          if op = js ''<'' then Some (js_less x y)
          else if op = js ''<='' then Some (js_le x y)
          else if op = js ''>'' then Some (js_less y x)
          else if op = js ''>='' then Some (js_le y x) else None
      | (J_string s, J_string t) \<Rightarrow>
          if op = js ''<'' then Some (str_less s t)
          else if op = js ''<='' then Some (\<not> str_less t s)
          else if op = js ''>'' then Some (str_less t s)
          else if op = js ''>='' then Some (\<not> str_less s t) else None
      | _ \<Rightarrow> None)"

definition arithmetic :: "jsstring \<Rightarrow> nat \<Rightarrow> js_number \<Rightarrow> js_number \<Rightarrow> bool \<Rightarrow> thrown + rvalue" where
  "arithmetic op pos x y intg =
     (if op = js ''+'' then Inr \<lparr>rv_value = J_number (js_add x y), rv_integer = intg\<rparr>
      else if op = js ''-'' then Inr \<lparr>rv_value = J_number (js_sub x y), rv_integer = intg\<rparr>
      else if op = js ''*'' then Inr \<lparr>rv_value = J_number (js_mul x y), rv_integer = intg\<rparr>
      else if op = js ''/'' then Inr (rv (J_number (js_div x y)))
      else if op = js ''%'' then
        (if \<not> intg then throw Code_type (js ''integer modulo'') (Some pos)
         else Inr \<lparr>rv_value = J_number (js_mod x y), rv_integer = True\<rparr>)
      else throw Code_unsupported op (Some pos))"

text \<open>The part of \<open>binary\<close> after both operands are evaluated.\<close>

definition binary_values :: "jsstring \<Rightarrow> nat \<Rightarrow> rvalue \<Rightarrow> rvalue \<Rightarrow> thrown + rvalue" where
  "binary_values op pos left right =
     (let a = rv_value left; b = rv_value right in
      if op = js ''=='' \<or> op = js ''!='' then
        (if a \<noteq> J_null \<and> b \<noteq> J_null \<and> (is_object_type a \<or> is_object_type b)
         then throw Code_unsupported (js ''object comparison'') (Some pos)
         else Inr (rv (J_bool (if op = js ''=='' then strict_eq a b else \<not> strict_eq a b))))
      else case (a, b, compare_values op a b) of
        (J_string s, J_string t, None) \<Rightarrow>
          if op = js ''+'' then Inr (rv (J_string (s @ t))) else throw Code_type op (Some pos)
      | (_, _, Some r) \<Rightarrow> Inr (rv (J_bool r))
      | (J_number x, J_number y, None) \<Rightarrow> arithmetic op pos x y (rv_integer left \<and> rv_integer right)
      | _ \<Rightarrow> throw Code_type op (Some pos))"

definition binary :: "evaluator \<Rightarrow> jsstring \<Rightarrow> node \<Rightarrow> node \<Rightarrow> nat \<Rightarrow> runtime \<Rightarrow> thrown + rvalue \<times> runtime" where
  "binary ev op l r pos st =
     (if op = js ''&&'' then
        rbind (boolean ev l st) (\<lambda>(a, st1).
        if a then rbind (boolean ev r st1) (\<lambda>(b, st2). Inr (rv (J_bool b), st2))
        else Inr (rv (J_bool False), st1))
      else if op = js ''||'' then
        rbind (boolean ev l st) (\<lambda>(a, st1).
        if a then Inr (rv (J_bool True), st1)
        else rbind (boolean ev r st1) (\<lambda>(b, st2). Inr (rv (J_bool b), st2)))
      else
        rbind (ev l st) (\<lambda>(left, st1).
        rbind (ev r st1) (\<lambda>(right, st2).
        rbind (binary_values op pos left right) (\<lambda>v. Inr (v, st2)))))"

text \<open>\<open>args[i]\<close>; evaluating an absent argument reads a property of \<open>undefined\<close>.\<close>

definition with_arg :: "node list \<Rightarrow> nat \<Rightarrow> (node \<Rightarrow> thrown + 'a) \<Rightarrow> thrown + 'a" where
  "with_arg as i f =
     (if i < length as then f (as ! i) else Inl (OtherError (js ''Cannot read properties of undefined'')))"

definition lookup_times :: "runtime_env \<Rightarrow> jsstring \<Rightarrow> runtime \<Rightarrow> thrown + time_values \<times> runtime" where
  "lookup_times env zone st =
     (case map_of (rt_times st) zone of
        Some tv \<Rightarrow> Inr (tv, st)
      | None \<Rightarrow>
          rbind (timeInBillingZone (env_platform env) (env_now env) zone) (\<lambda>tv.
          Inr (tv, st\<lparr>rt_times := om_set zone tv (rt_times st)\<rparr>)))"

definition numeric_pair ::
    "evaluator \<Rightarrow> node list \<Rightarrow> (js_number \<Rightarrow> js_number \<Rightarrow> js_number) \<Rightarrow> runtime \<Rightarrow> thrown + rvalue \<times> runtime" where
  "numeric_pair ev as f st =
     rbind (with_arg as 0 (\<lambda>a. numeric ev a st)) (\<lambda>((x, _), st1).
     rbind (with_arg as 1 (\<lambda>b. numeric ev b st1)) (\<lambda>((y, _), st2).
     Inr (rv (J_number (f x y)), st2)))"

definition numeric_single ::
    "evaluator \<Rightarrow> node list \<Rightarrow> (js_number \<Rightarrow> js_number) \<Rightarrow> runtime \<Rightarrow> thrown + rvalue \<times> runtime" where
  "numeric_single ev as f st =
     rbind (with_arg as 0 (\<lambda>a. numeric ev a st)) (\<lambda>((x, _), st1). Inr (rv (J_number (f x)), st1))"

definition call_has :: "evaluator \<Rightarrow> node list \<Rightarrow> runtime \<Rightarrow> thrown + rvalue \<times> runtime" where
  "call_has ev as st =
     rbind (with_arg as 0 (\<lambda>a. ev a st)) (\<lambda>(src, st1).
     rbind (with_arg as 1 (\<lambda>b. string_value ev b st1)) (\<lambda>(sub, st2).
     if is_nullish (rv_value src) \<or> sub = [] then Inr (rv (J_bool False), st2)
     else rbind (billingString (rv_value src) 0) (\<lambda>s. Inr (rv (J_bool (str_includes s sub)), st2))))"

definition call_fun ::
    "runtime_env \<Rightarrow> evaluator \<Rightarrow> jsstring \<Rightarrow> node list \<Rightarrow> nat \<Rightarrow> runtime \<Rightarrow> thrown + rvalue \<times> runtime" where
  "call_fun env ev f as pos st =
     (if f = js ''fixed'' then
        rbind (with_arg as 0 (\<lambda>a. numeric ev a st)) (\<lambda>((x, _), st1).
        Inr (rv (J_number (js_mul x (num 1000000))), st1\<lparr>rt_unit := Unit_request, rt_fixed := Some x\<rparr>))
      else if f = js ''tier'' then
        rbind (with_arg as 0 (\<lambda>a. string_value ev a st)) (\<lambda>(name, st1).
        rbind (with_arg as 1 (\<lambda>b. numeric ev b st1)) (\<lambda>((x, _), st2).
        Inr (rv (J_number x), st2\<lparr>rt_tier := name\<rparr>)))
      else if f = js ''param'' then
        rbind (with_arg as 0 (\<lambda>a. string_value ev a st)) (\<lambda>(path, st1).
        case ctx_request (env_context env) of
          None \<Rightarrow> throw Code_missing_context (js ''request body'') (Some pos)
        | Some r \<Rightarrow> rbind (readRequestPath (req_body r) path) (\<lambda>v. Inr (rv v, st1)))
      else if f = js ''header'' then
        rbind (with_arg as 0 (\<lambda>a. string_value ev a st)) (\<lambda>(name, st1).
        case ctx_request (env_context env) of
          None \<Rightarrow> throw Code_missing_context (js ''request headers'') (Some pos)
        | Some r \<Rightarrow>
            Inr (rv (J_string (case map_of (env_headers env) (toLowerCase (env_platform env) (trim name)) of
                                 Some v \<Rightarrow> v | None \<Rightarrow> [])), st1))
      else if f = js ''u'' then
        rbind (with_arg as 0 (\<lambda>a. string_value ev a st)) (\<lambda>(name, st1).
        case ctx_usage (env_context env) of
          None \<Rightarrow> throw Code_missing_context (js ''task usage'') (Some pos)
        | Some us \<Rightarrow> Inr (rv (case map_of us name of Some v \<Rightarrow> v | None \<Rightarrow> J_null), st1))
      else if f = js ''has'' then call_has ev as st
      else if f = js ''min'' then numeric_pair ev as js_min st
      else if f = js ''max'' then numeric_pair ev as js_max st
      else if f = js ''abs'' then numeric_single ev as js_abs st
      else if f = js ''floor'' then numeric_single ev as js_floor st
      else if f = js ''ceil'' then numeric_single ev as js_ceil st
      else if f \<notin> set TIME_FUNCTIONS then throw Code_unsupported f None
      else
        rbind (with_arg as 0 (\<lambda>a. string_value ev a st)) (\<lambda>(zone, st1).
        rbind (lookup_times env (trim zone) st1) (\<lambda>(tv, st2).
        Inr (\<lparr>rv_value = J_number (time_value f tv), rv_integer = True\<rparr>, st2))))"

fun literal_value :: "literal \<Rightarrow> json" where
  "literal_value (StringLit s) = J_string s"
| "literal_value (NumberLit x) = J_number x"
| "literal_value (BoolLit b) = J_bool b"
| "literal_value NilLit = J_null"

definition variable_value :: "billing_context \<Rightarrow> jsstring \<Rightarrow> nat \<Rightarrow> thrown + rvalue" where
  "variable_value ctx x pos =
     (if x = js ''image_count'' then
        let v = (if is_nullish (ctx_imageCount ctx) then J_number (num 1) else ctx_imageCount ctx);
            bad = throw Code_number (js ''image_count must be between 1 and 128'') (Some pos)
        in case v of
             J_number k \<Rightarrow>
               if \<not> is_integer k \<or> js_less k (num 1) \<or> js_less (num 128) k then bad else Inr (rv v)
           | _ \<Rightarrow> bad
      else case map_of (ctx_tokens ctx) x of
          None \<Rightarrow> throw Code_missing_context x (Some pos)
        | Some v \<Rightarrow>
            (case v of
               J_undefined \<Rightarrow> throw Code_missing_context x (Some pos)
             | J_number k \<Rightarrow> if js_less k zero_num then throw Code_number x (Some pos) else Inr (rv v)
             | _ \<Rightarrow> throw Code_number x (Some pos)))"

definition mark_rule :: "runtime_env \<Rightarrow> node \<Rightarrow> bool \<Rightarrow> runtime \<Rightarrow> runtime" where
  "mark_rule env n cond st =
     (case find_index (\<lambda>r. rule_node r = n) (requestRules (env_compiled env)) of
        Some i \<Rightarrow>
          if cond then st\<lparr>rt_rules := (rt_rules st)[i := (rt_rules st ! i)\<lparr>br_matched := True\<rparr>]\<rparr> else st
      | None \<Rightarrow> st)"

definition evaluateNode :: "runtime_env \<Rightarrow> evaluator \<Rightarrow> node \<Rightarrow> runtime \<Rightarrow> thrown + rvalue \<times> runtime" where
  "evaluateNode env ev n st =
     (case n of
        Literal v intg _ _ \<Rightarrow> Inr (\<lparr>rv_value = literal_value v, rv_integer = intg\<rparr>, st)
      | Variable x i _ \<Rightarrow> rbind (variable_value (env_context env) x i) (\<lambda>v. Inr (v, st))
      | Conditional c y no _ _ \<Rightarrow>
          rbind (boolean ev c st) (\<lambda>(b, st1). ev (if b then y else no) (mark_rule env n b st1))
      | Unary op x _ _ \<Rightarrow>
          if op = js ''!'' then rbind (boolean ev x st) (\<lambda>(b, st1). Inr (rv (J_bool (\<not> b)), st1))
          else rbind (numeric ev x st) (\<lambda>((k, intg), st1).
               Inr (\<lparr>rv_value = J_number (if op = js ''-'' then js_neg k else k), rv_integer = intg\<rparr>, st1))
      | Binary op l r i _ \<Rightarrow> binary ev op l r i st
      | Call f as i _ \<Rightarrow> call_fun env ev f as i st)"

text \<open>The check of every result in \<open>evaluate\<close>.\<close>

definition check_value :: "nat \<Rightarrow> rvalue \<Rightarrow> thrown + rvalue" where
  "check_value pos v =
     (case rv_value v of
        J_number x \<Rightarrow>
          if \<not> is_finite x then throw Code_number (js ''non-finite result'') (Some pos)
          else if rv_integer v \<and> \<not> is_safe_integer x
            then throw Code_unsupported (js ''integer precision'') (Some pos)
          else Inr v
      | _ \<Rightarrow> Inr v)"

section \<open>Closing the recursion\<close>

lemma boolean_cong: "(\<And>s. ev n s = ev' n s) \<Longrightarrow> boolean ev n st = boolean ev' n st"
  by (simp add: boolean_def)

lemma numeric_cong: "(\<And>s. ev n s = ev' n s) \<Longrightarrow> numeric ev n st = numeric ev' n st"
  by (simp add: numeric_def)

lemma string_value_cong: "(\<And>s. ev n s = ev' n s) \<Longrightarrow> string_value ev n st = string_value ev' n st"
  by (simp add: string_value_def)

lemma with_arg_cong: "(\<And>a. a \<in> set as \<Longrightarrow> f a = g a) \<Longrightarrow> with_arg as i f = with_arg as i g"
  by (simp add: with_arg_def)

lemmas method_congs = boolean_cong numeric_cong string_value_cong with_arg_cong

lemma call_fun_cong:
  assumes "\<And>a s. a \<in> set as \<Longrightarrow> ev a s = ev' a s"
  shows "call_fun env ev f as pos st = call_fun env ev' f as pos st"
proof -
  have n: "with_arg as i (\<lambda>a. numeric ev a s) = with_arg as i (\<lambda>a. numeric ev' a s)"
    and s: "with_arg as i (\<lambda>a. string_value ev a s) = with_arg as i (\<lambda>a. string_value ev' a s)"
    and e: "with_arg as i (\<lambda>a. ev a s) = with_arg as i (\<lambda>a. ev' a s)" for i s
    using assms by (intro with_arg_cong numeric_cong string_value_cong; simp)+
  show ?thesis
    unfolding call_fun_def numeric_pair_def numeric_single_def call_has_def n s e ..
qed

lemma binary_cong:
  assumes "\<And>s. ev l s = ev' l s" "\<And>s. ev r s = ev' r s"
  shows "binary ev op l r pos st = binary ev' op l r pos st"
  unfolding binary_def boolean_cong [of ev l ev', OF assms(1)] boolean_cong [of ev r ev', OF assms(2)] assms ..

lemma evaluateNode_cong [fundef_cong]:
  assumes "env = env'" "n = n'" "st = st'" "\<And>c s. c \<in> set (children n') \<Longrightarrow> ev c s = ev' c s"
  shows "evaluateNode env ev n st = evaluateNode env' ev' n' st'"
proof (cases n')
  case (Call f as i j)
  with assms call_fun_cong [of as ev ev'] show ?thesis by (simp add: evaluateNode_def)
next
  case (Unary op x i j)
  with assms boolean_cong [of ev x ev'] numeric_cong [of ev x ev'] show ?thesis by (simp add: evaluateNode_def)
next
  case (Binary op l r i j)
  with assms binary_cong [of ev l ev' r] show ?thesis by (simp add: evaluateNode_def)
next
  case (Conditional c y m i j)
  with assms boolean_cong [of ev c ev'] show ?thesis by (simp add: evaluateNode_def cong: if_cong)
qed (use assms in \<open>simp_all add: evaluateNode_def\<close>)

text \<open>
  The counter is decremented on every exit of the method; a caller never sees the state
  after a throw.
\<close>

function evaluate :: "runtime_env \<Rightarrow> node \<Rightarrow> runtime \<Rightarrow> thrown + rvalue \<times> runtime" where
  "evaluate env n st =
     (if 256 < rt_depth st + 1 then throw Code_limit (js ''evaluation depth'') None
      else rbind (evaluateNode env (\<lambda>m s. evaluate env m s) n (st\<lparr>rt_depth := rt_depth st + 1\<rparr>)) (\<lambda>(v, st').
           rbind (check_value (node_start n) v) (\<lambda>w.
           Inr (w, st'\<lparr>rt_depth := rt_depth st' - 1\<rparr>))))"
  by pat_completeness auto
termination
  by (relation "measure (\<lambda>(env, n, st). node_count n)") (auto intro: node_count_child)

declare evaluate.simps [simp del]

section \<open>The entry points\<close>

definition evaluateBillingCondition :: "platform \<Rightarrow> compiled \<Rightarrow> node \<Rightarrow> date \<Rightarrow> bool option" where
  "evaluateBillingCondition pf c n now =
     (case rbind (new_runtime pf c (empty_context\<lparr>ctx_now := Some now\<rparr>)) (\<lambda>(env, st). evaluate env n st) of
        Inr (v, _) \<Rightarrow> (case rv_value v of J_bool b \<Rightarrow> Some b | _ \<Rightarrow> None)
      | Inl _ \<Rightarrow> None)"

record billing_result =
  res_cost :: js_number
  res_unit :: billing_unit
  res_imageCount :: "json option"
  res_fixedPrice :: "js_number option"
  res_tier :: jsstring
  res_rules :: "billing_rule list"

datatype evaluation = Success billing_result | Evaluation_failed failure

definition check_token :: "jsstring \<times> json \<Rightarrow> unit \<Rightarrow> thrown + unit" where
  "check_token t _ =
     (case t of (name, v) \<Rightarrow>
        (case v of
           J_number x \<Rightarrow> if \<not> is_finite x \<or> js_less x zero_num then throw Code_number name None else Inr ()
         | _ \<Rightarrow> throw Code_number name None))"

definition run_compiled :: "platform \<Rightarrow> compiled \<Rightarrow> billing_context \<Rightarrow> thrown + billing_result" where
  "run_compiled pf c ctx =
     rbind (rfold check_token (ctx_tokens ctx) ()) (\<lambda>_.
     rbind (new_runtime pf c ctx) (\<lambda>(env, st).
     rbind (evaluate env (ast c) st) (\<lambda>(v, st').
     case rv_value v of
       J_number x \<Rightarrow>
         if \<not> is_finite x \<or> js_less x zero_num then throw Code_number (js ''billing result'') None
         else Inr \<lparr>res_cost = x, res_unit = rt_unit st',
                   res_imageCount =
                     (if js ''image_count'' \<in> variables c
                      then Some (if is_nullish (ctx_imageCount ctx) then J_number (num 1) else ctx_imageCount ctx)
                      else None),
                   res_fixedPrice = rt_fixed st', res_tier = rt_tier st', res_rules = rt_rules st'\<rparr>
     | _ \<Rightarrow> throw Code_number (js ''billing result'') None)))"

text \<open>The expression is a source text, which is compiled through the cache, or a compiled one.\<close>

definition evaluateBillingExpression ::
    "platform \<Rightarrow> jsstring + compiled \<Rightarrow> billing_context \<Rightarrow> compile_cache \<Rightarrow> evaluation \<times> compile_cache" where
  "evaluateBillingExpression pf e ctx cache =
     (let (r, cache') = (case e of
            Inl src \<Rightarrow> compileBillingExpression src cache
          | Inr c \<Rightarrow> (Ready c, cache))
      in (case r of
            Failed f \<Rightarrow> Evaluation_failed f
          | Ready c \<Rightarrow>
              (case run_compiled pf c ctx of
                 Inr res \<Rightarrow> Success res
               | Inl err \<Rightarrow> Evaluation_failed (expressionFailure err)), cache'))"

end
