(* ===== verification/Semantics.thy ===== *)
theory Semantics
  imports Runtime
begin

text \<open>
  A big-step semantics of billing expressions without state: an expression evaluates to a
  value and a list of events (a tier was named, a fixed price was set, a conditional took
  its first branch).  The evaluator of the source is proved to implement it: its mutable
  fields are the events applied one after another, the cache of clock readings is
  invisible, and the depth counter only matters for trees that are too deep.
\<close>

section \<open>The big-step relation\<close>

datatype event = Tier jsstring | Fixed js_number | Matched node

definition single_functions :: "(jsstring \<times> (js_number \<Rightarrow> js_number)) list" where
  "single_functions = [(js ''abs'', js_abs), (js ''floor'', js_floor), (js ''ceil'', js_ceil)]"

definition pair_functions :: "(jsstring \<times> (js_number \<Rightarrow> js_number \<Rightarrow> js_number)) list" where
  "pair_functions = [(js ''min'', js_min), (js ''max'', js_max)]"

definition header_value :: "runtime_env \<Rightarrow> jsstring \<Rightarrow> jsstring" where
  "header_value env name =
     (case map_of (env_headers env) (toLowerCase (env_platform env) (trim name)) of Some v \<Rightarrow> v | None \<Rightarrow> [])"

definition contains_text :: "json \<Rightarrow> jsstring \<Rightarrow> thrown + bool" where
  "contains_text v sub =
     (if is_nullish v \<or> sub = [] then Inr False
      else rbind (billingString v 0) (\<lambda>s. Inr (str_includes s sub)))"

inductive eval :: "runtime_env \<Rightarrow> node \<Rightarrow> rvalue \<Rightarrow> event list \<Rightarrow> bool"
  and eval_node :: "runtime_env \<Rightarrow> node \<Rightarrow> rvalue \<Rightarrow> event list \<Rightarrow> bool"
  for env where
  eval_checked: "eval_node env n v es \<Longrightarrow> check_value (node_start n) v = Inr w \<Longrightarrow> eval env n w es"
| eval_literal: "eval_node env (Literal l b i j) \<lparr>rv_value = literal_value l, rv_integer = b\<rparr> []"
| eval_variable: "variable_value (env_context env) x i = Inr v \<Longrightarrow> eval_node env (Variable x i j) v []"
| eval_conditional: "eval env c b es \<Longrightarrow> rv_value b = J_bool t \<Longrightarrow> eval env (if t then y else n) v es' \<Longrightarrow>
     eval_node env (Conditional c y n i j) v
       (es @ (if t then [Matched (Conditional c y n i j)] else []) @ es')"
| eval_not: "eval env x v es \<Longrightarrow> rv_value v = J_bool b \<Longrightarrow>
     eval_node env (Unary (js ''!'') x i j) (rv (J_bool (\<not> b))) es"
| eval_sign: "op \<noteq> js ''!'' \<Longrightarrow> eval env x v es \<Longrightarrow> rv_value v = J_number k \<Longrightarrow>
     eval_node env (Unary op x i j)
       \<lparr>rv_value = J_number (if op = js ''-'' then js_neg k else k), rv_integer = rv_integer v\<rparr> es"
| eval_short: "(op, s) \<in> {(js ''&&'', False), (js ''||'', True)} \<Longrightarrow> eval env l a es \<Longrightarrow>
     rv_value a = J_bool s \<Longrightarrow> eval_node env (Binary op l r i j) (rv (J_bool s)) es"
| eval_long: "(op, s) \<in> {(js ''&&'', False), (js ''||'', True)} \<Longrightarrow> eval env l a es \<Longrightarrow>
     rv_value a = J_bool (\<not> s) \<Longrightarrow> eval env r b es' \<Longrightarrow> rv_value b = J_bool t \<Longrightarrow>
     eval_node env (Binary op l r i j) (rv (J_bool t)) (es @ es')"
| eval_strict: "op \<notin> set logical_operators \<Longrightarrow> eval env l a es \<Longrightarrow> eval env r b es' \<Longrightarrow>
     binary_values op i a b = Inr v \<Longrightarrow> eval_node env (Binary op l r i j) v (es @ es')"
| eval_fixed: "eval env a v es \<Longrightarrow> rv_value v = J_number x \<Longrightarrow>
     eval_node env (Call (js ''fixed'') (a # as) i j) (rv (J_number (js_mul x (num 1000000)))) (es @ [Fixed x])"
| eval_tier: "eval env a v es \<Longrightarrow> rv_value v = J_string name \<Longrightarrow> eval env b w es' \<Longrightarrow>
     rv_value w = J_number x \<Longrightarrow>
     eval_node env (Call (js ''tier'') (a # b # as) i j) (rv (J_number x)) (es @ es' @ [Tier name])"
| eval_param: "eval env a v es \<Longrightarrow> rv_value v = J_string path \<Longrightarrow> ctx_request (env_context env) = Some r \<Longrightarrow>
     readRequestPath (req_body r) path = Inr w \<Longrightarrow> eval_node env (Call (js ''param'') (a # as) i j) (rv w) es"
| eval_header: "eval env a v es \<Longrightarrow> rv_value v = J_string name \<Longrightarrow> ctx_request (env_context env) = Some r \<Longrightarrow>
     eval_node env (Call (js ''header'') (a # as) i j) (rv (J_string (header_value env name))) es"
| eval_usage: "eval env a v es \<Longrightarrow> rv_value v = J_string name \<Longrightarrow> ctx_usage (env_context env) = Some us \<Longrightarrow>
     eval_node env (Call (js ''u'') (a # as) i j)
       (rv (case map_of us name of Some w \<Rightarrow> w | None \<Rightarrow> J_null)) es"
| eval_has: "eval env a v es \<Longrightarrow> eval env b w es' \<Longrightarrow> rv_value w = J_string sub \<Longrightarrow>
     contains_text (rv_value v) sub = Inr t \<Longrightarrow>
     eval_node env (Call (js ''has'') (a # b # as) i j) (rv (J_bool t)) (es @ es')"
| eval_pair: "(f, g) \<in> set pair_functions \<Longrightarrow> eval env a v es \<Longrightarrow> rv_value v = J_number x \<Longrightarrow>
     eval env b w es' \<Longrightarrow> rv_value w = J_number y \<Longrightarrow>
     eval_node env (Call f (a # b # as) i j) (rv (J_number (g x y))) (es @ es')"
| eval_single: "(f, g) \<in> set single_functions \<Longrightarrow> eval env a v es \<Longrightarrow> rv_value v = J_number x \<Longrightarrow>
     eval_node env (Call f (a # as) i j) (rv (J_number (g x))) es"
| eval_time: "f \<in> set TIME_FUNCTIONS \<Longrightarrow> eval env a v es \<Longrightarrow> rv_value v = J_string zone \<Longrightarrow>
     timeInBillingZone (env_platform env) (env_now env) (trim zone) = Inr tv \<Longrightarrow>
     eval_node env (Call f (a # as) i j) \<lparr>rv_value = J_number (time_value f tv), rv_integer = True\<rparr> es"

section \<open>Events and the mutable fields\<close>

fun apply_event :: "runtime_env \<Rightarrow> event \<Rightarrow> runtime \<Rightarrow> runtime" where
  "apply_event env (Tier name) st = st\<lparr>rt_tier := name\<rparr>"
| "apply_event env (Fixed x) st = st\<lparr>rt_unit := Unit_request, rt_fixed := Some x\<rparr>"
| "apply_event env (Matched n) st = mark_rule env n True st"

definition apply_events :: "runtime_env \<Rightarrow> event list \<Rightarrow> runtime \<Rightarrow> runtime" where
  "apply_events env es st = fold (apply_event env) es st"

lemma apply_events_simps [simp]:
  "apply_events env [] st = st"
  "apply_events env (e # es) st = apply_events env es (apply_event env e st)"
  "apply_events env (es @ es') st = apply_events env es' (apply_events env es st)"
  by (simp_all add: apply_events_def)

lemma mark_rule_fields [simp]:
  "rt_times (mark_rule env n b st) = rt_times st" "rt_depth (mark_rule env n b st) = rt_depth st"
  "mark_rule env n False st = st"
  "mark_rule env n b (st\<lparr>rt_times := tm\<rparr>) = (mark_rule env n b st)\<lparr>rt_times := tm\<rparr>"
  "mark_rule env n b (st\<lparr>rt_depth := d\<rparr>) = (mark_rule env n b st)\<lparr>rt_depth := d\<rparr>"
  by (auto simp: mark_rule_def split: option.splits)

lemma apply_event_fields [simp]:
  "rt_times (apply_event env e st) = rt_times st" "rt_depth (apply_event env e st) = rt_depth st"
  "apply_event env e (st\<lparr>rt_times := tm\<rparr>) = (apply_event env e st)\<lparr>rt_times := tm\<rparr>"
  "apply_event env e (st\<lparr>rt_depth := d\<rparr>) = (apply_event env e st)\<lparr>rt_depth := d\<rparr>"
  by (cases e; simp)+

lemma apply_events_fields [simp]:
  "rt_times (apply_events env es st) = rt_times st" "rt_depth (apply_events env es st) = rt_depth st"
  "apply_events env es (st\<lparr>rt_times := tm\<rparr>) = (apply_events env es st)\<lparr>rt_times := tm\<rparr>"
  "apply_events env es (st\<lparr>rt_depth := d\<rparr>) = (apply_events env es st)\<lparr>rt_depth := d\<rparr>"
  by (induction es arbitrary: st) simp_all

text \<open>The clock cache is an instance of the cache contract.\<close>

interpretation timeValues: memo_cache map_of om_set "\<lambda>_. True"
  by (rule om_set_cache)

abbreviation clock_reading :: "runtime_env \<Rightarrow> jsstring \<Rightarrow> thrown + time_values" where
  "clock_reading env \<equiv> timeInBillingZone (env_platform env) (env_now env)"

definition times_ok :: "runtime_env \<Rightarrow> runtime \<Rightarrow> bool" where
  "times_ok env st = timeValues.consistent (clock_reading env) (rt_times st)"

lemma lookup_times_memo:
  "lookup_times env zone st =
     rbind (timeValues.memo (clock_reading env) zone (rt_times st)) (\<lambda>(tv, tm). Inr (tv, st\<lparr>rt_times := tm\<rparr>))"
  by (auto simp: lookup_times_def timeValues.memo_def rbind_def split: option.splits sum.splits)

lemma lookup_times_ok:
  assumes "times_ok env st" "lookup_times env zone st = Inr (tv, st')"
  shows "clock_reading env zone = Inr tv \<and> (\<exists>tm. st' = st\<lparr>rt_times := tm\<rparr>) \<and> times_ok env st'"
  using assms timeValues.memo_consistent [of "clock_reading env" "rt_times st" zone tv]
  by (auto simp: lookup_times_memo times_ok_def elim!: rbind_pairE)

lemma lookup_times_total:
  assumes "times_ok env st" "clock_reading env zone = Inr tv"
  shows "\<exists>tm. lookup_times env zone st = Inr (tv, st\<lparr>rt_times := tm\<rparr>)"
proof -
  from timeValues.memo_transparent [of "clock_reading env" "rt_times st" zone] assms
  obtain tm where "timeValues.memo (clock_reading env) zone (rt_times st) = Inr (tv, tm)"
    by (auto simp: times_ok_def elim!: rbind_pairE)
  then show ?thesis by (intro exI [of _ tm]) (simp add: lookup_times_memo)
qed

text \<open>A run that started in \<open>st\<close> emitted \<open>es\<close> and ended in \<open>st'\<close>.\<close>

definition runs :: "runtime_env \<Rightarrow> event list \<Rightarrow> runtime \<Rightarrow> runtime \<Rightarrow> bool" where
  "runs env es st st' \<longleftrightarrow> times_ok env st' \<and> (\<exists>tm. st' = (apply_events env es st)\<lparr>rt_times := tm\<rparr>)"

lemma runs_Nil: "times_ok env st \<Longrightarrow> runs env [] st st"
  by (auto simp: runs_def intro: exI [of _ "rt_times st"])

lemma runs_append: "runs env es st st1 \<Longrightarrow> runs env es' st1 st2 \<Longrightarrow> runs env (es @ es') st st2"
  by (auto simp: runs_def)

lemma runs_event: "runs env es st st1 \<Longrightarrow> runs env (es @ [e]) st (apply_event env e st1)"
  by (auto simp: runs_def times_ok_def)

lemma runs_times_ok: "runs env es st st' \<Longrightarrow> times_ok env st'"
  by (simp add: runs_def)

lemma runs_depth: "runs env es st st' \<Longrightarrow> rt_depth st' = rt_depth st"
  by (auto simp: runs_def)

lemma runs_lookup:
  "runs env es st st1 \<Longrightarrow> lookup_times env zone st1 = Inr (tv, st2) \<Longrightarrow> runs env es st st2 \<and> clock_reading env zone = Inr tv"
  using lookup_times_ok [of env st1 zone tv st2] by (auto simp: runs_def)

lemma runs_enter_leave:
  "runs env es (st\<lparr>rt_depth := Suc (rt_depth st)\<rparr>) st' \<Longrightarrow> runs env es st (st'\<lparr>rt_depth := rt_depth st' - 1\<rparr>)"
proof -
  assume "runs env es (st\<lparr>rt_depth := Suc (rt_depth st)\<rparr>) st'"
  then obtain tm where "times_ok env st'" and st': "st' = (apply_events env es st)\<lparr>rt_depth := Suc (rt_depth st), rt_times := tm\<rparr>"
    by (auto simp: runs_def)
  moreover have "times_ok env (st'\<lparr>rt_depth := d\<rparr>) = times_ok env st'" for d by (simp add: times_ok_def)
  moreover have "st'\<lparr>rt_depth := rt_depth st' - 1\<rparr> = (apply_events env es st)\<lparr>rt_times := tm\<rparr>"
    by (rule runtime.equality) (simp_all add: st')
  ultimately show ?thesis unfolding runs_def by metis
qed

section \<open>The evaluator only produces what the semantics derives\<close>

definition sound_at :: "runtime_env \<Rightarrow> node \<Rightarrow> bool" where
  "sound_at env n \<longleftrightarrow> (\<forall>st v st'. evaluate env n st = Inr (v, st') \<longrightarrow> times_ok env st \<longrightarrow>
     (\<exists>es. eval env n v es \<and> runs env es st st'))"

lemma sound_atE:
  assumes "sound_at env n" "evaluate env n st = Inr (v, st')" "times_ok env st"
  obtains es where "eval env n v es" "runs env es st st'"
  using assms unfolding sound_at_def by blast

lemma boolean_ran:
  assumes "sound_at env n" "boolean (evaluate env) n st = Inr (b, st')" "times_ok env st"
  obtains v es where "eval env n v es" "rv_value v = J_bool b" "runs env es st st'"
  using assms by (auto simp: boolean_def split: json.splits elim!: rbind_pairE sound_atE)

lemma numeric_ran:
  assumes "sound_at env n" "numeric (evaluate env) n st = Inr ((x, i), st')" "times_ok env st"
  obtains v es where "eval env n v es" "rv_value v = J_number x" "rv_integer v = i" "runs env es st st'"
  using assms by (auto simp: numeric_def split: json.splits elim!: rbind_pairE sound_atE)

lemma string_ran:
  assumes "sound_at env n" "string_value (evaluate env) n st = Inr (s, st')" "times_ok env st"
  obtains v es where "eval env n v es" "rv_value v = J_string s" "runs env es st st'"
  using assms by (auto simp: string_value_def split: json.splits elim!: rbind_pairE sound_atE)

text \<open>The first and the second argument of a call.\<close>

lemma with_arg_0:
  assumes "with_arg as 0 f = Inr x"
  obtains a as' where "as = a # as'" "f a = Inr x"
  using assms by (cases as) (auto simp: with_arg_def)

lemma with_arg_1:
  assumes "with_arg (a # as) 1 f = Inr x"
  obtains b as' where "as = b # as'" "f b = Inr x"
  using assms by (cases as) (auto simp: with_arg_def)

lemma binary_ran:
  assumes l: "sound_at env l" and r: "sound_at env r"
    and b: "binary (evaluate env) op l r i st = Inr (v, st')" and ok: "times_ok env st"
  shows "\<exists>es. eval_node env (Binary op l r i j) v es \<and> runs env es st st'"
proof (cases "op \<in> set logical_operators")
  case True
  then obtain s where op: "(op, s) \<in> {(js ''&&'', False), (js ''||'', True)}"
    by (auto simp: logical_operators_def)
  from b op obtain a st1 where a: "boolean (evaluate env) l st = Inr (a, st1)"
    and rest: "if a = s then v = rv (J_bool s) \<and> st' = st1
      else \<exists>t. boolean (evaluate env) r st1 = Inr (t, st') \<and> v = rv (J_bool t)"
    by (auto simp: binary_def split: if_splits elim!: rbind_pairE)
  obtain va es where va: "eval env l va es" "rv_value va = J_bool a" "runs env es st st1"
    using boolean_ran [OF l a ok] by blast
  show ?thesis
  proof (cases "a = s")
    case True
    with rest va op show ?thesis by (auto intro: eval_short)
  next
    case False
    with rest obtain t where t: "boolean (evaluate env) r st1 = Inr (t, st')" "v = rv (J_bool t)" by auto
    obtain vb es' where vb: "eval env r vb es'" "rv_value vb = J_bool t" "runs env es' st1 st'"
      using boolean_ran [OF r t(1) runs_times_ok [OF va(3)]] by blast
    have "rv_value va = J_bool (\<not> s)" using va(2) False by auto
    from eval_long [OF op va(1) this vb(1,2)] runs_append [OF va(3) vb(3)] t(2) show ?thesis by blast
  qed
next
  case False
  then have "op \<noteq> js ''&&''" "op \<noteq> js ''||''" by (auto simp: logical_operators_def)
  with b obtain a st1 c where a: "evaluate env l st = Inr (a, st1)" and c: "evaluate env r st1 = Inr (c, st')"
    and v: "binary_values op i a c = Inr v"
    by (auto simp: binary_def rbind_eq_Inr elim!: rbind_pairE)
  obtain es where es: "eval env l a es" "runs env es st st1" using sound_atE [OF l a ok] .
  obtain es' where es': "eval env r c es'" "runs env es' st1 st'"
    using sound_atE [OF r c runs_times_ok [OF es(2)]] .
  from eval_strict [OF False es(1) es'(1) v] runs_append [OF es(2) es'(2)] show ?thesis by blast
qed

lemma string_arg_ran:
  assumes "\<And>a. a \<in> set as \<Longrightarrow> sound_at env a" "times_ok env st"
    and "with_arg as 0 (\<lambda>a. string_value (evaluate env) a st) = Inr (s, st')"
  obtains a as' v es where "as = a # as'" "eval env a v es" "rv_value v = J_string s" "runs env es st st'"
proof -
  from assms(3) obtain a as' where as: "as = a # as'" and a: "string_value (evaluate env) a st = Inr (s, st')"
    by (rule with_arg_0)
  have "sound_at env a" using assms(1) as by simp
  from string_ran [OF this a assms(2)] that [OF as] show thesis .
qed

lemma numeric_arg_ran:
  assumes "\<And>a. a \<in> set as \<Longrightarrow> sound_at env a" "times_ok env st"
    and "with_arg as 0 (\<lambda>a. numeric (evaluate env) a st) = Inr ((x, i), st')"
  obtains a as' v es where "as = a # as'" "eval env a v es" "rv_value v = J_number x" "runs env es st st'"
proof -
  from assms(3) obtain a as' where as: "as = a # as'" and a: "numeric (evaluate env) a st = Inr ((x, i), st')"
    by (rule with_arg_0)
  have "sound_at env a" using assms(1) as by simp
  from numeric_ran [OF this a assms(2)] that [OF as] show thesis by metis
qed

lemma numeric_arg1_ran:
  assumes "\<And>c. c \<in> set (a # as) \<Longrightarrow> sound_at env c" "times_ok env st"
    and "with_arg (a # as) 1 (\<lambda>a. numeric (evaluate env) a st) = Inr ((x, i), st')"
  obtains b as' v es where "as = b # as'" "eval env b v es" "rv_value v = J_number x" "runs env es st st'"
proof -
  from assms(3) obtain b as' where as: "as = b # as'" and b: "numeric (evaluate env) b st = Inr ((x, i), st')"
    by (rule with_arg_1)
  have "sound_at env b" using assms(1) as by simp
  from numeric_ran [OF this b assms(2)] that [OF as] show thesis by metis
qed

lemma numeric_single_ran:
  assumes "\<And>a. a \<in> set as \<Longrightarrow> sound_at env a" "times_ok env st" "(f, g) \<in> set single_functions"
    and "numeric_single (evaluate env) as g st = Inr (v, st')"
  shows "\<exists>es. eval_node env (Call f as i j) v es \<and> runs env es st st'"
proof -
  from assms(4) obtain x b where x: "with_arg as 0 (\<lambda>a. numeric (evaluate env) a st) = Inr ((x, b), st')"
    and v: "v = rv (J_number (g x))"
    by (auto simp: numeric_single_def elim!: rbind_pairE)
  from numeric_arg_ran [OF assms(1,2) x] obtain a as' w es
    where "as = a # as'" "eval env a w es" "rv_value w = J_number x" "runs env es st st'" .
  with v assms(3) show ?thesis by (blast intro: eval_single)
qed

lemma numeric_pair_ran:
  assumes "\<And>a. a \<in> set as \<Longrightarrow> sound_at env a" "times_ok env st" "(f, g) \<in> set pair_functions"
    and "numeric_pair (evaluate env) as g st = Inr (v, st')"
  shows "\<exists>es. eval_node env (Call f as i j) v es \<and> runs env es st st'"
proof -
  from assms(4) obtain x c st1 y d where x: "with_arg as 0 (\<lambda>a. numeric (evaluate env) a st) = Inr ((x, c), st1)"
    and y: "with_arg as 1 (\<lambda>a. numeric (evaluate env) a st1) = Inr ((y, d), st')" and v: "v = rv (J_number (g x y))"
    by (auto simp: numeric_pair_def elim!: rbind_pairE)
  from numeric_arg_ran [OF assms(1,2) x] obtain a as' w es
    where as: "as = a # as'" and w: "eval env a w es" "rv_value w = J_number x" "runs env es st st1" .
  from numeric_arg1_ran [OF assms(1) [unfolded as] runs_times_ok [OF w(3)] y [unfolded as]]
  obtain b as'' w' es' where b: "as' = b # as''" "eval env b w' es'" "rv_value w' = J_number y" "runs env es' st1 st'" .
  from eval_pair [OF assms(3) w(1,2) b(2,3)] runs_append [OF w(3) b(4)] show ?thesis by (auto simp: v as b(1))
qed

lemma tier_ran:
  assumes "\<And>a. a \<in> set as \<Longrightarrow> sound_at env a" "times_ok env st"
    and "call_fun env (evaluate env) (js ''tier'') as i st = Inr (v, st')"
  shows "\<exists>es. eval_node env (Call (js ''tier'') as i j) v es \<and> runs env es st st'"
proof -
  from assms(3) obtain name st1 x d st2 where n: "with_arg as 0 (\<lambda>a. string_value (evaluate env) a st) = Inr (name, st1)"
    and x: "with_arg as 1 (\<lambda>a. numeric (evaluate env) a st1) = Inr ((x, d), st2)" and v: "v = rv (J_number x)"
    and st': "st' = st2\<lparr>rt_tier := name\<rparr>"
    by (auto simp: call_fun_def elim!: rbind_pairE)
  from string_arg_ran [OF assms(1,2) n] obtain a as' w es
    where as: "as = a # as'" and w: "eval env a w es" "rv_value w = J_string name" "runs env es st st1" .
  from numeric_arg1_ran [OF assms(1) [unfolded as] runs_times_ok [OF w(3)] x [unfolded as]]
  obtain b as'' w' es' where b: "as' = b # as''" "eval env b w' es'" "rv_value w' = J_number x" "runs env es' st1 st2" .
  have "runs env (es @ es' @ [Tier name]) st st'"
    using runs_event [OF runs_append [OF w(3) b(4)], of "Tier name"] st' by simp
  with eval_tier [OF w(1,2) b(2,3)] show ?thesis by (auto simp: v as b(1))
qed

lemma call_has_contains:
  "call_has ev as st =
     rbind (with_arg as 0 (\<lambda>a. ev a st)) (\<lambda>(src, st1).
     rbind (with_arg as 1 (\<lambda>b. string_value ev b st1)) (\<lambda>(sub, st2).
     rbind (contains_text (rv_value src) sub) (\<lambda>t. Inr (rv (J_bool t), st2))))"
  unfolding call_has_def contains_text_def
  by (intro rbind_cong refl) (auto simp: rbind_assoc intro!: rbind_cong)

lemma has_ran:
  assumes "\<And>a. a \<in> set as \<Longrightarrow> sound_at env a" "times_ok env st"
    and "call_has (evaluate env) as st = Inr (v, st')"
  shows "\<exists>es. eval_node env (Call (js ''has'') as i j) v es \<and> runs env es st st'"
proof -
  from assms(3) obtain w st1 sub t where w: "with_arg as 0 (\<lambda>a. evaluate env a st) = Inr (w, st1)"
    and s: "with_arg as 1 (\<lambda>a. string_value (evaluate env) a st1) = Inr (sub, st')"
    and t: "contains_text (rv_value w) sub = Inr t" and v: "v = rv (J_bool t)"
    by (auto simp: call_has_contains rbind_eq_Inr elim!: rbind_pairE)
  from w obtain a as' where as: "as = a # as'" and a: "evaluate env a st = Inr (w, st1)" by (rule with_arg_0)
  from sound_atE [OF assms(1) a assms(2)] as obtain es where es: "eval env a w es" "runs env es st st1" by auto
  from s [unfolded as] obtain b as'' where b: "as' = b # as''" "string_value (evaluate env) b st1 = Inr (sub, st')"
    by (rule with_arg_1)
  have "sound_at env b" using assms(1) as b(1) by simp
  from string_ran [OF this b(2) runs_times_ok [OF es(2)]]
  obtain w' es' where w': "eval env b w' es'" "rv_value w' = J_string sub" "runs env es' st1 st'" .
  from eval_has [OF es(1) w'(1,2) t] runs_append [OF es(2) w'(3)] show ?thesis by (auto simp: v as b(1))
qed

lemma call_ran:
  assumes s: "\<And>a. a \<in> set as \<Longrightarrow> sound_at env a" and ok: "times_ok env st"
    and c: "call_fun env (evaluate env) f as i st = Inr (v, st')"
  shows "\<exists>es. eval_node env (Call f as i j) v es \<and> runs env es st st'"
proof -
  consider (fixed) "f = js ''fixed''" | (tier) "f = js ''tier''" | (param) "f = js ''param''"
    | (header) "f = js ''header''" | (usage) "f = js ''u''" | (has) "f = js ''has''"
    | (pair) g where "(f, g) \<in> set pair_functions" "numeric_pair (evaluate env) as g st = Inr (v, st')"
    | (single) g where "(f, g) \<in> set single_functions" "numeric_single (evaluate env) as g st = Inr (v, st')"
    | (time) "f \<in> set TIME_FUNCTIONS"
    using c unfolding call_fun_def pair_functions_def single_functions_def
    by (auto split: if_splits)
  then show ?thesis
  proof cases
    case fixed
    with c obtain x b st1 where x: "with_arg as 0 (\<lambda>a. numeric (evaluate env) a st) = Inr ((x, b), st1)"
      and v: "v = rv (J_number (js_mul x (num 1000000)))"
      and st': "st' = st1\<lparr>rt_unit := Unit_request, rt_fixed := Some x\<rparr>"
      by (auto simp: call_fun_def elim!: rbind_pairE)
    from numeric_arg_ran [OF s ok x] obtain a as' w es
      where "as = a # as'" "eval env a w es" "rv_value w = J_number x" and r: "runs env es st st1" .
    with v fixed runs_event [OF r, of "Fixed x"] st' show ?thesis by (auto intro: eval_fixed)
  next
    case tier
    with tier_ran s ok c show ?thesis by blast
  next
    case param
    with c obtain p r w where p: "with_arg as 0 (\<lambda>a. string_value (evaluate env) a st) = Inr (p, st')"
      and "ctx_request (env_context env) = Some r" "readRequestPath (req_body r) p = Inr w" "v = rv w"
      by (auto simp: call_fun_def rbind_eq_Inr split: option.splits elim!: rbind_pairE)
    with string_arg_ran [OF s ok p] param show ?thesis by (metis eval_param)
  next
    case header
    with c obtain p r where p: "with_arg as 0 (\<lambda>a. string_value (evaluate env) a st) = Inr (p, st')"
      and "ctx_request (env_context env) = Some r" "v = rv (J_string (header_value env p))"
      by (auto simp: call_fun_def header_value_def split: option.splits elim!: rbind_pairE)
    with string_arg_ran [OF s ok p] header show ?thesis by (metis eval_header)
  next
    case usage
    with c obtain p us where p: "with_arg as 0 (\<lambda>a. string_value (evaluate env) a st) = Inr (p, st')"
      and "ctx_usage (env_context env) = Some us" "v = rv (case map_of us p of Some w \<Rightarrow> w | None \<Rightarrow> J_null)"
      by (auto simp: call_fun_def split: option.splits elim!: rbind_pairE)
    with string_arg_ran [OF s ok p] usage show ?thesis by (metis eval_usage)
  next
    case has
    with has_ran [OF s ok] c show ?thesis by (auto simp: call_fun_def)
  next
    case pair
    with numeric_pair_ran [OF s ok] show ?thesis by blast
  next
    case single
    with numeric_single_ran [OF s ok] show ?thesis by blast
  next
    case time
    then have "f \<notin> set (map js [''fixed'', ''tier'', ''param'', ''header'', ''u'', ''has'', ''min'', ''max'', ''abs'', ''floor'', ''ceil''])"
      by (auto simp: TIME_FUNCTIONS_def)
    with c time obtain z st1 tv where z: "with_arg as 0 (\<lambda>a. string_value (evaluate env) a st) = Inr (z, st1)"
      and l: "lookup_times env (trim z) st1 = Inr (tv, st')"
      and v: "v = \<lparr>rv_value = J_number (time_value f tv), rv_integer = True\<rparr>"
      by (auto simp: call_fun_def elim!: rbind_pairE)
    from string_arg_ran [OF s ok z] obtain a as' w es
      where "as = a # as'" "eval env a w es" "rv_value w = J_string z" and r: "runs env es st st1" .
    with v time runs_lookup [OF r l] show ?thesis by (blast intro: eval_time)
  qed
qed

lemma evaluateNode_ran:
  assumes s: "\<And>c. c \<in> set (children n) \<Longrightarrow> sound_at env c" and ok: "times_ok env st"
    and e: "evaluateNode env (evaluate env) n st = Inr (v, st')"
  shows "\<exists>es. eval_node env n v es \<and> runs env es st st'"
proof (cases n)
  case (Literal l b i j)
  with e ok show ?thesis by (auto simp: evaluateNode_def intro: eval_literal runs_Nil)
next
  case (Variable x i j)
  with e ok show ?thesis by (auto simp: evaluateNode_def rbind_eq_Inr intro: eval_variable runs_Nil)
next
  case (Call f as i j)
  with call_ran [of as env st f i v st'] s ok e show ?thesis by (simp add: evaluateNode_def)
next
  case (Unary op x i j)
  then have x: "sound_at env x" using s by simp
  show ?thesis
  proof (cases "op = js ''!''")
    case True
    with e Unary obtain b where b: "boolean (evaluate env) x st = Inr (b, st')" and v: "v = rv (J_bool (\<not> b))"
      by (auto simp: evaluateNode_def elim!: rbind_pairE)
    from boolean_ran [OF x b ok] Unary True v show ?thesis by (metis eval_not)
  next
    case False
    with e Unary obtain k b where b: "numeric (evaluate env) x st = Inr ((k, b), st')"
      and v: "v = \<lparr>rv_value = J_number (if op = js ''-'' then js_neg k else k), rv_integer = b\<rparr>"
      by (auto simp: evaluateNode_def elim!: rbind_pairE)
    from numeric_ran [OF x b ok] obtain w es
      where "eval env x w es" "rv_value w = J_number k" "rv_integer w = b" "runs env es st st'" .
    with Unary False v eval_sign [OF False, of env x w es k i j] show ?thesis by auto
  qed
next
  case (Binary op l r i j)
  with binary_ran [of env l r op i st v st' j] s ok e show ?thesis by (simp add: evaluateNode_def)
next
  case (Conditional c y m i j)
  with e obtain b st1 where b: "boolean (evaluate env) c st = Inr (b, st1)"
    and r: "evaluate env (if b then y else m) (mark_rule env n b st1) = Inr (v, st')"
    by (auto simp: evaluateNode_def elim!: rbind_pairE)
  have c: "sound_at env c" and br: "sound_at env (if b then y else m)" using s Conditional by auto
  from boolean_ran [OF c b ok] obtain w es where w: "eval env c w es" "rv_value w = J_bool b" "runs env es st st1" .
  have m: "runs env (es @ (if b then [Matched n] else [])) st (mark_rule env n b st1)"
    using runs_event [OF w(3), of "Matched n"] w(3) by (cases b) simp_all
  from sound_atE [OF br r runs_times_ok [OF m]] obtain es' where es': "eval env (if b then y else m) v es'"
    "runs env es' (mark_rule env n b st1) st'" .
  from eval_conditional [OF w(1,2) es'(1), of i j] runs_append [OF m es'(2)] Conditional
  show ?thesis by (metis append_assoc)
qed

theorem evaluate_sound: "sound_at env n"
proof (induction n rule: node_induct_children)
  case (1 n)
  show ?case unfolding sound_at_def
  proof (intro allI impI)
    fix st v st' assume e: "evaluate env n st = Inr (v, st')" and ok: "times_ok env st"
    let ?st = "st\<lparr>rt_depth := Suc (rt_depth st)\<rparr>"
    from e obtain w st1 where w: "evaluateNode env (evaluate env) n ?st = Inr (w, st1)"
      and c: "check_value (node_start n) w = Inr v" and st': "st' = st1\<lparr>rt_depth := rt_depth st1 - 1\<rparr>"
      by (subst (asm) evaluate.simps) (auto simp: rbind_eq_Inr split: if_splits elim!: rbind_pairE)
    have "times_ok env ?st" using ok by (simp add: times_ok_def)
    from evaluateNode_ran [OF "1.IH" this w] obtain es where "eval_node env n w es" "runs env es ?st st1" by blast
    with c st' show "\<exists>es. eval env n v es \<and> runs env es st st'"
      by (blast intro: eval_checked runs_enter_leave)
  qed
qed

section \<open>The evaluator produces everything the semantics derives\<close>

text \<open>A state from which a tree of the given height can be evaluated.\<close>

definition roomy :: "runtime_env \<Rightarrow> nat \<Rightarrow> runtime \<Rightarrow> bool" where
  "roomy env h st \<longleftrightarrow> times_ok env st \<and> rt_depth st + h \<le> 255"

lemma roomy_runs: "roomy env h st \<Longrightarrow> runs env es st st' \<Longrightarrow> roomy env h st'"
  by (simp add: roomy_def runs_times_ok runs_depth)

lemma roomy_mark: "roomy env h (mark_rule env n b st) \<longleftrightarrow> roomy env h st"
  by (simp add: roomy_def times_ok_def)

lemma roomy_children:
  "roomy env (height n) st \<Longrightarrow> c \<in> set (children n) \<Longrightarrow>
     roomy env (height c) (st\<lparr>rt_depth := Suc (rt_depth st)\<rparr>)"
  using height_le_iff [of n "height n"] by (force simp: roomy_def times_ok_def)

definition complete_at :: "runtime_env \<Rightarrow> node \<Rightarrow> rvalue \<Rightarrow> event list \<Rightarrow> bool" where
  "complete_at env n v es \<longleftrightarrow> (\<forall>st. roomy env (height n) st \<longrightarrow>
     (\<exists>st'. evaluate env n st = Inr (v, st') \<and> runs env es st st'))"

definition complete_node :: "runtime_env \<Rightarrow> node \<Rightarrow> rvalue \<Rightarrow> event list \<Rightarrow> bool" where
  "complete_node env n v es \<longleftrightarrow> (\<forall>st. times_ok env st \<longrightarrow> (\<forall>c \<in> set (children n). roomy env (height c) st) \<longrightarrow>
     (\<exists>st'. evaluateNode env (evaluate env) n st = Inr (v, st') \<and> runs env es st st'))"

lemma complete_atE:
  assumes "complete_at env n v es" "roomy env (height n) st"
  obtains st' where "evaluate env n st = Inr (v, st')" "runs env es st st'"
  using assms unfolding complete_at_def by blast

lemma boolean_complete:
  assumes "complete_at env n v es" "roomy env (height n) st" "rv_value v = J_bool b"
  obtains st' where "boolean (evaluate env) n st = Inr (b, st')" "runs env es st st'"
  by (rule complete_atE [OF assms(1,2)]) (use assms(3) that in \<open>simp add: boolean_def\<close>)

lemma numeric_complete:
  assumes "complete_at env n v es" "roomy env (height n) st" "rv_value v = J_number x"
  obtains st' where "numeric (evaluate env) n st = Inr ((x, rv_integer v), st')" "runs env es st st'"
  by (rule complete_atE [OF assms(1,2)]) (use assms(3) that in \<open>simp add: numeric_def\<close>)

lemma string_complete:
  assumes "complete_at env n v es" "roomy env (height n) st" "rv_value v = J_string s"
  obtains st' where "string_value (evaluate env) n st = Inr (s, st')" "runs env es st st'"
  by (rule complete_atE [OF assms(1,2)]) (use assms(3) that in \<open>simp add: string_value_def\<close>)

lemma with_arg_simps [simp]:
  "with_arg (a # as) 0 f = f a" "with_arg (a # b # as) (Suc 0) f = f b"
  by (simp_all add: with_arg_def)

lemma complete_nodeI:
  assumes "\<And>st. times_ok env st \<Longrightarrow> (\<And>c. c \<in> set (children n) \<Longrightarrow> roomy env (height c) st) \<Longrightarrow>
    \<exists>st'. evaluateNode env (evaluate env) n st = Inr (v, st') \<and> runs env es st st'"
  shows "complete_node env n v es"
  using assms by (auto simp: complete_node_def)

lemma complete_checked:
  assumes "complete_node env n v es" "check_value (node_start n) v = Inr w"
  shows "complete_at env n w es"
  unfolding complete_at_def
proof (intro allI impI)
  fix st assume r: "roomy env (height n) st"
  let ?st = "st\<lparr>rt_depth := Suc (rt_depth st)\<rparr>"
  have "times_ok env ?st" using r by (simp add: roomy_def times_ok_def)
  with assms(1) roomy_children [OF r] obtain st' where st': "evaluateNode env (evaluate env) n ?st = Inr (v, st')"
    "runs env es ?st st'" by (auto simp: complete_node_def)
  have "evaluate env n st = Inr (w, st'\<lparr>rt_depth := rt_depth st' - 1\<rparr>)"
    using r st'(1) assms(2) by (subst evaluate.simps) (simp add: roomy_def)
  with runs_enter_leave [OF st'(2)] show "\<exists>st'. evaluate env n st = Inr (w, st') \<and> runs env es st st'" by blast
qed

lemma time_not_numeric:
  "f \<in> set TIME_FUNCTIONS \<Longrightarrow> f \<noteq> js ''fixed''" "f \<in> set TIME_FUNCTIONS \<Longrightarrow> f \<noteq> js ''min''"
  "f \<in> set TIME_FUNCTIONS \<Longrightarrow> f \<noteq> js ''max''" "f \<in> set TIME_FUNCTIONS \<Longrightarrow> f \<noteq> js ''abs''"
  "f \<in> set TIME_FUNCTIONS \<Longrightarrow> f \<noteq> js ''floor''" "f \<in> set TIME_FUNCTIONS \<Longrightarrow> f \<noteq> js ''ceil''"
  by (auto simp: TIME_FUNCTIONS_def)

lemma complete_conditional:
  assumes c: "complete_at env c b es" "rv_value b = J_bool t" and br: "complete_at env (if t then y else n) v es'"
  shows "complete_node env (Conditional c y n i j) v (es @ (if t then [Matched (Conditional c y n i j)] else []) @ es')"
    (is "complete_node env ?n v (es @ ?m @ es')")
proof (rule complete_nodeI)
  fix st assume ch: "\<And>m. m \<in> set (children ?n) \<Longrightarrow> roomy env (height m) st"
  have rc: "roomy env (height c) st" using ch by simp
  obtain st1 where st1: "boolean (evaluate env) c st = Inr (t, st1)" "runs env es st st1"
    using boolean_complete [OF c(1) rc c(2)] .
  have m: "runs env (es @ ?m) st (mark_rule env ?n t st1)"
    using runs_event [OF st1(2), of "Matched ?n"] st1(2) by (cases t) simp_all
  have rb: "roomy env (height (if t then y else n)) (mark_rule env ?n t st1)"
    using ch by (intro roomy_runs [OF _ m]) (cases t; simp)
  obtain st2 where st2: "evaluate env (if t then y else n) (mark_rule env ?n t st1) = Inr (v, st2)"
    "runs env es' (mark_rule env ?n t st1) st2"
    using complete_atE [OF br rb] .
  have "evaluateNode env (evaluate env) ?n st = Inr (v, st2)"
    using st1(1) st2(1) by (simp add: evaluateNode_def)
  then show "\<exists>st'. evaluateNode env (evaluate env) ?n st = Inr (v, st') \<and> runs env (es @ ?m @ es') st st'"
    using runs_append [OF m st2(2)] by auto
qed

lemma eval_complete:
  "eval env n v es \<Longrightarrow> complete_at env n v es"
  "eval_node env n v es \<Longrightarrow> complete_node env n v es"
proof (induction rule: eval_eval_node.inducts)
  case (eval_checked n v es w)
  then show ?case by (intro complete_checked)
next
  case (eval_literal l b i j)
  show ?case by (rule complete_nodeI) (simp add: evaluateNode_def runs_Nil)
next
  case (eval_variable x i v j)
  then show ?case by (intro complete_nodeI) (simp add: evaluateNode_def runs_Nil)
next
  case (eval_conditional c b es t y n v es' i j)
  show ?case
    by (rule complete_conditional [OF eval_conditional.IH(2) eval_conditional.hyps(1) eval_conditional.IH(4)])
next
  case (eval_not x v es b i j)
  show ?case
    by (rule complete_nodeI, rule boolean_complete [OF eval_not.IH(2) _ eval_not.hyps(1)])
      (auto simp: evaluateNode_def)
next
  case (eval_sign op x v es k i j)
  show ?case
    by (rule complete_nodeI, rule numeric_complete [OF eval_sign.IH(2) _ eval_sign.hyps(2)])
      (use eval_sign.hyps(1) in \<open>auto simp: evaluateNode_def\<close>)
next
  case (eval_short op s l a es r i j)
  show ?case
    by (rule complete_nodeI, rule boolean_complete [OF eval_short.IH(2) _ eval_short.hyps(2)])
      (use eval_short.hyps(1) in \<open>auto simp: evaluateNode_def binary_def\<close>)
next
  case (eval_long op s l a es r b es' t i j)
  show ?case
  proof (rule complete_nodeI)
    fix st assume ch: "\<And>m. m \<in> set (children (Binary op l r i j)) \<Longrightarrow> roomy env (height m) st"
    obtain st1 where st1: "boolean (evaluate env) l st = Inr (\<not> s, st1)" "runs env es st st1"
      by (rule boolean_complete [OF eval_long.IH(2) _ eval_long.hyps(2)]) (use ch in auto)
    obtain st2 where "boolean (evaluate env) r st1 = Inr (t, st2)" "runs env es' st1 st2"
      by (rule boolean_complete [OF eval_long.IH(4) _ eval_long.hyps(3)]) (use ch in \<open>auto intro: roomy_runs [OF _ st1(2)]\<close>)
    with st1 eval_long.hyps(1) show "\<exists>st'. evaluateNode env (evaluate env) (Binary op l r i j) st = Inr (rv (J_bool t), st') \<and>
        runs env (es @ es') st st'"
      by (auto simp: evaluateNode_def binary_def intro: runs_append)
  qed
next
  case (eval_strict op l a es r b es' i v j)
  show ?case
  proof (rule complete_nodeI)
    fix st assume ch: "\<And>m. m \<in> set (children (Binary op l r i j)) \<Longrightarrow> roomy env (height m) st"
    obtain st1 where st1: "evaluate env l st = Inr (a, st1)" "runs env es st st1"
      by (rule complete_atE [OF eval_strict.IH(2)]) (use ch in auto)
    obtain st2 where "evaluate env r st1 = Inr (b, st2)" "runs env es' st1 st2"
      by (rule complete_atE [OF eval_strict.IH(4)]) (use ch in \<open>auto intro: roomy_runs [OF _ st1(2)]\<close>)
    with st1 eval_strict.hyps(1,2) show "\<exists>st'. evaluateNode env (evaluate env) (Binary op l r i j) st = Inr (v, st') \<and>
        runs env (es @ es') st st'"
      by (auto simp: evaluateNode_def binary_def logical_operators_def intro: runs_append)
  qed
next
  case (eval_fixed a v es x as i j)
  show ?case
    by (rule complete_nodeI, rule numeric_complete [OF eval_fixed.IH(2) _ eval_fixed.hyps(1)])
      (auto simp: evaluateNode_def call_fun_def intro: runs_event [where e = "Fixed x", simplified])
next
  case (eval_tier a v es name b w es' x as i j)
  show ?case
  proof (rule complete_nodeI)
    fix st assume ch: "\<And>m. m \<in> set (children (Call (js ''tier'') (a # b # as) i j)) \<Longrightarrow> roomy env (height m) st"
    obtain st1 where st1: "string_value (evaluate env) a st = Inr (name, st1)" "runs env es st st1"
      by (rule string_complete [OF eval_tier.IH(2) _ eval_tier.hyps(1)]) (use ch in auto)
    obtain st2 where st2: "numeric (evaluate env) b st1 = Inr ((x, rv_integer w), st2)" "runs env es' st1 st2"
      by (rule numeric_complete [OF eval_tier.IH(4) _ eval_tier.hyps(2)]) (use ch in \<open>auto intro: roomy_runs [OF _ st1(2)]\<close>)
    have "runs env (es @ es' @ [Tier name]) st (st2\<lparr>rt_tier := name\<rparr>)"
      using runs_event [OF runs_append [OF st1(2) st2(2)], of "Tier name"] by simp
    with st1(1) st2(1) show "\<exists>st'. evaluateNode env (evaluate env) (Call (js ''tier'') (a # b # as) i j) st =
        Inr (rv (J_number x), st') \<and> runs env (es @ es' @ [Tier name]) st st'"
      by (simp add: evaluateNode_def call_fun_def)
  qed
next
  case (eval_param a v es path r w as i j)
  show ?case
    by (rule complete_nodeI, rule string_complete [OF eval_param.IH(2) _ eval_param.hyps(1)])
      (use eval_param.hyps(2) eval_param.IH(3) in \<open>auto simp: evaluateNode_def call_fun_def\<close>)
next
  case (eval_header a v es name r as i j)
  show ?case
    by (rule complete_nodeI, rule string_complete [OF eval_header.IH(2) _ eval_header.hyps(1)])
      (use eval_header.IH(3) in \<open>auto simp: evaluateNode_def call_fun_def header_value_def\<close>)
next
  case (eval_usage a v es name us as i j)
  show ?case
    by (rule complete_nodeI, rule string_complete [OF eval_usage.IH(2) _ eval_usage.hyps(1)])
      (use eval_usage.IH(3) in \<open>auto simp: evaluateNode_def call_fun_def\<close>)
next
  case (eval_has a v es b w es' sub t as i j)
  show ?case
  proof (rule complete_nodeI)
    fix st assume ch: "\<And>m. m \<in> set (children (Call (js ''has'') (a # b # as) i j)) \<Longrightarrow> roomy env (height m) st"
    obtain st1 where st1: "evaluate env a st = Inr (v, st1)" "runs env es st st1"
      by (rule complete_atE [OF eval_has.IH(2)]) (use ch in auto)
    obtain st2 where "string_value (evaluate env) b st1 = Inr (sub, st2)" "runs env es' st1 st2"
      by (rule string_complete [OF eval_has.IH(4) _ eval_has.hyps(1)]) (use ch in \<open>auto intro: roomy_runs [OF _ st1(2)]\<close>)
    with st1 eval_has.hyps(2) show "\<exists>st'. evaluateNode env (evaluate env) (Call (js ''has'') (a # b # as) i j) st =
        Inr (rv (J_bool t), st') \<and> runs env (es @ es') st st'"
      by (auto simp: evaluateNode_def call_fun_def call_has_contains intro: runs_append)
  qed
next
  case (eval_pair f g a v es x b w es' y as i j)
  show ?case
  proof (rule complete_nodeI)
    fix st assume ch: "\<And>m. m \<in> set (children (Call f (a # b # as) i j)) \<Longrightarrow> roomy env (height m) st"
    obtain st1 where st1: "numeric (evaluate env) a st = Inr ((x, rv_integer v), st1)" "runs env es st st1"
      by (rule numeric_complete [OF eval_pair.IH(2) _ eval_pair.hyps(2)]) (use ch in auto)
    obtain st2 where "numeric (evaluate env) b st1 = Inr ((y, rv_integer w), st2)" "runs env es' st1 st2"
      by (rule numeric_complete [OF eval_pair.IH(4) _ eval_pair.hyps(3)]) (use ch in \<open>auto intro: roomy_runs [OF _ st1(2)]\<close>)
    with st1 eval_pair.hyps(1) show "\<exists>st'. evaluateNode env (evaluate env) (Call f (a # b # as) i j) st =
        Inr (rv (J_number (g x y)), st') \<and> runs env (es @ es') st st'"
      by (auto simp: evaluateNode_def call_fun_def pair_functions_def numeric_pair_def intro: runs_append)
  qed
next
  case (eval_single f g a v es x as i j)
  show ?case
    by (rule complete_nodeI, rule numeric_complete [OF eval_single.IH(2) _ eval_single.hyps(2)])
      (use eval_single.hyps(1) in \<open>auto simp: evaluateNode_def call_fun_def single_functions_def numeric_single_def\<close>)
next
  case (eval_time f a v es zone tv as i j)
  show ?case
  proof (rule complete_nodeI)
    fix st assume ch: "\<And>m. m \<in> set (children (Call f (a # as) i j)) \<Longrightarrow> roomy env (height m) st"
    obtain st1 where st1: "string_value (evaluate env) a st = Inr (zone, st1)" "runs env es st st1"
      by (rule string_complete [OF eval_time.IH(2) _ eval_time.hyps(2)]) (use ch in auto)
    obtain tm where l: "lookup_times env (trim zone) st1 = Inr (tv, st1\<lparr>rt_times := tm\<rparr>)"
      using lookup_times_total [OF runs_times_ok [OF st1(2)] eval_time.IH(3)] by blast
    with runs_lookup [OF st1(2) l] st1(1) eval_time.hyps(1) time_function_names [OF eval_time.hyps(1)]
    show "\<exists>st'. evaluateNode env (evaluate env) (Call f (a # as) i j) st =
        Inr (\<lparr>rv_value = J_number (time_value f tv), rv_integer = True\<rparr>, st') \<and> runs env es st st'"
      by (simp add: evaluateNode_def call_fun_def time_not_numeric)
  qed
qed

text \<open>
  Evaluation implements the semantics: a tree that is not too deep evaluates to a value
  exactly when the semantics derives it, and the state then is the initial one with the
  events applied.
\<close>

theorem evaluate_iff:
  assumes "times_ok env st" "rt_depth st + height n \<le> 255"
  shows "(\<exists>st'. evaluate env n st = Inr (v, st')) \<longleftrightarrow> (\<exists>es. eval env n v es)"
  using evaluate_sound [of env n] eval_complete(1) [of env n v] assms
  unfolding sound_at_def complete_at_def roomy_def by metis

end
