(* ===== verification/EvalFacts.thy ===== *)
theory EvalFacts
  imports Semantics
begin

text \<open>
  Consequences of the big-step semantics: the static types describe the values, integer
  arithmetic is exact, a request rule is reported as matched exactly when its condition
  held, and an expression with a fixed price goes through exactly one tier.
\<close>

section \<open>Remainders of integers are exact\<close>

definition trunc_rem :: "int \<Rightarrow> int \<Rightarrow> int" where
  "trunc_rem a b = sgn a * (\<bar>a\<bar> mod \<bar>b\<bar>)"

lemma scaled_mod:
  fixes A B a b g :: int
  assumes "of_int A * (2 :: rat) powi g = of_int a" "of_int B * (2 :: rat) powi g = of_int b"
  shows "of_int (A mod B) * (2 :: rat) powi g = of_int (a mod b)"
proof (cases "0 \<le> g")
  case True
  then have p: "(2 :: rat) powi g = of_int (2 ^ nat g)" by (simp add: power_int_def)
  have "a = A * 2 ^ nat g" "b = B * 2 ^ nat g"
    using assms unfolding p of_int_mult [symmetric] of_int_eq_iff by simp_all
  then have "a mod b = (A mod B) * 2 ^ nat g" by (simp add: mod_mult_mult2)
  then show ?thesis unfolding p of_int_mult [symmetric] of_int_eq_iff by simp
next
  case False
  then have p: "(2 :: rat) powi g = 1 / of_int (2 ^ nat (- g))" by (simp add: two_powi_split [of g])
  have "of_int A = (of_int (a * 2 ^ nat (- g)) :: rat)" "of_int B = (of_int (b * 2 ^ nat (- g)) :: rat)"
    using assms unfolding p by (simp_all add: field_simps)
  then have e: "A = a * 2 ^ nat (- g)" "B = b * 2 ^ nat (- g)" unfolding of_int_eq_iff .
  then have "A mod B = (a mod b) * 2 ^ nat (- g)" by (simp add: mod_mult_mult2)
  then show ?thesis unfolding p by simp
qed

theorem js_mod_safe:
  assumes v: "valid_number x" "valid_number y" "is_finite x" "is_finite y"
    and x: "number_value x = of_int a" and y: "number_value y = of_int b"
    and safe: "is_safe_integer (js_mod x y)"
  shows "number_value (js_mod x y) = of_int (trunc_rem a b)" and "b \<noteq> 0"
proof -
  obtain s m e where xe: "x = Finite s m e" using v(3) by (cases x) auto
  obtain t n f where ye: "y = Finite t n f" using v(4) by (cases y) auto
  have n: "n \<noteq> 0" using safe by (auto simp: xe ye)
  define g where "g = min e f"
  define A B where "A = m * 2 ^ nat (e - g)" and "B = n * 2 ^ nat (f - g)"
  have pos: "0 \<le> m" "0 < n" using v n by (auto simp: xe ye)
  have sc: "of_int (k * 2 ^ nat (d - g)) * (2 :: rat) powi g = of_int k * 2 powi d" if "g \<le> d" for k d
  proof -
    have "(2 :: rat) ^ nat (d - g) * 2 powi g = 2 powi d"
      using that power_int_add [of "2 :: rat" "d - g" g] by (simp add: power_int_def [of _ "d - g"])
    then show ?thesis by (simp add: mult.assoc)
  qed
  have abs: "of_int m * (2 :: rat) powi e = of_int \<bar>a\<bar>" "of_int n * (2 :: rat) powi f = of_int \<bar>b\<bar>"
  proof -
    have "\<bar>number_value x\<bar> = of_int m * 2 powi e" "\<bar>number_value y\<bar> = of_int n * 2 powi f"
      using pos by (simp_all add: xe ye signed_def abs_mult)
    then show "of_int m * (2 :: rat) powi e = of_int \<bar>a\<bar>" "of_int n * (2 :: rat) powi f = of_int \<bar>b\<bar>"
      by (simp_all add: x y)
  qed
  have g: "g \<le> e" "g \<le> f" by (simp_all add: g_def)
  have "of_int A * (2 :: rat) powi g = of_int \<bar>a\<bar>" "of_int B * (2 :: rat) powi g = of_int \<bar>b\<bar>"
    unfolding A_def B_def sc [OF g(1)] sc [OF g(2)] by (fact abs)+
  then have "of_int (A mod B) * (2 :: rat) powi g = of_int (\<bar>a\<bar> mod \<bar>b\<bar>)" by (rule scaled_mod)
  then have r: "ratio ((A mod B) * 2 ^ nat g) (2 ^ nat (- g)) = of_int (\<bar>a\<bar> mod \<bar>b\<bar>)"
    by (simp add: ratio_def two_powi_split [of g])
  have mod: "js_mod x y = round_ratio s ((A mod B) * 2 ^ nat g) (2 ^ nat (- g))"
    using n by (simp add: xe ye A_def B_def g_def Let_def)
  have AB: "0 \<le> A mod B" using pos by (simp add: B_def)
  have "number_value (js_mod x y) = of_int (signed s (\<bar>a\<bar> mod \<bar>b\<bar>))"
    unfolding mod by (rule round_ratio_safe) (use AB r safe mod in simp_all)
  moreover have "signed s (\<bar>a\<bar> mod \<bar>b\<bar>) = trunc_rem a b"
  proof -
    have "(of_int a :: rat) = of_int (if s then - \<bar>a\<bar> else \<bar>a\<bar>)"
      using x abs(1) unfolding xe number_value.simps signed_def by (cases s) auto
    then have "a = (if s then - \<bar>a\<bar> else \<bar>a\<bar>)" unfolding of_int_eq_iff .
    then show ?thesis by (cases "a = 0") (auto simp: trunc_rem_def signed_def sgn_if split: if_splits)
  qed
  ultimately show "number_value (js_mod x y) = of_int (trunc_rem a b)" by simp
  show "b \<noteq> 0" using abs(2) pos by auto
qed

section \<open>Static types describe the values\<close>

text \<open>
  An addition of two dynamic operands has the static type of numbers but may concatenate
  strings, so that type admits strings as well.
\<close>

fun admits :: "expr_type \<Rightarrow> json \<Rightarrow> bool" where
  "admits T_number v = ((\<exists>x. v = J_number x) \<or> (\<exists>s. v = J_string s))"
| "admits T_string v = (\<exists>s. v = J_string s)"
| "admits T_boolean v = (\<exists>b. v = J_bool b)"
| "admits T_nil v = (v = J_null)"
| "admits T_dynamic v = True"

lemma check_value_same: "check_value p v = Inr w \<Longrightarrow> w = v"
  by (auto simp: check_value_def split: json.splits if_splits)

lemma binary_values_comparison:
  "binary_values op p a b = Inr v \<Longrightarrow> op \<in> set comparison_operators \<Longrightarrow> \<exists>t. rv_value v = J_bool t"
  by (auto simp: binary_values_def compare_values_def comparison_operators_def Let_def
      split: if_splits json.splits)

lemma compare_values_None: "op \<notin> set comparison_operators \<Longrightarrow> compare_values op a b = None"
  by (auto simp: compare_values_def comparison_operators_def split: json.splits)

lemma arithmetic_number: "arithmetic op p x y i = Inr v \<Longrightarrow> \<exists>z. rv_value v = J_number z"
  by (auto simp: arithmetic_def split: if_splits)

lemma binary_values_arith:
  assumes "binary_values op p a b = Inr v" "op \<notin> set comparison_operators"
  shows "(\<exists>z. rv_value v = J_number z) \<or>
    (\<exists>s t. rv_value a = J_string s \<and> rv_value b = J_string t \<and> rv_value v = J_string (s @ t))"
proof -
  have "op \<noteq> js ''==''" "op \<noteq> js ''!=''" using assms(2) by (auto simp: comparison_operators_def)
  with assms compare_values_None [OF assms(2)] show ?thesis
    by (auto simp: binary_values_def Let_def dest: arithmetic_number split: json.splits if_splits)
qed

lemma binary_values_concat:
  "rv_value a = J_string s \<Longrightarrow> rv_value b = J_string t \<Longrightarrow>
     binary_values (js ''+'') p a b = Inr (rv (J_string (s @ t)))"
  by (simp add: binary_values_def compare_values_def)

lemma typed_value:
  "eval env n v es \<Longrightarrow> typed n t \<Longrightarrow> admits t (rv_value v)"
  "eval_node env n v es \<Longrightarrow> typed n t \<Longrightarrow> admits t (rv_value v)"
proof (induction arbitrary: t and t rule: eval_eval_node.inducts)
  case (eval_checked n v es w)
  then show ?case by (auto dest: check_value_same)
next
  case (eval_literal l b i j)
  then show ?case by (cases l) (auto elim!: typed_LiteralE)
next
  case (eval_variable x i v j)
  then show ?case
    by (auto simp: variable_value_def Let_def elim!: typed_VariableE split: if_splits option.splits json.splits)
next
  case (eval_conditional c b es u y n v es' i j)
  from eval_conditional.prems obtain t1 t2 where ty: "typed y t1" "typed n t2" "t = (if t1 = t2 then t1 else T_dynamic)"
    unfolding typed_Conditional_iff by blast
  have "admits (if u then t1 else t2) (rv_value v)" by (rule eval_conditional.IH(4)) (use ty in auto)
  with ty(3) show ?case by (auto split: if_splits)
next
  case (eval_strict op l a es r b es' i v j)
  from eval_strict.prems eval_strict.hyps(1) consider "op \<in> set comparison_operators" "t = T_boolean"
    | "op = js ''+''" "typed l T_string" "typed r T_string" "t = T_string"
    | "op \<notin> set comparison_operators" "t = T_number"
    by (auto elim!: typed_BinaryE)
  then show ?case
  proof cases
    case 2
    then obtain s s' where "rv_value a = J_string s" "rv_value b = J_string s'"
      using eval_strict.IH(2,4) by fastforce
    with 2 eval_strict.hyps(2) show ?thesis by (auto simp: binary_values_concat)
  qed (use eval_strict.hyps(2) in \<open>auto dest: binary_values_comparison binary_values_arith\<close>)
qed (auto simp: pair_functions_def single_functions_def TIME_FUNCTIONS_def numeric_functions_def
    logical_operators_def elim!: typed_UnaryE typed_BinaryE typed_CallE)

section \<open>Integer arithmetic is exact\<close>

definition integer_operators :: "jsstring list" where
  "integer_operators = map js [''+'', ''-'', ''*'', ''%'']"

text \<open>Expressions built from integer literals and the operators that keep integers.\<close>

fun int_expr :: "node \<Rightarrow> bool" where
  "int_expr (Literal (NumberLit x) b i j) = b"
| "int_expr (Unary op x i j) = (op \<in> set (map js [''+'', ''-'']) \<and> int_expr x)"
| "int_expr (Binary op l r i j) = (op \<in> set integer_operators \<and> int_expr l \<and> int_expr r)"
| "int_expr _ = False"

text \<open>Their value over the mathematical integers.\<close>

fun int_value :: "node \<Rightarrow> int" where
  "int_value (Literal (NumberLit x) b i j) = \<lfloor>number_value x\<rfloor>"
| "int_value (Unary op x i j) = (if op = js ''-'' then - int_value x else int_value x)"
| "int_value (Binary op l r i j) =
     (if op = js ''+'' then int_value l + int_value r
      else if op = js ''-'' then int_value l - int_value r
      else if op = js ''*'' then int_value l * int_value r
      else trunc_rem (int_value l) (int_value r))"
| "int_value _ = 0"

definition exact_integer :: "rvalue \<Rightarrow> int \<Rightarrow> bool" where
  "exact_integer v k \<longleftrightarrow> rv_integer v \<and>
     (\<exists>x. rv_value v = J_number x \<and> valid_number x \<and> is_safe_integer x \<and> number_value x = of_int k)"

lemma safe_integer_value:
  assumes "valid_number x" "is_safe_integer x"
  shows "number_value x = of_int \<lfloor>number_value x\<rfloor>"
proof -
  obtain s m e where x: "x = Finite s m e" using assms(2) by (cases x) auto
  then obtain n where "(of_int m * 2 powi e :: rat) = of_int n" using is_safe_integer_value assms by blast
  then have "number_value x = of_int (signed s n)" by (simp add: x signed_def)
  then show ?thesis by simp
qed

lemma check_value_safe:
  "check_value p v = Inr w \<Longrightarrow> rv_integer v \<Longrightarrow> rv_value v = J_number x \<Longrightarrow> is_safe_integer x"
  by (auto simp: check_value_def split: if_splits)

lemma arithmetic_exact:
  assumes a: "exact_integer a k" and b: "exact_integer b l" and op: "op \<in> set integer_operators"
    and v: "binary_values op p a b = Inr v" and c: "check_value q v = Inr w"
  shows "exact_integer w (if op = js ''+'' then k + l else if op = js ''-'' then k - l
      else if op = js ''*'' then k * l else trunc_rem k l)"
proof -
  obtain x y where x: "rv_value a = J_number x" "valid_number x" "is_safe_integer x" "number_value x = of_int k"
    and y: "rv_value b = J_number y" "valid_number y" "is_safe_integer y" "number_value y = of_int l"
    and i: "rv_integer a" "rv_integer b"
    using a b by (auto simp: exact_integer_def)
  have op': "op = js ''+'' \<or> op = js ''-'' \<or> op = js ''*'' \<or> op = js ''%''" using op by (auto simp: integer_operators_def)
  then have "arithmetic op p x y True = Inr v"
    using v x(1) y(1) i by (auto simp: binary_values_def compare_values_def)
  with op' obtain z where z: "v = \<lparr>rv_value = J_number z, rv_integer = True\<rparr>"
    "z = (if op = js ''+'' then js_add x y else if op = js ''-'' then js_sub x y
      else if op = js ''*'' then js_mul x y else js_mod x y)"
    by (auto simp: arithmetic_def)
  have s: "is_safe_integer z" using check_value_safe [OF c] z(1) by simp
  note f = is_safe_integer_finite [OF x(3)] is_safe_integer_finite [OF y(3)]
  have "valid_number z" using z(2) x(2) y(2) valid_js_add valid_js_sub valid_js_mul valid_js_mod by auto
  moreover have "number_value z = of_int (if op = js ''+'' then k + l else if op = js ''-'' then k - l
      else if op = js ''*'' then k * l else trunc_rem k l)"
    using s z(2) x(2,4) y(2,4) f js_add_safe [of x y k l] js_sub_safe [of x y k l] js_mul_safe [of x y k l]
      js_mod_safe(1) [of x y k l]
    by (simp split: if_splits)
  ultimately show ?thesis using s z(1) check_value_same [OF c] by (simp add: exact_integer_def)
qed

inductive_cases eval_E: "eval env n v es"
inductive_cases eval_LiteralE: "eval_node env (Literal l b i j) v es"
inductive_cases eval_UnaryE: "eval_node env (Unary op x i j) v es"
inductive_cases eval_BinaryE: "eval_node env (Binary op l r i j) v es"

lemma integer_exact:
  "int_expr n \<Longrightarrow> \<forall>m \<in> set (postorder n). syntax_ok m \<Longrightarrow> eval env n v es \<Longrightarrow> exact_integer v (int_value n)"
proof (induction n arbitrary: v es)
  case (Literal l b i j)
  then obtain x where l: "l = NumberLit x" "b" by (cases l) auto
  with Literal have "valid_number x" "is_safe_integer x" "v = \<lparr>rv_value = J_number x, rv_integer = b\<rparr>"
    by (auto elim!: eval_E eval_LiteralE dest: check_value_same)
  with l safe_integer_value show ?case by (simp add: exact_integer_def)
next
  case (Unary op x i j)
  from Unary.prems(3) obtain w where w: "eval_node env (Unary op x i j) w es" "check_value i w = Inr v"
    by (auto elim!: eval_E)
  have op: "op \<noteq> js ''!''" using Unary.prems(1) by auto
  with w(1) obtain u k where u: "eval env x u es" "rv_value u = J_number k"
    "w = \<lparr>rv_value = J_number (if op = js ''-'' then js_neg k else k), rv_integer = rv_integer u\<rparr>"
    by (auto elim!: eval_UnaryE)
  have "exact_integer u (int_value x)" using Unary.IH Unary.prems u(1) by auto
  with u check_value_same [OF w(2)] check_value_safe [OF w(2)] show ?case
    by (auto simp: exact_integer_def valid_js_neg number_value_neg split: if_splits)
next
  case (Binary op l r i j)
  from Binary.prems(3) obtain w where w: "eval_node env (Binary op l r i j) w es" "check_value i w = Inr v"
    by (auto elim!: eval_E)
  have op: "op \<in> set integer_operators" "op \<notin> set logical_operators"
    using Binary.prems(1) by (auto simp: integer_operators_def logical_operators_def)
  with w(1) obtain a b es1 es2 where ab: "eval env l a es1" "eval env r b es2" "binary_values op i a b = Inr w"
    by (auto simp: logical_operators_def elim!: eval_BinaryE)
  have "exact_integer a (int_value l)" "exact_integer b (int_value r)" using Binary ab by auto
  from arithmetic_exact [OF this op(1) ab(3) w(2)] show ?case by simp
qed auto

section \<open>Events\<close>

fun is_pricing :: "event \<Rightarrow> bool" where
  "is_pricing (Matched _) = False"
| "is_pricing _ = True"

lemma has_marker_children:
  "has_marker n \<longleftrightarrow> (\<exists>f as i j. n = Call f as i j \<and> (f = js ''tier'' \<or> f = js ''fixed'')) \<or>
     (\<exists>c \<in> set (children n). has_marker c)"
  by (subst has_marker_def, subst (1 2) node_functions_children) (cases n; auto simp: has_marker_def)

text \<open>An expression that mentions neither \<open>tier\<close> nor \<open>fixed\<close> never prices anything.\<close>

lemma no_marker_no_pricing:
  "eval env n v es \<Longrightarrow> \<not> has_marker n \<Longrightarrow> filter is_pricing es = []"
  "eval_node env n v es \<Longrightarrow> \<not> has_marker n \<Longrightarrow> filter is_pricing es = []"
proof (induction rule: eval_eval_node.inducts)
  case (eval_conditional c b es t y n v es' i j)
  then show ?case by (cases t) (auto simp: has_marker_children [of "Conditional _ _ _ _ _"])
qed (auto simp: has_marker_children [of "Unary _ _ _ _"] has_marker_children [of "Binary _ _ _ _ _"]
    has_marker_children [of "Call _ _ _ _"])

lemma eval_nodeD: "eval env n v es \<Longrightarrow> eval_node env n v es"
  by (auto elim!: eval_E dest: check_value_same)

inductive_cases eval_ConditionalE: "eval_node env (Conditional c y n i j) v es"
inductive_cases eval_CallE: "eval_node env (Call f as i j) v es"

lemma rule_literal_no_pricing:
  assumes "eval env n v es" "is_request_rule n" "\<not> has_marker (rule_condition (mk_request_rule src n))"
  shows "filter is_pricing es = []"
proof -
  from assms(2) obtain c m b i j one b' i' j' s e
    where n: "n = Conditional c (Literal (NumberLit m) b i j) (Literal (NumberLit one) b' i' j') s e"
    by (rule is_request_ruleE)
  have "\<not> has_marker (Literal l b i j)" for l b i j by (simp add: has_marker_def node_functions_def)
  then have "\<not> has_marker n" using assms(3) n by (simp add: has_marker_children [of "Conditional _ _ _ _ _"])
  with no_marker_no_pricing(1) [OF assms(1)] show ?thesis .
qed

text \<open>The outcome of a pricing tree: one tier, whose price may be a fixed amount.\<close>

definition priced_once :: "event list \<Rightarrow> bool" where
  "priced_once es \<longleftrightarrow> (\<exists>name. filter is_pricing es = [Tier name] \<or>
     (\<exists>x. filter is_pricing es = [Fixed x, Tier name] \<and> js_le zero_num x \<and> is_finite (js_mul x (num 1000000))))"

lemma find_SomeD: "find P xs = Some x \<Longrightarrow> x \<in> set xs \<and> P x"
  by (auto simp: find_Some_iff)

lemma price_factor_no_pricing:
  assumes "price_factor (compiled_rules src m) n" "eval env n v es"
  shows "filter is_pricing es = []"
proof (cases "is_image_count n")
  case True
  then have "\<not> has_marker n" by (cases n) (auto simp: has_marker_def node_functions_def)
  with no_marker_no_pricing(1) [OF assms(2)] show ?thesis .
next
  case False
  then obtain r where r: "r \<in> set (compiled_rules src m)" "rule_node r = n" "\<not> has_marker (rule_condition r)"
    using assms(1) by (auto simp: price_factor_def dest: find_SomeD)
  then obtain k where k: "is_request_rule k" "r = mk_request_rule src k" by (auto simp: compiled_rules_def)
  then have "rule_node r = k" by (auto elim!: is_request_ruleE)
  with r k rule_literal_no_pricing [OF assms(2)] show ?thesis by simp
qed

lemma fixed_amount_events:
  assumes "eval env (Call (js ''fixed'') [a] k l) v es" "is_fixed_amount a"
  shows "\<exists>x. es = [Fixed x] \<and> js_le zero_num x \<and> is_finite (js_mul x (num 1000000))"
proof -
  obtain x b i j where a: "a = Literal (NumberLit x) b i j" "js_le zero_num x" "is_finite (js_mul x (num 1000000))"
    using assms(2) by (cases a rule: is_fixed_amount.cases) auto
  from eval_nodeD [OF assms(1)] obtain y w es' where "eval env a w es'" "rv_value w = J_number y" "es = es' @ [Fixed y]"
    by (auto simp: pair_functions_def single_functions_def TIME_FUNCTIONS_def elim!: eval_CallE)
  with a eval_nodeD [OF this(1)] show ?thesis by (auto elim!: eval_LiteralE)
qed

lemma tier_events:
  assumes "eval env (Call (js ''tier'') [label, price] k l) v es"
  obtains u es1 w es2 name where "eval env label u es1" "eval env price w es2" "es = es1 @ es2 @ [Tier name]"
  using eval_nodeD [OF assms] by (auto simp: pair_functions_def single_functions_def TIME_FUNCTIONS_def elim!: eval_CallE)

lemma pricing_tree_priced_once:
  "pricing_tree (compiled_rules src m) n \<Longrightarrow> eval env n v es \<Longrightarrow> priced_once es"
proof (induction arbitrary: v es rule: pricing_tree.induct)
  case (pricing_conditional c y n i j)
  from eval_nodeD [OF pricing_conditional.prems] obtain t b es1 es2
    where e: "eval env c b es1" "eval env (if t then y else n) v es2"
      "es = es1 @ (if t then [Matched (Conditional c y n i j)] else []) @ es2"
    by (auto elim!: eval_ConditionalE)
  have "priced_once es2" using e(2) pricing_conditional.IH by (cases t) auto
  with no_marker_no_pricing(1) [OF e(1)] pricing_conditional.hyps(1) e(3) show ?case
    by (cases t) (auto simp: priced_once_def)
next
  case (pricing_factor_right r l i j)
  from eval_nodeD [OF pricing_factor_right.prems] obtain a b es1 es2
    where e: "eval env l a es1" "eval env r b es2" "es = es1 @ es2"
    by (auto simp: logical_operators_def elim!: eval_BinaryE)
  with price_factor_no_pricing [OF pricing_factor_right.hyps(1) e(2)] pricing_factor_right.IH [OF e(1)]
  show ?case by (auto simp: priced_once_def)
next
  case (pricing_factor_left r l i j)
  from eval_nodeD [OF pricing_factor_left.prems] obtain a b es1 es2
    where e: "eval env l a es1" "eval env r b es2" "es = es1 @ es2"
    by (auto simp: logical_operators_def elim!: eval_BinaryE)
  with price_factor_no_pricing [OF pricing_factor_left.hyps(2) e(1)] pricing_factor_left.IH [OF e(2)]
  show ?case by (auto simp: priced_once_def)
next
  case (pricing_fixed label a k l i j)
  from pricing_fixed.prems obtain u es1 w es2 name where e: "eval env label u es1"
    "eval env (Call (js ''fixed'') [a] k l) w es2" "es = es1 @ es2 @ [Tier name]" by (rule tier_events)
  with no_marker_no_pricing(1) [OF e(1) pricing_fixed.hyps(1)] fixed_amount_events [OF e(2) pricing_fixed.hyps(2)]
  show ?case by (auto simp: priced_once_def)
next
  case (pricing_tokens label price i j)
  from pricing_tokens.prems obtain u es1 w es2 name where e: "eval env label u es1"
    "eval env price w es2" "es = es1 @ es2 @ [Tier name]" by (rule tier_events)
  with no_marker_no_pricing(1) [OF e(1) pricing_tokens.hyps(1)] no_marker_no_pricing(1) [OF e(2) pricing_tokens.hyps(2)]
  show ?case by (simp add: priced_once_def)
qed

text \<open>A conditional reports its first branch only after its condition held.\<close>

lemma matched_condition:
  "eval env n v es \<Longrightarrow> Matched m \<in> set es \<Longrightarrow>
     \<exists>c y k i j b es'. m = Conditional c y k i j \<and> eval env c b es' \<and> rv_value b = J_bool True"
  "eval_node env n v es \<Longrightarrow> Matched m \<in> set es \<Longrightarrow>
     \<exists>c y k i j b es'. m = Conditional c y k i j \<and> eval env c b es' \<and> rv_value b = J_bool True"
proof (induction rule: eval_eval_node.inducts)
  case (eval_conditional c b es t y n v es' i j)
  show ?case
  proof (cases "t \<and> m = Conditional c y n i j")
    case True
    with eval_conditional.IH(1) eval_conditional.hyps show ?thesis by auto
  next
    case False
    then have "Matched m \<in> set es \<or> Matched m \<in> set es'" using eval_conditional.prems by (auto split: if_splits)
    with eval_conditional.IH(2,4) show ?thesis by blast
  qed
qed auto

section \<open>The result of an evaluation\<close>

lemma find_index_Some: "find_index P xs = Some i \<Longrightarrow> i < length xs \<and> P (xs ! i)"
  by (induction xs arbitrary: i) (auto split: if_splits)

lemma find_index_nth:
  "distinct (map f xs) \<Longrightarrow> i < length xs \<Longrightarrow> find_index (\<lambda>x. f x = f (xs ! i)) xs = Some i"
proof (induction xs arbitrary: i)
  case (Cons x xs)
  show ?case
  proof (cases i)
    case (Suc k)
    then have "f x \<noteq> f (xs ! k)" using Cons.prems nth_mem [of k xs] by auto
    with Cons Suc show ?thesis by auto
  qed simp
qed simp

definition rule_index :: "runtime_env \<Rightarrow> node \<Rightarrow> nat option" where
  "rule_index env m = find_index (\<lambda>r. rule_node r = m) (requestRules (env_compiled env))"

lemma mark_rule_rules:
  assumes "length (rt_rules st) = length (requestRules (env_compiled env))" "k < length (rt_rules st)"
  shows "rt_rules (mark_rule env m True st) ! k =
    (rt_rules st ! k)\<lparr>br_matched := br_matched (rt_rules st ! k) \<or> rule_index env m = Some k\<rparr>"
proof (cases "rule_index env m")
  case (Some i)
  then show ?thesis using assms by (cases "i = k") (simp_all add: mark_rule_def rule_index_def)
qed (simp add: mark_rule_def rule_index_def)

lemma apply_events_rules:
  assumes "length (rt_rules st) = length (requestRules (env_compiled env))"
  shows "length (rt_rules (apply_events env es st)) = length (rt_rules st) \<and>
    (\<forall>k < length (rt_rules st). rt_rules (apply_events env es st) ! k =
       (rt_rules st ! k)\<lparr>br_matched := br_matched (rt_rules st ! k) \<or>
          (\<exists>m. Matched m \<in> set es \<and> rule_index env m = Some k)\<rparr>)"
  using assms
proof (induction es arbitrary: st)
  case (Cons e es)
  show ?case
  proof (cases e)
    case (Matched m)
    have l: "length (rt_rules (mark_rule env m True st)) = length (rt_rules st)"
      by (simp add: mark_rule_def split: option.splits)
    with Cons.IH [of "mark_rule env m True st"] Cons.prems mark_rule_rules [OF Cons.prems, of _ m] Matched
    show ?thesis by (simp add: conj_disj_distribR ex_disj_distrib)
  qed (use Cons in auto)
qed simp

lemma apply_events_unit:
  "rt_unit (apply_events env es st) = Unit_request \<longleftrightarrow> rt_unit st = Unit_request \<or> (\<exists>x. Fixed x \<in> set es)"
  "rt_fixed (apply_events env es st) \<noteq> None \<longleftrightarrow> rt_fixed st \<noteq> None \<or> (\<exists>x. Fixed x \<in> set es)"
proof -
  have m: "rt_unit (mark_rule env n b st) = rt_unit st" "rt_fixed (mark_rule env n b st) = rt_fixed st" for n b st
    by (simp_all add: mark_rule_def split: option.splits)
  have "(rt_unit (apply_events env es st) = Unit_request \<longleftrightarrow> rt_unit st = Unit_request \<or> (\<exists>x. Fixed x \<in> set es)) \<and>
    (rt_fixed (apply_events env es st) \<noteq> None \<longleftrightarrow> rt_fixed st \<noteq> None \<or> (\<exists>x. Fixed x \<in> set es))"
  proof (induction es arbitrary: st)
    case (Cons e es)
    then show ?case by (cases e) (auto simp: m)
  qed simp
  then show "rt_unit (apply_events env es st) = Unit_request \<longleftrightarrow> rt_unit st = Unit_request \<or> (\<exists>x. Fixed x \<in> set es)"
    "rt_fixed (apply_events env es st) \<noteq> None \<longleftrightarrow> rt_fixed st \<noteq> None \<or> (\<exists>x. Fixed x \<in> set es)" by blast+
qed

text \<open>Only the events that price something touch the tier, the unit and the fixed price.\<close>

lemma apply_events_pricing:
  "rt_tier (apply_events env es st) = rt_tier (apply_events env (filter is_pricing es) st)"
  "rt_unit (apply_events env es st) = rt_unit (apply_events env (filter is_pricing es) st)"
  "rt_fixed (apply_events env es st) = rt_fixed (apply_events env (filter is_pricing es) st)"
proof -
  define same where "same s s' \<longleftrightarrow> rt_tier s = rt_tier s' \<and> rt_unit s = rt_unit s' \<and> rt_fixed s = rt_fixed s'"
    for s s' :: runtime
  have m: "same (mark_rule env n b s) s' = same s s'" for n b s s'
    by (auto simp: mark_rule_def same_def split: option.splits)
  have "same (apply_events env es s) (apply_events env (filter is_pricing es) s')" if "same s s'" for s s'
    using that
  proof (induction es arbitrary: s s')
    case (Cons e es)
    show ?case
    proof (cases e)
      case (Matched n)
      then show ?thesis using Cons by (simp add: m)
    qed (use Cons in \<open>auto simp: same_def\<close>)
  qed simp
  from this [of st st] show "rt_tier (apply_events env es st) = rt_tier (apply_events env (filter is_pricing es) st)"
    "rt_unit (apply_events env es st) = rt_unit (apply_events env (filter is_pricing es) st)"
    "rt_fixed (apply_events env es st) = rt_fixed (apply_events env (filter is_pricing es) st)"
    by (simp_all add: same_def)
qed

lemma new_runtime_fields:
  assumes "new_runtime pf c ctx = Inr (env, st)"
  shows "env_compiled env = c" "env_context env = ctx" "env_platform env = pf"
    "rt_rules st = map (\<lambda>r. \<lparr>br_cond = rule_cond r, br_multiplier = rule_multiplier r, br_matched = False\<rparr>) (requestRules c)"
    "rt_tier st = []" "rt_unit st = Unit_token" "rt_fixed st = None" "rt_depth st = 0" "times_ok env st"
  using assms by (auto simp: new_runtime_def rbind_eq_Inr times_ok_def timeValues.consistent_def)

lemma run_compiled_events:
  assumes "run_compiled pf c ctx = Inr res"
  obtains env st v es where "new_runtime pf c ctx = Inr (env, st)" "eval env (ast c) v es"
    "rv_value v = J_number (res_cost res)" "is_finite (res_cost res)" "\<not> js_less (res_cost res) zero_num"
    "res_unit res = rt_unit (apply_events env es st)" "res_fixedPrice res = rt_fixed (apply_events env es st)"
    "res_tier res = rt_tier (apply_events env es st)" "res_rules res = rt_rules (apply_events env es st)"
proof -
  from assms obtain env st v st' where n: "new_runtime pf c ctx = Inr (env, st)"
    and e: "evaluate env (ast c) st = Inr (v, st')" and x: "rv_value v = J_number (res_cost res)"
    "is_finite (res_cost res)" "\<not> js_less (res_cost res) zero_num"
    and r: "res_unit res = rt_unit st'" "res_fixedPrice res = rt_fixed st'" "res_tier res = rt_tier st'"
    "res_rules res = rt_rules st'"
    by (auto simp: run_compiled_def split: json.splits if_splits elim!: rbindE)
  from sound_atE [OF evaluate_sound e new_runtime_fields(9) [OF n]] obtain es
    where es: "eval env (ast c) v es" "runs env es st st'" .
  then obtain tm where "st' = (apply_events env es st)\<lparr>rt_times := tm\<rparr>" by (auto simp: runs_def)
  with that n es x r show thesis by simp
qed

end
