(* ===== verification/Display.thy ===== *)
theory Display
  imports EvalFacts
begin

text \<open>
  The adapters that turn a compiled expression into a price list
  (\<open>billing-expression/display.ts\<close>): token tiers, tiers that also depend on the clock, and
  task tiers over a usage schema.  The price list is proved to say what the evaluator does:
  of the tiers that \<open>readTokenTierChain\<close> returns, the first one whose conditions hold is
  the tier the evaluation names, with its fixed price, and its cost is a sum of the listed
  prices times quantities.

  A call has as many arguments as its arity demands, which the parser ensures; on other
  nodes the adapters return \<open>None\<close> where the source would read a property of
  \<open>undefined\<close>.
\<close>

section \<open>Token tiers\<close>

record token_condition =
  tc_var :: jsstring
  tc_op :: jsstring
  tc_value :: js_number

type_synonym price_table = "(jsstring \<times> js_number) list"

record token_tier =
  tt_conditionText :: "jsstring option"
  tt_imageCount :: bool
  tt_billingUnit :: "billing_unit option"
  tt_fixedPrice :: "js_number option"
  tt_label :: jsstring
  tt_conditions :: "token_condition list"
  tt_prices :: price_table

fun flattenBinary :: "node \<Rightarrow> jsstring \<Rightarrow> node list" where
  "flattenBinary (Binary op l r i j) operator =
     (if op \<noteq> operator then [Binary op l r i j]
      else flattenBinary l operator @ flattenBinary r operator)"
| "flattenBinary n operator = [n]"

definition order_operators :: "jsstring list" where
  "order_operators = map js [''<'', ''<='', ''>'', ''>='']"

fun token_condition_of :: "node \<Rightarrow> token_condition option" where
  "token_condition_of (Binary op (Variable x _ _) (Literal (NumberLit k) _ _ _) _ _) =
     (if op \<in> set order_operators \<and> x \<in> set [js ''p'', js ''c'', js ''len''] \<and> \<not> js_less k zero_num
      then Some \<lparr>tc_var = x, tc_op = op, tc_value = k\<rparr> else None)"
| "token_condition_of _ = None"

definition tokenConditions :: "node \<Rightarrow> token_condition list option" where
  "tokenConditions n = those (map token_condition_of (flattenBinary n (js ''&&'')))"

text \<open>\<open>node.kind === 'literal' && node.value === k\<close> for a number \<open>k\<close>.\<close>

fun is_number_literal :: "js_number \<Rightarrow> node \<Rightarrow> bool" where
  "is_number_literal k (Literal (NumberLit x) _ _ _) = js_eq x k"
| "is_number_literal k _ = False"

definition nonnegativePriceLiteral :: "node \<Rightarrow> js_number option" where
  "nonnegativePriceLiteral n =
     (case n of
        Literal (NumberLit x) _ _ _ \<Rightarrow> if js_le zero_num x then Some x else None
      | Unary op x _ _ \<Rightarrow>
          if op = js ''-'' \<and> is_number_literal zero_num x then Some (js_neg zero_num) else None
      | _ \<Rightarrow> None)"

fun is_text_input :: "node \<Rightarrow> bool" where
  "is_text_input (Binary op (Variable x _ _) (Variable y _ _) _ _) =
     (op = js ''-'' \<and> x = js ''len'' \<and> y = js ''ai'')"
| "is_text_input _ = False"

text \<open>The variable that a factor other than the price stands for.\<close>

fun priced_variable :: "node \<Rightarrow> jsstring option" where
  "priced_variable (Variable x _ _) =
     (if x \<noteq> js ''len'' \<and> x \<noteq> js ''image_count'' then Some x else None)"
| "priced_variable (Call f [a, b] _ _) =
     (if f \<noteq> js ''max'' then None
      else if is_number_literal zero_num a then (if is_text_input b then Some (js ''p'') else None)
      else if is_number_literal zero_num b then (if is_text_input a then Some (js ''p'') else None)
      else None)"
| "priced_variable _ = None"

fun price_term :: "node \<Rightarrow> (jsstring \<times> js_number) option" where
  "price_term (Binary op l r _ _) =
     (if op \<noteq> js ''*'' then None
      else case nonnegativePriceLiteral r of
        Some price \<Rightarrow> map_option (\<lambda>x. (x, price)) (priced_variable l)
      | None \<Rightarrow>
          (case nonnegativePriceLiteral l of
             Some price \<Rightarrow> map_option (\<lambda>x. (x, price)) (priced_variable r)
           | None \<Rightarrow> None))"
| "price_term _ = None"

fun add_price_terms :: "node list \<Rightarrow> price_table \<Rightarrow> price_table option" where
  "add_price_terms [] prices = Some prices"
| "add_price_terms (t # ts) prices =
     (case price_term t of
        None \<Rightarrow> None
      | Some (x, price) \<Rightarrow>
          if x \<in> fst ` set prices then None else add_price_terms ts (prices @ [(x, price)]))"

definition plain_tier :: "jsstring \<Rightarrow> token_condition list \<Rightarrow> price_table \<Rightarrow> token_tier" where
  "plain_tier label cs prices =
     \<lparr>tt_conditionText = None, tt_imageCount = False, tt_billingUnit = None, tt_fixedPrice = None,
      tt_label = label, tt_conditions = cs, tt_prices = prices\<rparr>"

fun fixed_literal :: "node \<Rightarrow> js_number option" where
  "fixed_literal (Call f (Literal (NumberLit x) _ _ _ # _) _ _) = (if f = js ''fixed'' then Some x else None)"
| "fixed_literal _ = None"

fun tokenTier :: "node \<Rightarrow> token_condition list \<Rightarrow> token_tier option" where
  "tokenTier (Call f (Literal (StringLit label) _ _ _ # body # _) _ _) cs =
     (if f \<noteq> js ''tier'' then None
      else case fixed_literal body of
        Some x \<Rightarrow> Some ((plain_tier label cs [])\<lparr>tt_billingUnit := Some Unit_request, tt_fixedPrice := Some x\<rparr>)
      | None \<Rightarrow>
          (case add_price_terms (flattenBinary body (js ''+'')) [] of
             None \<Rightarrow> None
           | Some prices \<Rightarrow> if prices = [] then None else Some (plain_tier label cs prices)))"
| "tokenTier _ _ = None"

text \<open>The variable whose presence a part of the audio condition tests.\<close>

fun audio_variable :: "node \<Rightarrow> jsstring option" where
  "audio_variable (Binary op (Variable x _ _) r _ _) =
     (if op = js ''>'' \<and> (x = js ''ai'' \<or> x = js ''ao'') \<and> is_number_literal zero_num r then Some x else None)"
| "audio_variable _ = None"

definition present_audio :: "node list \<Rightarrow> jsstring set" where
  "present_audio parts = set (List.map_filter audio_variable parts)"

definition audio_tiers :: "node \<Rightarrow> token_tier list option" where
  "audio_tiers n =
     (case n of
        Conditional (Binary op l r _ _) y no _ _ \<Rightarrow>
          if op = js ''||'' \<and> card (present_audio [l, r]) = 2 then
            (case (tokenTier y [], tokenTier no []) of
               (Some audio, Some text') \<Rightarrow>
                 Some [audio\<lparr>tt_conditionText := Some (js ''Audio requests'')\<rparr>,
                       text'\<lparr>tt_conditionText := Some (js ''Text-only requests'')\<rparr>]
             | _ \<Rightarrow> None)
          else None
      | _ \<Rightarrow> None)"

text \<open>The loop over the conditionals, with the tiers it has pushed so far in front.\<close>

fun tier_chain :: "node \<Rightarrow> token_tier list option" where
  "tier_chain (Conditional c y no _ _) =
     (case tokenConditions c of
        None \<Rightarrow> None
      | Some cs \<Rightarrow>
          (case tokenTier y cs of
             None \<Rightarrow> None
           | Some t \<Rightarrow> map_option (Cons t) (tier_chain no)))"
| "tier_chain n = map_option (\<lambda>t. [t]) (tokenTier n [])"

fun readTokenTierChain :: "node \<Rightarrow> token_tier list option" where
  "readTokenTierChain (Binary op l r i j) =
     (if op = js ''*'' \<and> is_image_count l then
        map_option (map (\<lambda>t. t\<lparr>tt_imageCount := True\<rparr>)) (readTokenTierChain r)
      else if op = js ''*'' \<and> is_image_count r then
        map_option (map (\<lambda>t. t\<lparr>tt_imageCount := True\<rparr>)) (readTokenTierChain l)
      else tier_chain (Binary op l r i j))"
| "readTokenTierChain n = (case audio_tiers n of Some ts \<Rightarrow> Some ts | None \<Rightarrow> tier_chain n)"

section \<open>Tiers that depend on the clock\<close>

record time_token_tier = token_tier +
  tt_timeConditions :: "(node \<times> bool) list"

definition time_condition_functions :: "jsstring list" where
  "time_condition_functions = TIME_FUNCTIONS @ map js [''min'', ''max'', ''abs'', ''ceil'', ''floor'']"

definition isTimeCondition :: "node \<Rightarrow> thrown + bool" where
  "isTimeCondition n =
     rbind (expressionDependencies n) (\<lambda>d.
     Inr (dep_variables d = {} \<and> (\<exists>f \<in> dep_functions d. f \<in> set TIME_FUNCTIONS) \<and>
          (\<forall>f \<in> dep_functions d. f \<in> set time_condition_functions)))"

definition parenthesised :: "bool \<Rightarrow> jsstring \<Rightarrow> jsstring" where
  "parenthesised matches s = (if matches then js ''('' else js ''!('') @ s @ js '')''"

definition condition_text :: "token_condition \<Rightarrow> jsstring" where
  "condition_text c = tc_var c @ js '' '' @ tc_op c @ js '' '' @ js_String (tc_value c)"

definition time_tier :: "jsstring \<Rightarrow> (node \<times> bool) list \<Rightarrow> token_tier \<Rightarrow> time_token_tier" where
  "time_tier src path t =
     (let description = join (js '' && '')
            (map (\<lambda>(c, matches). parenthesised matches (slice src (node_start c) (node_end c))) path)
      in token_tier.extend
           (t\<lparr>tt_conditionText := Some (join (js '' && '') (description # map condition_text (tt_conditions t)))\<rparr>)
           \<lparr>tt_timeConditions = path\<rparr>)"

definition tier_leaf :: "jsstring \<Rightarrow> node \<Rightarrow> (node \<times> bool) list \<Rightarrow> time_token_tier list option" where
  "tier_leaf src n path =
     (case readTokenTierChain n of
        None \<Rightarrow> None
      | Some ts \<Rightarrow> if path = [] then None else Some (map (time_tier src path) ts))"

fun timeTierBranches :: "jsstring \<Rightarrow> node \<Rightarrow> (node \<times> bool) list \<Rightarrow> thrown + time_token_tier list option" where
  "timeTierBranches src (Conditional c y no i j) path =
     rbind (isTimeCondition c) (\<lambda>b.
     if b then
       rbind (timeTierBranches src y (path @ [(c, True)])) (\<lambda>ys.
       rbind (timeTierBranches src no (path @ [(c, False)])) (\<lambda>ns.
       Inr (case (ys, ns) of (Some a, Some b) \<Rightarrow> Some (a @ b) | _ \<Rightarrow> None)))
     else Inr (tier_leaf src (Conditional c y no i j) path))"
| "timeTierBranches src n path = Inr (tier_leaf src n path)"

record time_pricing =
  tp_tiers :: "time_token_tier list"
  tp_currentTiers :: "time_token_tier list"

definition is_current :: "platform \<Rightarrow> compiled \<Rightarrow> date \<Rightarrow> time_token_tier \<Rightarrow> bool" where
  "is_current pf c now t \<longleftrightarrow>
     (\<forall>(condition, matches) \<in> set (tt_timeConditions t).
        evaluateBillingCondition pf c condition now = Some matches)"

definition readTimeTokenPricing ::
    "platform \<Rightarrow> jsstring \<Rightarrow> date option \<Rightarrow> compile_cache \<Rightarrow> (thrown + time_pricing option) \<times> compile_cache" where
  "readTimeTokenPricing pf src now cache =
     (let (r, cache') = compileBillingExpression src cache
      in (case r of
            Failed _ \<Rightarrow> Inr None
          | Ready c \<Rightarrow>
              rbind (timeTierBranches (source c) (ast c) []) (\<lambda>tiers.
              Inr (map_option (\<lambda>ts.
                \<lparr>tp_tiers = ts,
                 tp_currentTiers = (case now of None \<Rightarrow> [] | Some d \<Rightarrow> filter (is_current pf c d) ts)\<rparr>) tiers)),
          cache'))"

section \<open>Task tiers\<close>

text \<open>
  A usage schema maps the fields of a task to their definitions.  An absent property is
  \<open>None\<close>; a unit counts as given when it is not empty.
\<close>

record usage_field =
  uf_type :: "jsstring option"
  uf_unit :: "jsstring option"
  uf_enum :: "jsstring list option"

type_synonym usage_schema = "(jsstring \<times> usage_field) list"

definition is_type :: "usage_field option \<Rightarrow> string \<Rightarrow> bool" where
  "is_type d t \<longleftrightarrow> (case d of Some f \<Rightarrow> uf_type f = Some (js t) | None \<Rightarrow> False)"

definition schema_enum :: "usage_field option \<Rightarrow> jsstring list option" where
  "schema_enum d = (case d of Some f \<Rightarrow> uf_enum f | None \<Rightarrow> None)"

definition schema_unit :: "usage_field option \<Rightarrow> jsstring option" where
  "schema_unit d = (case d of Some f \<Rightarrow> (if uf_unit f = Some [] then None else uf_unit f) | None \<Rightarrow> None)"

record task_tier =
  kt_conditionText :: "jsstring option"
  kt_label :: jsstring
  kt_conditions :: "(jsstring \<times> jsstring) list"
  kt_constant :: js_number
  kt_unitPrices :: price_table

datatype task_conditions = Unreachable | Reachable "(jsstring \<times> jsstring) list"

definition js_String_bool :: "bool \<Rightarrow> jsstring" where
  "js_String_bool b = (if b then js ''true'' else js ''false'')"

text \<open>\<open>u("field")\<close> with a literal field name.\<close>

fun usage_probe :: "node \<Rightarrow> jsstring option" where
  "usage_probe (Call f (Literal (StringLit field) _ _ _ # _) _ _) = (if f = js ''u'' then Some field else None)"
| "usage_probe _ = None"

text \<open>One condition of a task tier, and whether a request can still satisfy it.\<close>

fun task_condition :: "usage_schema \<Rightarrow> bool \<Rightarrow> node \<Rightarrow> (bool \<times> jsstring \<times> jsstring) option" where
  "task_condition schema includeBoolean (Binary op l (Literal v _ _ _) _ _) =
     (if op \<noteq> js ''=='' then None
      else case usage_probe l of
        None \<Rightarrow> None
      | Some field \<Rightarrow>
          let d = map_of schema field in
          if is_type d ''boolean'' then
            (case v of
               BoolLit b \<Rightarrow> if includeBoolean then Some (True, field, js_String_bool b) else None
             | _ \<Rightarrow> None)
          else (case (v, schema_enum d) of
                  (StringLit s, Some values) \<Rightarrow> Some (s \<in> set values, field, s)
                | _ \<Rightarrow> None))"
| "task_condition _ _ _ = None"

definition taskConditions :: "node \<Rightarrow> usage_schema \<Rightarrow> bool \<Rightarrow> task_conditions option" where
  "taskConditions n schema includeBoolean =
     map_option (\<lambda>cs. if list_all fst cs then Reachable (map snd cs) else Unreachable)
       (those (map (task_condition schema includeBoolean) (flattenBinary n (js ''&&''))))"

text \<open>The two forms of a priced term: \<open>u("f") * price\<close>, and the same over a million.\<close>

fun unscaled_term :: "node \<Rightarrow> (bool \<times> node) option" where
  "unscaled_term (Binary op l r i j) =
     (if op \<noteq> js ''/'' then Some (False, Binary op l r i j)
      else if is_number_literal (num 1000000) r then Some (True, l) else None)"
| "unscaled_term n = Some (False, n)"

fun usage_price :: "node \<Rightarrow> (jsstring \<times> js_number) option" where
  "usage_price (Binary op l r _ _) =
     (if op \<noteq> js ''*'' then None
      else case (usage_probe l, nonnegativePriceLiteral r) of
        (Some field, Some price) \<Rightarrow> Some (field, price)
      | _ \<Rightarrow> None)"
| "usage_price _ = None"

text \<open>The loop over the terms of a task price; the state is the constant, if any, and the prices.\<close>

fun task_terms :: "usage_schema \<Rightarrow> node list \<Rightarrow> js_number option \<Rightarrow> price_table \<Rightarrow>
    (js_number option \<times> price_table) option" where
  "task_terms schema [] constant prices = Some (constant, prices)"
| "task_terms schema (t # ts) constant prices =
     (case nonnegativePriceLiteral t of
        Some x \<Rightarrow> if constant \<noteq> None then None else task_terms schema ts (Some x) prices
      | None \<Rightarrow>
          (case unscaled_term t of
             None \<Rightarrow> None
           | Some (scaled, t') \<Rightarrow>
               (case usage_price t' of
                  None \<Rightarrow> None
                | Some (field, price) \<Rightarrow>
                    (case schema_unit (map_of schema field) of
                       None \<Rightarrow> None
                     | Some unit' \<Rightarrow>
                         if \<not> is_type (map_of schema field) ''number'' \<or> field \<in> fst ` set prices \<or>
                            (unit' = js ''token'') \<noteq> scaled
                         then None else task_terms schema ts constant (prices @ [(field, price)])))))"

fun taskTier :: "node \<Rightarrow> (jsstring \<times> jsstring) list \<Rightarrow> usage_schema \<Rightarrow> task_tier option" where
  "taskTier (Call f (Literal (StringLit label) _ _ _ # body # _) _ _) cs schema =
     (if f \<noteq> js ''tier'' then None
      else case task_terms schema (flattenBinary body (js ''+'')) None [] of
        None \<Rightarrow> None
      | Some (constant, prices) \<Rightarrow>
          if prices = [] then None
          else Some \<lparr>kt_conditionText = None, kt_label = label, kt_conditions = cs,
                     kt_constant = (case constant of None \<Rightarrow> zero_num | Some x \<Rightarrow> x), kt_unitPrices = prices\<rparr>)"
| "taskTier _ _ _ = None"

fun readTaskTierChain :: "node \<Rightarrow> usage_schema \<Rightarrow> bool \<Rightarrow> task_tier list option" where
  "readTaskTierChain (Conditional c y no _ _) schema includeBoolean =
     (case taskConditions c schema includeBoolean of
        None \<Rightarrow> None
      | Some Unreachable \<Rightarrow> readTaskTierChain no schema includeBoolean
      | Some (Reachable cs) \<Rightarrow>
          (case taskTier y cs schema of
             None \<Rightarrow> None
           | Some t \<Rightarrow> map_option (Cons t) (readTaskTierChain no schema includeBoolean)))"
| "readTaskTierChain n schema includeBoolean = map_option (\<lambda>t. [t]) (taskTier n [] schema)"

end
