(* ===== verification/DisplayFacts.thy ===== *)
theory DisplayFacts
  imports Display
begin

text \<open>
  The price lists of \<open>Display\<close> say what the evaluator does.  Every statement is about a
  derivation of the big-step semantics, so it holds for every successful evaluation.
\<close>

inductive_cases eval_VariableE: "eval_node env (Variable x i j) v es"

lemma those_map_append:
  "those (map f (xs @ ys)) = Some zs \<longleftrightarrow>
     (\<exists>as bs. those (map f xs) = Some as \<and> those (map f ys) = Some bs \<and> zs = as @ bs)"
  by (induction xs arbitrary: zs) (auto split: option.splits)

section \<open>Conditions\<close>

definition token_amount :: "billing_context \<Rightarrow> jsstring \<Rightarrow> js_number option" where
  "token_amount ctx x = (case map_of (ctx_tokens ctx) x of Some (J_number k) \<Rightarrow> Some k | _ \<Rightarrow> None)"

definition condition_holds :: "billing_context \<Rightarrow> token_condition \<Rightarrow> bool" where
  "condition_holds ctx c \<longleftrightarrow>
     (case token_amount ctx (tc_var c) of
        Some k \<Rightarrow> compare_values (tc_op c) (J_number k) (J_number (tc_value c)) = Some True
      | None \<Rightarrow> False)"

lemma variable_amount:
  assumes "eval env (Variable x i j) v es" "x \<noteq> js ''image_count''"
  shows "es = [] \<and> (\<exists>k. token_amount (env_context env) x = Some k \<and> rv_value v = J_number k)"
  using eval_nodeD [OF assms(1)] assms(2)
  by (auto elim!: eval_VariableE simp: variable_value_def token_amount_def throw_def split: option.splits json.splits if_splits)

lemma literal_eval:
  "eval env (Literal l b i j) v es \<Longrightarrow> es = [] \<and> rv_value v = literal_value l"
  by (auto dest!: eval_nodeD elim!: eval_LiteralE)

lemma strict_eval:
  assumes "eval env (Binary op l r i j) v es" "op \<notin> set logical_operators"
  obtains a es1 b es2 where "eval env l a es1" "eval env r b es2" "binary_values op i a b = Inr v" "es = es1 @ es2"
  using eval_nodeD [OF assms(1)] assms(2) by (auto elim!: eval_BinaryE simp: logical_operators_def)

lemma not_logical:
  "js ''-'' \<notin> set logical_operators" "js ''*'' \<notin> set logical_operators"
  "js ''+'' \<notin> set logical_operators" "js ''=='' \<notin> set logical_operators" "js ''>'' \<notin> set logical_operators"
  by (simp_all add: logical_operators_def)

lemma order_comparison:
  assumes "op \<in> set order_operators" "rv_value a = J_number x" "rv_value b = J_number y"
    "binary_values op i a b = Inr v"
  shows "rv_value v = J_bool (compare_values op (J_number x) (J_number y) = Some True)"
  using assms by (auto simp: order_operators_def binary_values_def compare_values_def)

lemma token_condition_eval:
  assumes "token_condition_of n = Some c" "eval env n v es"
  shows "es = [] \<and> rv_value v = J_bool (condition_holds (env_context env) c)"
proof -
  obtain op x i j k b i' j' s e where n: "n = Binary op (Variable x i j) (Literal (NumberLit k) b i' j') s e"
    and op: "op \<in> set order_operators" and x: "x \<in> {js ''p'', js ''c'', js ''len''}"
    and c: "c = \<lparr>tc_var = x, tc_op = op, tc_value = k\<rparr>"
    using assms(1) by (cases n rule: token_condition_of.cases) (auto split: if_splits)
  have "op \<notin> set logical_operators" using op by (auto simp: order_operators_def logical_operators_def)
  from strict_eval [OF assms(2) [unfolded n] this] obtain a es1 d es2
    where e: "eval env (Variable x i j) a es1" "eval env (Literal (NumberLit k) b i' j') d es2"
      "binary_values op s a d = Inr v" "es = es1 @ es2" .
  have xi: "x \<noteq> js ''image_count''" using x by auto
  from variable_amount [OF e(1) xi] obtain y where y: "es1 = []" "token_amount (env_context env) x = Some y" "rv_value a = J_number y"
    by blast
  from literal_eval [OF e(2)] have d: "es2 = []" "rv_value d = J_number k" by simp_all
  from order_comparison [OF op y(3) d(2) e(3)] y d e(4) c show ?thesis by (simp add: condition_holds_def)
qed

lemma conjunction_eval:
  assumes "eval env (Binary (js ''&&'') l r i j) v es"
  obtains (short) a where "eval env l a es" "rv_value a = J_bool False" "rv_value v = J_bool False"
  | (long) a es1 b es2 t where "eval env l a es1" "rv_value a = J_bool True" "eval env r b es2"
      "rv_value b = J_bool t" "rv_value v = J_bool t" "es = es1 @ es2"
  using eval_nodeD [OF assms] by (auto elim!: eval_BinaryE simp: logical_operators_def)

text \<open>
  A conjunction holds exactly when all of its parts do.  The statement is proved once for
  any reading of the parts.
\<close>

lemma conjunction_parts:
  assumes part: "\<And>n c v es. part n = Some c \<Longrightarrow> eval env n v es \<Longrightarrow> es = [] \<and> rv_value v = J_bool (holds c)"
  shows "those (map part (flattenBinary n (js ''&&''))) = Some cs \<Longrightarrow> eval env n v es \<Longrightarrow>
    es = [] \<and> rv_value v = J_bool (list_all holds cs)"
proof (induction n "js ''&&''" arbitrary: cs v es rule: flattenBinary.induct)
  case (1 op l r i j)
  show ?case
  proof (cases "op = js ''&&''")
    case True
    with "1.prems"(1) obtain as bs where ab: "those (map part (flattenBinary l (js ''&&''))) = Some as"
      "those (map part (flattenBinary r (js ''&&''))) = Some bs" "cs = as @ bs"
      by (auto simp: those_map_append simp del: map_append)
    from "1.prems"(2) [unfolded True] show ?thesis
    proof (cases rule: conjunction_eval)
      case (short a)
      with "1.hyps"(1) [of as a es] True ab show ?thesis by simp
    next
      case (long a es1 b es2 t)
      with "1.hyps"(1) [of as a es1] "1.hyps"(2) [of bs b es2] True ab show ?thesis by simp
    qed
  next
    case False
    with "1.prems" part show ?thesis by (auto split: option.splits)
  qed
qed (use part in \<open>auto split: option.splits\<close>)

lemma tokenConditions_eval:
  assumes "tokenConditions n = Some cs" "eval env n v es"
  shows "es = [] \<and> rv_value v = J_bool (list_all (condition_holds (env_context env)) cs)"
  using conjunction_parts [of token_condition_of env "condition_holds (env_context env)" n cs v es]
    token_condition_eval assms by (simp add: tokenConditions_def)

section \<open>Prices\<close>

text \<open>A sum of the listed numbers in their order, with any grouping.\<close>

inductive sum_of :: "js_number list \<Rightarrow> js_number \<Rightarrow> bool" where
  sum_single: "sum_of [x] x"
| sum_plus: "sum_of xs a \<Longrightarrow> sum_of ys b \<Longrightarrow> sum_of (xs @ ys) (js_add a b)"

text \<open>
  What a price of the list is multiplied by: the amount of its variable or, for a price of
  \<open>p\<close> written with \<open>max(0, len - ai)\<close>, the input that is not audio.
\<close>

definition priced_amount :: "billing_context \<Rightarrow> jsstring \<Rightarrow> js_number \<Rightarrow> bool" where
  "priced_amount ctx x q \<longleftrightarrow> token_amount ctx x = Some q \<or>
     (x = js ''p'' \<and> (\<exists>l a z. token_amount ctx (js ''len'') = Some l \<and> token_amount ctx (js ''ai'') = Some a \<and>
        js_eq z zero_num \<and> (q = js_max z (js_sub l a) \<or> q = js_max (js_sub l a) z)))"

definition priced_value :: "billing_context \<Rightarrow> jsstring \<times> js_number \<Rightarrow> js_number \<Rightarrow> bool" where
  "priced_value ctx t k \<longleftrightarrow> (\<exists>q price. priced_amount ctx (fst t) q \<and> (price = snd t \<or> js_eq price (snd t)) \<and>
     (k = js_mul q price \<or> k = js_mul price q))"

lemma number_literal_eval:
  assumes "is_number_literal k n" "eval env n v es"
  shows "es = [] \<and> (\<exists>x. rv_value v = J_number x \<and> js_eq x k)"
  using assms by (cases "(k, n)" rule: is_number_literal.cases) (auto dest: literal_eval)

lemma price_literal_eval:
  assumes "nonnegativePriceLiteral n = Some price" "eval env n v es"
  shows "es = [] \<and> (\<exists>x. rv_value v = J_number x \<and> (x = price \<or> js_eq x price))"
proof (cases n)
  case (Literal l b i j)
  with assms show ?thesis
    by (auto simp: nonnegativePriceLiteral_def split: literal.splits if_splits dest!: literal_eval)
next
  case (Unary op x i j)
  with assms have op: "op = js ''-''" "is_number_literal zero_num x" and p: "price = js_neg zero_num"
    by (auto simp: nonnegativePriceLiteral_def split: if_splits)
  from eval_nodeD [OF assms(2)] Unary op obtain w k where w: "eval env x w es" "rv_value w = J_number k"
    "rv_value v = J_number (js_neg k)" by (auto elim!: eval_UnaryE)
  with number_literal_eval [OF op(2) w(1)] have "es = []" "js_eq k zero_num" by auto
  then have "js_eq (js_neg k) price" unfolding p by (cases k) (auto split: if_splits)
  with w \<open>es = []\<close> show ?thesis by simp
qed (use assms in \<open>auto simp: nonnegativePriceLiteral_def\<close>)

lemma text_input_eval:
  assumes "is_text_input n" "eval env n v es"
  shows "es = [] \<and> (\<exists>l a. token_amount (env_context env) (js ''len'') = Some l \<and>
    token_amount (env_context env) (js ''ai'') = Some a \<and> rv_value v = J_number (js_sub l a))"
proof -
  obtain i j i' j' s e where n: "n = Binary (js ''-'') (Variable (js ''len'') i j) (Variable (js ''ai'') i' j') s e"
    using assms(1) by (cases n rule: is_text_input.cases) auto
  from strict_eval [OF assms(2) [unfolded n] not_logical(1)] obtain a es1 b es2
    where e: "eval env (Variable (js ''len'') i j) a es1" "eval env (Variable (js ''ai'') i' j') b es2"
      "binary_values (js ''-'') s a b = Inr v" "es = es1 @ es2" .
  from variable_amount [OF e(1)] variable_amount [OF e(2)] e(3,4) show ?thesis
    by (auto simp: binary_values_def compare_values_def arithmetic_def)
qed

lemma max_eval:
  assumes "eval env (Call (js ''max'') [a, b] i j) v es"
  obtains u es1 x w es2 y where "eval env a u es1" "rv_value u = J_number x" "eval env b w es2" "rv_value w = J_number y"
    "rv_value v = J_number (js_max x y)" "es = es1 @ es2"
  using eval_nodeD [OF assms]
  by (auto simp: pair_functions_def single_functions_def TIME_FUNCTIONS_def elim!: eval_CallE)

lemma priced_variable_eval:
  assumes "priced_variable n = Some x" "eval env n v es"
  shows "es = [] \<and> (\<exists>q. rv_value v = J_number q \<and> priced_amount (env_context env) x q)"
proof (cases n rule: priced_variable.cases)
  case (1 y i j)
  with assms variable_amount [of env y i j v es] show ?thesis by (auto simp: priced_amount_def split: if_splits)
next
  case (2 f a b i j)
  have f: "f = js ''max''" and x: "x = js ''p''"
    and ab: "is_number_literal zero_num a \<and> is_text_input b \<or> is_number_literal zero_num b \<and> is_text_input a"
    using assms(1) 2 by (auto split: if_splits)
  from max_eval [OF assms(2) [unfolded 2 f]] obtain u es1 y w es2 z
    where e: "eval env a u es1" "rv_value u = J_number y" "eval env b w es2" "rv_value w = J_number z"
      "rv_value v = J_number (js_max y z)" "es = es1 @ es2" .
  from ab show ?thesis
  proof
    assume "is_number_literal zero_num a \<and> is_text_input b"
    with number_literal_eval [OF _ e(1)] text_input_eval [OF _ e(3)] e(2,4-6) x show ?thesis
      by (fastforce simp: priced_amount_def)
  next
    assume "is_number_literal zero_num b \<and> is_text_input a"
    with number_literal_eval [OF _ e(3)] text_input_eval [OF _ e(1)] e(2,4-6) x show ?thesis
      by (fastforce simp: priced_amount_def)
  qed
qed (use assms in auto)

lemma product_eval:
  assumes "eval env (Binary (js ''*'') l r i j) v es"
  obtains a es1 b es2 x y where "eval env l a es1" "eval env r b es2" "es = es1 @ es2"
    "rv_value a = J_number x" "rv_value b = J_number y" "rv_value v = J_number (js_mul x y)"
proof -
  from strict_eval [OF assms not_logical(2)] obtain a es1 b es2 where e: "eval env l a es1" "eval env r b es2"
    "binary_values (js ''*'') i a b = Inr v" "es = es1 @ es2" .
  from e(3) obtain x y where "rv_value a = J_number x" "rv_value b = J_number y" "rv_value v = J_number (js_mul x y)"
    by (cases "rv_value a"; cases "rv_value b") (auto simp: binary_values_def compare_values_def arithmetic_def throw_def)
  with e that show thesis by blast
qed

lemma price_term_eval:
  assumes "price_term n = Some t" "eval env n v es"
  shows "es = [] \<and> (\<exists>k. rv_value v = J_number k \<and> priced_value (env_context env) t k)"
proof -
  obtain l r i j where n: "n = Binary (js ''*'') l r i j"
    using assms(1) by (cases n rule: price_term.cases) (auto split: if_splits)
  from product_eval [OF assms(2) [unfolded n]] obtain a es1 b es2 x y
    where e: "eval env l a es1" "eval env r b es2" "es = es1 @ es2"
      "rv_value a = J_number x" "rv_value b = J_number y" "rv_value v = J_number (js_mul x y)" .
  obtain z price where t: "t = (z, price)" by (cases t)
  from assms(1) n t consider "nonnegativePriceLiteral r = Some price" "priced_variable l = Some z"
    | "nonnegativePriceLiteral l = Some price" "priced_variable r = Some z"
    by (auto split: option.splits)
  then show ?thesis
  proof cases
    case 1
    with price_literal_eval [OF 1(1) e(2)] priced_variable_eval [OF 1(2) e(1)] e t show ?thesis
      by (auto simp: priced_value_def)
  next
    case 2
    with price_literal_eval [OF 2(1) e(1)] priced_variable_eval [OF 2(2) e(2)] e t show ?thesis
      by (auto simp: priced_value_def)
  qed
qed

lemma add_price_terms_those:
  "add_price_terms ts prices = Some ps \<Longrightarrow> \<exists>qs. those (map price_term ts) = Some qs \<and> ps = prices @ qs"
  by (induction ts arbitrary: prices) (force split: option.splits if_splits prod.splits)+

lemma plus_eval:
  assumes "eval env (Binary (js ''+'') l r i j) v es" "rv_value v = J_number k"
  obtains a es1 b es2 x y where "eval env l a es1" "eval env r b es2" "es = es1 @ es2"
    "rv_value a = J_number x" "rv_value b = J_number y" "k = js_add x y"
proof -
  from strict_eval [OF assms(1) not_logical(3)] obtain a es1 b es2 where e: "eval env l a es1" "eval env r b es2"
    "binary_values (js ''+'') i a b = Inr v" "es = es1 @ es2" .
  from e(3) assms(2) obtain x y where "rv_value a = J_number x" "rv_value b = J_number y" "k = js_add x y"
    by (cases "rv_value a"; cases "rv_value b") (auto simp: binary_values_def compare_values_def arithmetic_def throw_def)
  with e that show thesis by blast
qed

text \<open>A sum evaluates to a sum of the values of its terms.\<close>

lemma sum_parts:
  assumes "\<And>p w es. p \<in> set (flattenBinary n (js ''+'')) \<Longrightarrow> eval env p w es \<Longrightarrow>
      es = [] \<and> (\<forall>x. rv_value w = J_number x \<longrightarrow> R p x)"
    and "eval env n v es" "rv_value v = J_number k"
  shows "es = [] \<and> (\<exists>ks. list_all2 R (flattenBinary n (js ''+'')) ks \<and> sum_of ks k)"
  using assms
proof (induction n "js ''+''" arbitrary: v es k rule: flattenBinary.induct)
  case (1 op l r i j)
  show ?case
  proof (cases "op = js ''+''")
    case True
    from plus_eval [OF "1.prems"(2) [unfolded True] "1.prems"(3)] obtain a es1 b es2 x y
      where e: "eval env l a es1" "eval env r b es2" "es = es1 @ es2"
        "rv_value a = J_number x" "rv_value b = J_number y" "k = js_add x y" .
    have t: "\<not> op \<noteq> js ''+''" using True by simp
    from "1.hyps"(1) [OF t "1.prems"(1) e(1,4)] "1.hyps"(2) [OF t "1.prems"(1) e(2,5)] e(3,6) True show ?thesis
      by (auto intro: sum_plus list_all2_appendI)
  next
    case False
    with "1.prems" show ?thesis by (auto intro!: exI [of _ "[k]"] sum_single)
  qed
qed (force intro: sum_single)+

lemma those_list_all2:
  "those (map f xs) = Some ys \<Longrightarrow> list_all2 (\<lambda>x k. \<exists>y. f x = Some y \<and> Q y k) xs ks \<Longrightarrow> list_all2 Q ys ks"
  by (induction xs arbitrary: ys ks) (auto simp: list_all2_Cons1 split: option.splits)

lemma those_defined: "those (map f xs) = Some ys \<Longrightarrow> x \<in> set xs \<Longrightarrow> \<exists>y. f x = Some y"
  by (induction xs arbitrary: ys) (auto split: option.splits)

lemma linear_price_eval:
  assumes "those (map price_term (flattenBinary n (js ''+''))) = Some ps" "eval env n v es" "rv_value v = J_number k"
  shows "es = [] \<and> (\<exists>ks. list_all2 (priced_value (env_context env)) ps ks \<and> sum_of ks k)"
proof -
  let ?R = "\<lambda>p x. \<exists>t. price_term p = Some t \<and> priced_value (env_context env) t x"
  have "es = [] \<and> (\<forall>x. rv_value w = J_number x \<longrightarrow> ?R p x)"
    if "p \<in> set (flattenBinary n (js ''+''))" "eval env p w es" for p w es
    using those_defined [OF assms(1) that(1)] price_term_eval [OF _ that(2)] by fastforce
  from sum_parts [of n env ?R, OF this assms(2,3)] those_list_all2 [OF assms(1)] show ?thesis by blast
qed

section \<open>Tiers\<close>

definition tier_events :: "token_tier \<Rightarrow> event list" where
  "tier_events t = (case tt_fixedPrice t of None \<Rightarrow> [] | Some x \<Rightarrow> [Fixed x]) @ [Tier (tt_label t)]"

definition tier_cost :: "billing_context \<Rightarrow> token_tier \<Rightarrow> js_number \<Rightarrow> bool" where
  "tier_cost ctx t k \<longleftrightarrow>
     (case tt_fixedPrice t of
        Some x \<Rightarrow> k = js_mul x (num 1000000)
      | None \<Rightarrow> (\<exists>ks. list_all2 (priced_value ctx) (tt_prices t) ks \<and> sum_of ks k))"

text \<open>
  Whether a tier of the list is meant for a request: its conditions hold or, for the two
  tiers that split requests by audio tokens, the request has audio tokens or not.
\<close>

definition has_audio :: "billing_context \<Rightarrow> bool" where
  "has_audio ctx \<longleftrightarrow> (\<exists>x \<in> {js ''ai'', js ''ao''}. \<exists>k. token_amount ctx x = Some k \<and> js_less zero_num k)"

definition tier_applies :: "billing_context \<Rightarrow> token_tier \<Rightarrow> bool" where
  "tier_applies ctx t \<longleftrightarrow>
     (if tt_conditionText t = Some (js ''Audio requests'') then has_audio ctx
      else if tt_conditionText t = Some (js ''Text-only requests'') then \<not> has_audio ctx
      else list_all (condition_holds ctx) (tt_conditions t))"

text \<open>The evaluation of a tier, whatever the conditions in front of it.\<close>

definition tier_evaluated :: "billing_context \<Rightarrow> token_tier \<Rightarrow> rvalue \<Rightarrow> event list \<Rightarrow> bool" where
  "tier_evaluated ctx t v es \<longleftrightarrow> filter is_pricing es = tier_events t \<and>
     (\<not> tt_imageCount t \<longrightarrow> (\<exists>k. rv_value v = J_number k \<and> tier_cost ctx t k))"

lemma tier_evaluated_fields [simp]:
  "tier_evaluated ctx (t\<lparr>tt_conditionText := x\<rparr>) v es = tier_evaluated ctx t v es"
  "tier_evaluated ctx (t\<lparr>tt_conditions := cs\<rparr>) v es = tier_evaluated ctx t v es"
  by (simp_all add: tier_evaluated_def tier_events_def tier_cost_def cong: option.case_cong)

lemma tier_evaluated_events:
  "filter is_pricing es = filter is_pricing es' \<Longrightarrow> tier_evaluated ctx t v es = tier_evaluated ctx t v es'"
  by (simp add: tier_evaluated_def)

lemma tier_call_eval:
  assumes "eval env (Call (js ''tier'') (a # b # as) i j) v es"
  obtains u es1 name w es2 x where "eval env a u es1" "rv_value u = J_string name" "eval env b w es2"
    "rv_value w = J_number x" "rv_value v = J_number x" "es = es1 @ es2 @ [Tier name]"
  using eval_nodeD [OF assms]
  by (auto simp: pair_functions_def single_functions_def TIME_FUNCTIONS_def elim!: eval_CallE)

lemma fixed_literal_eval:
  assumes "fixed_literal n = Some x" "eval env n v es"
  shows "es = [Fixed x] \<and> rv_value v = J_number (js_mul x (num 1000000))"
proof -
  obtain b i j as s e where n: "n = Call (js ''fixed'') (Literal (NumberLit x) b i j # as) s e"
    using assms(1) by (cases n rule: fixed_literal.cases) (auto split: if_splits)
  from eval_nodeD [OF assms(2)] n show ?thesis
    by (auto simp: pair_functions_def single_functions_def TIME_FUNCTIONS_def elim!: eval_CallE dest!: literal_eval)
qed

lemma tokenTier_fields:
  assumes "tokenTier n cs = Some t"
  shows "tt_conditions t = cs \<and> tt_conditionText t = None \<and> \<not> tt_imageCount t"
  using assms by (cases "(n, cs)" rule: tokenTier.cases) (auto simp: plain_tier_def split: if_splits option.splits)

lemma tokenTier_applies:
  "tokenTier n cs = Some t \<Longrightarrow> tier_applies ctx t = list_all (condition_holds ctx) cs"
  using tokenTier_fields [of n cs t] by (simp add: tier_applies_def)

lemma tokenTier_eval:
  assumes "tokenTier n cs = Some t" "eval env n v es"
  shows "tier_evaluated (env_context env) t v es"
proof -
  obtain label b i j body as s e where n: "n = Call (js ''tier'') (Literal (StringLit label) b i j # body # as) s e"
    using assms(1) by (cases "(n, cs)" rule: tokenTier.cases) (auto split: if_splits)
  from tier_call_eval [OF assms(2) [unfolded n]] obtain u es1 name w es2 x
    where e: "eval env (Literal (StringLit label) b i j) u es1" "rv_value u = J_string name" "eval env body w es2"
      "rv_value w = J_number x" "rv_value v = J_number x" "es = es1 @ es2 @ [Tier name]" .
  from literal_eval [OF e(1)] e(2) have l: "es1 = []" "name = label" by simp_all
  show ?thesis
  proof (cases "fixed_literal body")
    case (Some y)
    from fixed_literal_eval [OF Some e(3)] e(4-6) l Some assms(1) n show ?thesis
      by (auto simp: tier_evaluated_def tier_events_def tier_cost_def plain_tier_def)
  next
    case None
    with assms(1) n obtain ps where ps: "add_price_terms (flattenBinary body (js ''+'')) [] = Some ps" "t = plain_tier label cs ps"
      by (auto split: option.splits if_splits)
    with add_price_terms_those [OF ps(1)] have "those (map price_term (flattenBinary body (js ''+''))) = Some ps" by auto
    from linear_price_eval [OF this e(3,4)] e(5,6) l ps(2) show ?thesis
      by (auto simp: tier_evaluated_def tier_events_def tier_cost_def plain_tier_def)
  qed
qed

text \<open>The tier that a list selects for a request is the one the evaluation names.\<close>

definition selected :: "billing_context \<Rightarrow> token_tier list \<Rightarrow> rvalue \<Rightarrow> event list \<Rightarrow> bool" where
  "selected ctx ts v es \<longleftrightarrow> (\<exists>t. find (tier_applies ctx) ts = Some t \<and> tier_evaluated ctx t v es)"

lemma conditional_eval:
  assumes "eval env (Conditional c y n i j) v es"
  obtains b es1 t es2 where "eval env c b es1" "rv_value b = J_bool t" "eval env (if t then y else n) v es2"
    "filter is_pricing es = filter is_pricing es1 @ filter is_pricing es2"
proof -
  from eval_nodeD [OF assms] obtain b es1 t es2 where "eval env c b es1" "rv_value b = J_bool t"
    "eval env (if t then y else n) v es2" "es = es1 @ (if t then [Matched (Conditional c y n i j)] else []) @ es2"
    by (rule eval_ConditionalE)
  with that show thesis by auto
qed

lemma tier_chain_eval:
  "tier_chain n = Some ts \<Longrightarrow> eval env n v es \<Longrightarrow> selected (env_context env) ts v es"
proof (induction n arbitrary: ts v es rule: tier_chain.induct)
  case (1 c y no i j)
  then obtain cs t ts' where cs: "tokenConditions c = Some cs" and t: "tokenTier y cs = Some t"
    and ts: "tier_chain no = Some ts'" "ts = t # ts'" by (auto split: option.splits)
  from "1.prems"(2) obtain b es1 h es2 where e: "eval env c b es1" "rv_value b = J_bool h"
    "eval env (if h then y else no) v es2" "filter is_pricing es = filter is_pricing es1 @ filter is_pricing es2"
    by (rule conditional_eval)
  from tokenConditions_eval [OF cs e(1)] e(2,4)
  have h: "h = list_all (condition_holds (env_context env)) cs" "filter is_pricing es = filter is_pricing es2" by simp_all
  show ?case
  proof (cases h)
    case True
    with e(3) tokenTier_eval [OF t, of env v es2] tokenTier_applies [OF t] h ts show ?thesis
      by (auto simp: selected_def tier_evaluated_def)
  next
    case False
    with "1.IH" [OF cs t ts(1), of v es2] tokenTier_applies [OF t] e(3) h ts(2) show ?thesis
      by (auto simp: selected_def tier_evaluated_def)
  qed
qed (auto simp: selected_def tokenTier_applies dest: tokenTier_eval)

lemma disjunction_eval:
  assumes "eval env (Binary (js ''||'') l r i j) v es"
  obtains (short) a where "eval env l a es" "rv_value a = J_bool True" "rv_value v = J_bool True"
  | (long) a es1 b es2 t where "eval env l a es1" "rv_value a = J_bool False" "eval env r b es2"
      "rv_value b = J_bool t" "rv_value v = J_bool t" "es = es1 @ es2"
  using eval_nodeD [OF assms] by (auto elim!: eval_BinaryE simp: logical_operators_def)

definition positive_amount :: "billing_context \<Rightarrow> jsstring \<Rightarrow> bool" where
  "positive_amount ctx x \<longleftrightarrow> (\<exists>k. token_amount ctx x = Some k \<and> js_less zero_num k)"

lemma js_less_zero_cong: "js_eq z zero_num \<Longrightarrow> js_less z k = js_less zero_num k"
  by (cases z; cases k) (auto simp: align_def)

lemma audio_variable_eval:
  assumes "audio_variable n = Some x" "eval env n v es"
  shows "es = [] \<and> rv_value v = J_bool (positive_amount (env_context env) x)"
proof -
  obtain i j r s e where n: "n = Binary (js ''>'') (Variable x i j) r s e"
    and x: "x \<noteq> js ''image_count''" and r: "is_number_literal zero_num r"
    using assms(1) by (cases n rule: audio_variable.cases) (auto split: if_splits)
  from strict_eval [OF assms(2) [unfolded n] not_logical(5)] obtain a es1 b es2
    where e: "eval env (Variable x i j) a es1" "eval env r b es2" "binary_values (js ''>'') s a b = Inr v" "es = es1 @ es2" .
  from variable_amount [OF e(1) x] obtain k where k: "es1 = []" "token_amount (env_context env) x = Some k" "rv_value a = J_number k"
    by blast
  from number_literal_eval [OF r e(2)] obtain z where z: "es2 = []" "rv_value b = J_number z" "js_eq z zero_num" by blast
  have "rv_value v = J_bool (js_less z k)" using e(3) k(3) z(2) by (auto simp: binary_values_def compare_values_def)
  with k z e(4) js_less_zero_cong [OF z(3), of k] show ?thesis by (simp add: positive_amount_def)
qed

lemma present_audio_two:
  assumes "card (present_audio [l, r]) = 2"
  obtains x y where "audio_variable l = Some x" "audio_variable r = Some y" "{x, y} = {js ''ai'', js ''ao''}"
proof -
  have "audio_variable n = Some x \<Longrightarrow> x \<in> {js ''ai'', js ''ao''}" for n x
    by (cases n rule: audio_variable.cases) (auto split: if_splits)
  moreover obtain x y where "audio_variable l = Some x" "audio_variable r = Some y" "x \<noteq> y"
    using assms by (cases "audio_variable l"; cases "audio_variable r")
      (auto simp: present_audio_def map_filter_simps card_insert_if split: if_splits)
  ultimately show thesis using that [of x y] by blast
qed

lemma audio_condition_eval:
  assumes "card (present_audio [l, r]) = 2" "eval env (Binary (js ''||'') l r i j) v es"
  shows "es = [] \<and> rv_value v = J_bool (has_audio (env_context env))"
proof -
  from assms(1) obtain x y where xy: "audio_variable l = Some x" "audio_variable r = Some y" "{x, y} = {js ''ai'', js ''ao''}"
    by (rule present_audio_two)
  then have h: "has_audio (env_context env) \<longleftrightarrow> positive_amount (env_context env) x \<or> positive_amount (env_context env) y"
    unfolding has_audio_def positive_amount_def by (metis insert_iff singletonD)
  from assms(2) show ?thesis
  proof (cases rule: disjunction_eval)
    case (short a)
    with audio_variable_eval [OF xy(1) short(1)] h show ?thesis by simp
  next
    case (long a es1 b es2 t)
    with audio_variable_eval [OF xy(1) long(1)] audio_variable_eval [OF xy(2) long(3)] h show ?thesis by simp
  qed
qed

lemma audio_tiers_eval:
  assumes "audio_tiers n = Some ts" "eval env n v es"
  shows "selected (env_context env) ts v es"
proof -
  from assms(1) obtain l r i j y no s e audio txt' where n: "n = Conditional (Binary (js ''||'') l r i j) y no s e"
    and c: "card (present_audio [l, r]) = 2" and a: "tokenTier y [] = Some audio" and t: "tokenTier no [] = Some txt'"
    and ts: "ts = [audio\<lparr>tt_conditionText := Some (js ''Audio requests'')\<rparr>, txt'\<lparr>tt_conditionText := Some (js ''Text-only requests'')\<rparr>]"
    by (auto simp: audio_tiers_def split: node.splits if_splits option.splits)
  from conditional_eval [OF assms(2) [unfolded n]] obtain b es1 h es2
    where e: "eval env (Binary (js ''||'') l r i j) b es1" "rv_value b = J_bool h"
      "eval env (if h then y else no) v es2" "filter is_pricing es = filter is_pricing es1 @ filter is_pricing es2" .
  from audio_condition_eval [OF c e(1)] e(2,4) have h: "h = has_audio (env_context env)"
    "filter is_pricing es = filter is_pricing es2" by simp_all
  with tokenTier_eval [OF a, of env v es2] tokenTier_eval [OF t, of env v es2] e(3) ts show ?thesis
    by (cases h) (auto simp: selected_def tier_applies_def tier_evaluated_events [OF h(2)])
qed

lemma find_map: "find P (map f xs) = map_option f (find (P \<circ> f) xs)"
  by (induction xs) auto

lemma selected_image_count:
  assumes "selected ctx ts w es'" "filter is_pricing es = filter is_pricing es'"
  shows "selected ctx (map (\<lambda>t. t\<lparr>tt_imageCount := True\<rparr>) ts) v es"
proof -
  from assms(1) obtain t where t: "find (tier_applies ctx) ts = Some t" "tier_evaluated ctx t w es'"
    by (auto simp: selected_def)
  have "tier_applies ctx \<circ> (\<lambda>t. t\<lparr>tt_imageCount := True\<rparr>) = tier_applies ctx"
    by (rule ext) (simp add: tier_applies_def)
  with t(1) have "find (tier_applies ctx) (map (\<lambda>t. t\<lparr>tt_imageCount := True\<rparr>) ts) = Some (t\<lparr>tt_imageCount := True\<rparr>)"
    by (simp add: find_map)
  with t(2) assms(2) show ?thesis by (simp add: selected_def tier_evaluated_def tier_events_def)
qed

lemma image_count_eval: "is_image_count n \<Longrightarrow> eval env n v es \<Longrightarrow> es = []"
  by (cases n rule: is_image_count.cases) (auto dest!: eval_nodeD elim: eval_VariableE)

theorem readTokenTierChain_eval:
  "readTokenTierChain n = Some ts \<Longrightarrow> eval env n v es \<Longrightarrow> selected (env_context env) ts v es"
proof (induction n arbitrary: ts v es rule: readTokenTierChain.induct)
  case (1 op l r i j)
  show ?case
  proof (cases "op = js ''*'' \<and> (is_image_count l \<or> is_image_count r)")
    case True
    then have "eval env (Binary (js ''*'') l r i j) v es" using "1.prems"(2) by simp
    then obtain a es1 b es2 where e: "eval env l a es1" "eval env r b es2" "es = es1 @ es2" by (rule product_eval)
    show ?thesis
    proof (cases "is_image_count l")
      case l: True
      with True "1.prems"(1) obtain us where us: "readTokenTierChain r = Some us"
        "ts = map (\<lambda>t. t\<lparr>tt_imageCount := True\<rparr>) us" by auto
      with "1.IH"(1) [OF _ us(1) e(2)] True l image_count_eval [OF l e(1)] e(3) selected_image_count show ?thesis by simp
    next
      case False
      then have r: "is_image_count r" using True by simp
      with True False "1.prems"(1) obtain us where us: "readTokenTierChain l = Some us"
        "ts = map (\<lambda>t. t\<lparr>tt_imageCount := True\<rparr>) us" by auto
      with "1.IH"(2) [OF _ _ us(1) e(1)] True False r image_count_eval [OF r e(2)] e(3) selected_image_count show ?thesis by simp
    qed
  next
    case False
    with "1.prems" show ?thesis by (auto intro: tier_chain_eval)
  qed
qed (auto simp del: tier_chain.simps split: option.splits intro: tier_chain_eval audio_tiers_eval)

text \<open>The result of an evaluation, read off the price list.\<close>

definition billed_as :: "billing_context \<Rightarrow> token_tier \<Rightarrow> billing_result \<Rightarrow> bool" where
  "billed_as ctx t res \<longleftrightarrow> res_tier res = tt_label t \<and> res_fixedPrice res = tt_fixedPrice t \<and>
     (res_unit res = Unit_request \<longleftrightarrow> tt_fixedPrice t \<noteq> None) \<and>
     (\<not> tt_imageCount t \<longrightarrow> tier_cost ctx t (res_cost res))"

lemma tier_evaluated_result:
  assumes "new_runtime pf c ctx = Inr (env, st)" "tier_evaluated ctx t v es" "rv_value v = J_number (res_cost res)"
    "res_unit res = rt_unit (apply_events env es st)" "res_fixedPrice res = rt_fixed (apply_events env es st)"
    "res_tier res = rt_tier (apply_events env es st)"
  shows "billed_as ctx t res"
proof -
  note start = new_runtime_fields [OF assms(1)]
  from assms(2) have f: "filter is_pricing es = tier_events t" by (simp add: tier_evaluated_def)
  have "res_tier res = tt_label t" unfolding assms(6) apply_events_pricing(1) [of env es] f
    by (simp add: tier_events_def split: option.splits)
  moreover have "res_fixedPrice res = tt_fixedPrice t" unfolding assms(5) apply_events_pricing(3) [of env es] f
    using start by (simp add: tier_events_def split: option.splits)
  moreover have "res_unit res = Unit_request \<longleftrightarrow> tt_fixedPrice t \<noteq> None" unfolding assms(4) apply_events_pricing(2) [of env es] f
    using start by (simp add: tier_events_def split: option.splits)
  moreover have "\<not> tt_imageCount t \<longrightarrow> tier_cost ctx t (res_cost res)"
    using assms(2,3) by (auto simp: tier_evaluated_def)
  ultimately show ?thesis by (simp add: billed_as_def)
qed

theorem token_tiers_billed:
  assumes "run_compiled pf c ctx = Inr res" "readTokenTierChain (ast c) = Some ts"
  shows "\<exists>t. find (tier_applies ctx) ts = Some t \<and> billed_as ctx t res"
proof -
  from assms(1) obtain env st v es where r: "new_runtime pf c ctx = Inr (env, st)" "eval env (ast c) v es"
    "rv_value v = J_number (res_cost res)"
    "res_unit res = rt_unit (apply_events env es st)" "res_fixedPrice res = rt_fixed (apply_events env es st)"
    "res_tier res = rt_tier (apply_events env es st)" by (rule run_compiled_events)
  have ctx: "env_context env = ctx" using new_runtime_fields [OF r(1)] by simp
  from readTokenTierChain_eval [OF assms(2) r(2)] ctx obtain t where t: "find (tier_applies ctx) ts = Some t" "tier_evaluated ctx t v es"
    by (auto simp: selected_def)
  with tier_evaluated_result [OF r(1) t(2) r(3-6)] show ?thesis by blast
qed

section \<open>Clock conditions\<close>

text \<open>
  A clock condition reads nothing but the clock, so evaluating it for the price list, with
  an empty context, gives what it gives inside an evaluation.
\<close>

definition same_clock :: "runtime_env \<Rightarrow> runtime_env \<Rightarrow> bool" where
  "same_clock env env' \<longleftrightarrow> env_platform env = env_platform env' \<and> env_now env = env_now env'"

definition clock_only :: "node \<Rightarrow> bool" where
  "clock_only n \<longleftrightarrow> node_variables n = {} \<and> node_functions n \<subseteq> set time_condition_functions"

lemma node_variables_children:
  "node_variables n =
     (case n of Variable x _ _ \<Rightarrow> {x} | _ \<Rightarrow> {}) \<union> (\<Union>c \<in> set (children n). node_variables c)"
  unfolding node_variables_def by (subst postorder_children) (auto split: node.splits)

lemma clock_only_children:
  "clock_only n \<longleftrightarrow> (case n of Variable _ _ _ \<Rightarrow> False | Call f _ _ _ \<Rightarrow> f \<in> set time_condition_functions | _ \<Rightarrow> True) \<and>
     (\<forall>c \<in> set (children n). clock_only c)"
  by (subst clock_only_def, subst node_functions_children, subst node_variables_children)
    (cases n; auto simp: clock_only_def)

lemmas clock_only_simps [simp] =
  clock_only_children [of "Literal _ _ _ _", simplified] clock_only_children [of "Variable _ _ _", simplified]
  clock_only_children [of "Unary _ _ _ _", simplified] clock_only_children [of "Binary _ _ _ _ _", simplified]
  clock_only_children [of "Conditional _ _ _ _ _", simplified] clock_only_children [of "Call _ _ _ _", simplified]

lemma clock_only_eval:
  "eval env n v es \<Longrightarrow> same_clock env env' \<Longrightarrow> clock_only n \<Longrightarrow> eval env' n v es"
  "eval_node env n v es \<Longrightarrow> same_clock env env' \<Longrightarrow> clock_only n \<Longrightarrow> eval_node env' n v es"
proof (induction rule: eval_eval_node.inducts)
  case (eval_conditional c b es t y n v es' i j)
  then show ?case by (intro eval_eval_node.eval_conditional) auto
next
  case (eval_sign op x v es k i j)
  then show ?case by (intro eval_eval_node.eval_sign) auto
next
  case (eval_time f a v es zone tv as i j)
  then show ?case by (intro eval_eval_node.eval_time) (auto simp: same_clock_def)
qed (auto intro: eval_eval_node.intros simp: time_condition_functions_def TIME_FUNCTIONS_def)

lemma isTimeCondition_iff:
  "isTimeCondition n = Inr True \<Longrightarrow> clock_only n"
  by (auto simp: isTimeCondition_def expressionDependencies_eq clock_only_def throw_def split: if_splits)

lemma clock_condition_current:
  assumes "new_runtime pf c ctx = Inr (env, st)" "ctx_now ctx = Some now" "clock_only n" "height n \<le> 255"
    "eval env n v es" "rv_value v = J_bool b"
  shows "evaluateBillingCondition pf c n now = Some b"
proof -
  let ?ctx = "empty_context\<lparr>ctx_now := Some now\<rparr>"
  obtain env' st' where new: "new_runtime pf c ?ctx = Inr (env', st')"
    by (simp add: new_runtime_def empty_context_def)
  have "same_clock env env'"
    using assms(1,2) new by (auto simp: new_runtime_def same_clock_def rbind_eq_Inr empty_context_def)
  from clock_only_eval(1) [OF assms(5) this assms(3)] have "eval env' n v es" .
  with evaluate_iff [of env' st' n v] new_runtime_fields [OF new] assms(4)
  obtain st'' where "evaluate env' n st' = Inr (v, st'')" by auto
  with new assms(6) show ?thesis by (simp add: evaluateBillingCondition_def)
qed

section \<open>Tiers that depend on the clock\<close>

lemma timeTierBranches_path:
  "timeTierBranches src n path = Inr (Some ts) \<Longrightarrow> t \<in> set ts \<Longrightarrow> set path \<subseteq> set (tt_timeConditions t)"
proof (induction src n path arbitrary: ts rule: timeTierBranches.induct)
  case (1 src c y no i j path)
  show ?case
  proof (cases "isTimeCondition c = Inr True")
    case True
    with "1.prems"(1) obtain ys ns where yn: "timeTierBranches src y (path @ [(c, True)]) = Inr (Some ys)"
      "timeTierBranches src no (path @ [(c, False)]) = Inr (Some ns)" "ts = ys @ ns"
      by (auto simp: rbind_eq_Inr split: option.splits)
    with "1.prems"(2) "1.IH"(1) [OF True] "1.IH"(2) [OF True] show ?thesis by fastforce
  next
    case False
    with "1.prems" show ?thesis
      by (auto simp: rbind_eq_Inr tier_leaf_def time_tier_def Let_def token_tier.defs time_token_tier.defs split: option.splits if_splits)
  qed
qed (auto simp: tier_leaf_def time_tier_def Let_def token_tier.defs split: option.splits if_splits)

lemma no_marker_clock: "clock_only n \<Longrightarrow> \<not> has_marker n"
  by (auto simp: clock_only_def has_marker_def time_condition_functions_def TIME_FUNCTIONS_def)

lemma not_current:
  assumes "evaluateBillingCondition pf prog c now = Some h" "(c, \<not> h) \<in> set path" "timeTierBranches src n path = Inr (Some ts)"
  shows "filter (is_current pf prog now) ts = []"
proof -
  have "\<not> is_current pf prog now t" if "t \<in> set ts" for t
    using timeTierBranches_path [OF assms(3) that] assms(1,2) by (fastforce simp: is_current_def)
  then show ?thesis by (simp add: filter_empty_conv)
qed

lemma tier_leaf_current:
  assumes "tier_leaf src n path = Some ts" "\<forall>(c, m) \<in> set path. evaluateBillingCondition pf prog c now = Some m"
  shows "\<exists>us. readTokenTierChain n = Some us \<and> filter (is_current pf prog now) ts = map (time_tier src path) us"
proof -
  from assms(1) obtain us where us: "readTokenTierChain n = Some us" "ts = map (time_tier src path) us"
    by (auto simp: tier_leaf_def split: option.splits if_splits)
  have "is_current pf prog now (time_tier src path u)" for u
    using assms(2) by (simp add: is_current_def time_tier_def Let_def token_tier.defs)
  with us show ?thesis by simp
qed

text \<open>
  The tiers that are current are those of the branch the evaluation takes, and the first of
  them whose conditions hold is the tier it names.
\<close>

definition branch_taken ::
    "platform \<Rightarrow> compiled \<Rightarrow> billing_context \<Rightarrow> date \<Rightarrow> time_token_tier list \<Rightarrow> rvalue \<Rightarrow> event list \<Rightarrow> bool" where
  "branch_taken pf c ctx now ts v es \<longleftrightarrow>
     (\<exists>leaf path us. readTokenTierChain leaf = Some us \<and>
        filter (is_current pf c now) ts = map (time_tier (source c) path) us \<and> selected ctx us v es)"

lemma selected_events:
  "filter is_pricing es = filter is_pricing es' \<Longrightarrow> selected ctx us v es = selected ctx us v es'"
  unfolding selected_def using tier_evaluated_events [of es es' ctx _ v] by simp

lemma leaf_taken:
  assumes "env_context env = ctx" "tier_leaf (source prog) n path = Some ts"
    "\<forall>(c, m) \<in> set path. evaluateBillingCondition pf prog c now = Some m" "eval env n v es"
  shows "branch_taken pf prog ctx now ts v es"
  using tier_leaf_current [OF assms(2,3)] readTokenTierChain_eval [OF _ assms(4)] assms(1)
  unfolding branch_taken_def by blast

lemma timeTierBranches_eval:
  assumes new: "new_runtime pf prog ctx = Inr (env, st)" and now: "ctx_now ctx = Some now"
  shows "timeTierBranches (source prog) n path = Inr (Some ts) \<Longrightarrow> eval env n v es \<Longrightarrow> height n \<le> 256 \<Longrightarrow>
    \<forall>(c, m) \<in> set path. evaluateBillingCondition pf prog c now = Some m \<Longrightarrow> branch_taken pf prog ctx now ts v es"
proof (induction "source prog" n path arbitrary: ts v es rule: timeTierBranches.induct)
  case (1 c y no i j path)
  have ctx: "env_context env = ctx" using new_runtime_fields [OF new] by simp
  show ?case
  proof (cases "isTimeCondition c = Inr True")
    case True
    with "1.prems"(1) obtain ys ns where yn: "timeTierBranches (source prog) y (path @ [(c, True)]) = Inr (Some ys)"
      "timeTierBranches (source prog) no (path @ [(c, False)]) = Inr (Some ns)" "ts = ys @ ns"
      by (auto simp: rbind_eq_Inr split: option.splits)
    have co: "clock_only c" using True by (rule isTimeCondition_iff)
    have ht: "height c \<le> 255" "height y \<le> 256" "height no \<le> 256"
      using "1.prems"(3) unfolding height_le_iff [of "Conditional c y no i j"] by auto
    from "1.prems"(2) obtain b es1 h es2 where e: "eval env c b es1" "rv_value b = J_bool h"
      "eval env (if h then y else no) v es2" "filter is_pricing es = filter is_pricing es1 @ filter is_pricing es2"
      by (rule conditional_eval)
    have cur: "evaluateBillingCondition pf prog c now = Some h"
      using clock_condition_current [OF new now co ht(1) e(1,2)] .
    have es: "filter is_pricing es = filter is_pricing es2"
      using no_marker_no_pricing(1) [OF e(1) no_marker_clock [OF co]] e(4) by simp
    show ?thesis
    proof (cases h)
      case h: True
      with "1.hyps"(1) [OF True _ yn(1) _ ht(2)] e(3) cur "1.prems"(4) have "branch_taken pf prog ctx now ys v es2" by auto
      moreover have "filter (is_current pf prog now) ns = []" using not_current [OF cur _ yn(2)] h by simp
      ultimately show ?thesis using yn(3) selected_events [OF es] by (simp add: branch_taken_def)
    next
      case h: False
      with "1.hyps"(2) [OF True _ yn(1,2) _ ht(3)] e(3) cur "1.prems"(4) have "branch_taken pf prog ctx now ns v es2" by auto
      moreover have "filter (is_current pf prog now) ys = []" using not_current [OF cur _ yn(1)] h by simp
      ultimately show ?thesis using yn(3) selected_events [OF es] by (simp add: branch_taken_def)
    qed
  next
    case False
    with "1.prems"(1) have "tier_leaf (source prog) (Conditional c y no i j) path = Some ts" by (auto simp: rbind_eq_Inr)
    from leaf_taken [OF ctx this "1.prems"(4,2)] show ?thesis .
  qed
qed (use new_runtime_fields(2) [OF new] in \<open>auto intro: leaf_taken\<close>)

theorem time_tiers_billed:
  assumes "run_compiled pf c ctx = Inr res" "ctx_now ctx = Some now" "height (ast c) \<le> 256"
    "timeTierBranches (source c) (ast c) [] = Inr (Some ts)"
  shows "\<exists>leaf path us t. readTokenTierChain leaf = Some us \<and>
    filter (is_current pf c now) ts = map (time_tier (source c) path) us \<and>
    find (tier_applies ctx) us = Some t \<and> billed_as ctx t res"
proof -
  from assms(1) obtain env st v es where r: "new_runtime pf c ctx = Inr (env, st)" "eval env (ast c) v es"
    "rv_value v = J_number (res_cost res)"
    "res_unit res = rt_unit (apply_events env es st)" "res_fixedPrice res = rt_fixed (apply_events env es st)"
    "res_tier res = rt_tier (apply_events env es st)" by (rule run_compiled_events)
  from timeTierBranches_eval [OF r(1) assms(2,4) r(2) assms(3)] obtain leaf path us t
    where "readTokenTierChain leaf = Some us" "filter (is_current pf c now) ts = map (time_tier (source c) path) us"
      "find (tier_applies ctx) us = Some t" and t: "tier_evaluated ctx t v es"
    by (auto simp: branch_taken_def selected_def)
  with tier_evaluated_result [OF r(1) t r(3-6)] show ?thesis by blast
qed

end
