(* ===== verification/TaskFacts.thy ===== *)
theory TaskFacts
  imports DisplayFacts "HOL-Library.Multiset"
begin

text \<open>
  The task tiers of \<open>Display\<close> say what the evaluator does with the facts of a task,
  provided the facts are values that the schema declares.
\<close>

definition fact_holds :: "usage_schema \<Rightarrow> (jsstring \<times> json) list \<Rightarrow> jsstring \<times> jsstring \<Rightarrow> bool" where
  "fact_holds schema us c \<longleftrightarrow>
     map_of us (fst c) = Some (if is_type (map_of schema (fst c)) ''boolean'' then J_bool (snd c = js ''true'') else J_string (snd c))"

definition task_applies :: "usage_schema \<Rightarrow> (jsstring \<times> json) list \<Rightarrow> task_tier \<Rightarrow> bool" where
  "task_applies schema us t \<longleftrightarrow> list_all (fact_holds schema us) (kt_conditions t)"

text \<open>The facts are declared: a text for an enumerated field is one of its values.\<close>

definition facts_declared :: "usage_schema \<Rightarrow> (jsstring \<times> json) list \<Rightarrow> bool" where
  "facts_declared schema us \<longleftrightarrow>
     (\<forall>(field, v) \<in> set us. case (v, schema_enum (map_of schema field)) of
        (J_string s, Some vals) \<Rightarrow> is_type (map_of schema field) ''boolean'' \<or> s \<in> set vals
      | _ \<Rightarrow> True)"

definition usage_fact :: "(jsstring \<times> json) list \<Rightarrow> jsstring \<Rightarrow> json" where
  "usage_fact us field = (case map_of us field of Some v \<Rightarrow> v | None \<Rightarrow> J_null)"

lemma strict_eq_iff: "strict_eq a (J_string s) \<longleftrightarrow> a = J_string s" "strict_eq a (J_bool b) \<longleftrightarrow> a = J_bool b"
  by (cases a; auto)+

lemma usage_probe_eval:
  assumes "usage_probe n = Some field" "eval env n v es" "ctx_usage (env_context env) = Some us"
  shows "es = [] \<and> rv_value v = usage_fact us field"
proof -
  obtain b i j as s e where n: "n = Call (js ''u'') (Literal (StringLit field) b i j # as) s e"
    using assms(1) by (cases n rule: usage_probe.cases) (auto split: if_splits)
  from eval_nodeD [OF assms(2)] n assms(3) show ?thesis
    by (auto simp: usage_fact_def pair_functions_def single_functions_def TIME_FUNCTIONS_def elim!: eval_CallE
        dest!: literal_eval split: option.splits)
qed

lemma task_condition_eval:
  assumes "task_condition schema ib n = Some c" "eval env n v es" "ctx_usage (env_context env) = Some us"
  shows "es = [] \<and> rv_value v = J_bool (fact_holds schema us (snd c))"
proof -
  obtain l lit b i j s e where n: "n = Binary (js ''=='') l (Literal lit b i j) s e"
    using assms(1) by (cases "(schema, ib, n)" rule: task_condition.cases) (auto split: if_splits)
  from strict_eval [OF assms(2) [unfolded n] not_logical(4)] obtain p es1 q es2
    where e: "eval env l p es1" "eval env (Literal lit b i j) q es2" "binary_values (js ''=='') s p q = Inr v" "es = es1 @ es2" .
  from assms(1) n obtain field where f: "usage_probe l = Some field" by (auto split: option.splits)
  from usage_probe_eval [OF f e(1) assms(3)] literal_eval [OF e(2)]
  have pq: "es = []" "rv_value p = usage_fact us field" "rv_value q = literal_value lit" using e(4) by auto
  with e(3) have "rv_value v = J_bool (strict_eq (usage_fact us field) (literal_value lit))"
    by (auto simp: binary_values_def Let_def throw_def split: if_splits)
  moreover have "strict_eq (usage_fact us field) (literal_value lit) = fact_holds schema us (snd c)"
    using assms(1) n f
    by (cases "map_of us field"; cases lit)
      (auto simp: fact_holds_def usage_fact_def js_String_bool_def Let_def is_type_def strict_eq_iff split: if_splits option.splits json.splits)
  ultimately show ?thesis using pq(1) by simp
qed

lemma undeclared_condition:
  assumes "task_condition schema ib n = Some (False, c)" "facts_declared schema us"
  shows "\<not> fact_holds schema us c"
proof -
  obtain field s where c: "c = (field, s)" by (cases c)
  from assms(1) c obtain vals where v: "\<not> is_type (map_of schema field) ''boolean''"
    "schema_enum (map_of schema field) = Some vals" "s \<notin> set vals"
    by (cases "(schema, ib, n)" rule: task_condition.cases) (auto simp: Let_def split: if_splits option.splits literal.splits)
  show ?thesis
  proof
    assume "fact_holds schema us c"
    with v c have "(field, J_string s) \<in> set us" by (auto simp: fact_holds_def dest: map_of_SomeD)
    with assms(2) v show False by (auto simp: facts_declared_def)
  qed
qed

lemma those_Some_nth: "those (map f xs) = Some ys \<Longrightarrow> y \<in> set ys \<Longrightarrow> \<exists>x \<in> set xs. f x = Some y"
  by (induction xs arbitrary: ys) (auto split: option.splits)

lemma taskConditions_eval:
  assumes "taskConditions n schema ib = Some tc" "eval env n v es" "ctx_usage (env_context env) = Some us" "facts_declared schema us"
  shows "es = [] \<and> rv_value v = J_bool (case tc of Reachable cs \<Rightarrow> list_all (fact_holds schema us) cs | Unreachable \<Rightarrow> False)"
proof -
  from assms(1) obtain cs where cs: "those (map (task_condition schema ib) (flattenBinary n (js ''&&''))) = Some cs"
    and tc: "tc = (if list_all fst cs then Reachable (map snd cs) else Unreachable)" by (auto simp: taskConditions_def)
  have e: "es = []" "rv_value v = J_bool (list_all (\<lambda>c. fact_holds schema us (snd c)) cs)"
    using conjunction_parts [of "task_condition schema ib" env "\<lambda>c. fact_holds schema us (snd c)" n cs v es]
      task_condition_eval [OF _ _ assms(3), of schema ib] cs assms(2) by auto
  have "\<not> list_all (\<lambda>c. fact_holds schema us (snd c)) cs" if "\<not> list_all fst cs"
  proof -
    from that obtain c where c: "(False, c) \<in> set cs" by (auto simp: list_all_iff)
    with those_Some_nth [OF cs] undeclared_condition [OF _ assms(4)] have "\<not> fact_holds schema us c" by blast
    with c show ?thesis by (force simp: list_all_iff)
  qed
  with e tc show ?thesis by (simp add: list.pred_map comp_def)
qed

section \<open>Task prices\<close>

definition usage_value :: "usage_schema \<Rightarrow> (jsstring \<times> json) list \<Rightarrow> jsstring \<times> js_number \<Rightarrow> js_number \<Rightarrow> bool" where
  "usage_value schema us t k \<longleftrightarrow>
     (\<exists>q price. usage_fact us (fst t) = J_number q \<and> (price = snd t \<or> js_eq price (snd t)) \<and>
        k = (if schema_unit (map_of schema (fst t)) = Some (js ''token'')
             then js_div (js_mul q price) (num 1000000) else js_mul q price))"

text \<open>The cost is a sum of the constant, if there is one, and a term for every unit price.\<close>

definition task_cost :: "usage_schema \<Rightarrow> (jsstring \<times> json) list \<Rightarrow> js_number option \<Rightarrow> price_table \<Rightarrow> js_number list \<Rightarrow> bool" where
  "task_cost schema us base prices ks \<longleftrightarrow>
     (\<exists>cs ps. mset ks = mset cs + mset ps \<and> list_all2 (usage_value schema us) prices ps \<and>
        list_all2 (\<lambda>x c. c = x \<or> js_eq c x) (case base of None \<Rightarrow> [] | Some x \<Rightarrow> [x]) cs)"

lemma js_eq_million: "js_eq x (num 1000000) \<Longrightarrow> x = num 1000000"
proof -
  have "num 1000000 = Finite False 8589934592000000 (- 33)" by code_simp
  then show "js_eq x (num 1000000) \<Longrightarrow> x = num 1000000" by (cases x) auto
qed

lemma usage_price_eval:
  assumes "usage_price n = Some (field, price)" "eval env n v es" "ctx_usage (env_context env) = Some us"
  shows "es = [] \<and> (\<exists>q p. usage_fact us field = J_number q \<and> (p = price \<or> js_eq p price) \<and> rv_value v = J_number (js_mul q p))"
proof -
  obtain l r i j where n: "n = Binary (js ''*'') l r i j" and f: "usage_probe l = Some field" and p: "nonnegativePriceLiteral r = Some price"
    using assms(1) by (cases n rule: usage_price.cases) (auto split: if_splits option.splits)
  from product_eval [OF assms(2) [unfolded n]] obtain a es1 b es2 x y
    where e: "eval env l a es1" "eval env r b es2" "es = es1 @ es2"
      "rv_value a = J_number x" "rv_value b = J_number y" "rv_value v = J_number (js_mul x y)" .
  then have "usage_fact us field = J_number x" "y = price \<or> js_eq y price" "es = []"
    using usage_probe_eval [OF f e(1) assms(3)] price_literal_eval [OF p e(2)] by auto
  with e(6) show ?thesis by blast
qed

lemma quotient_eval:
  assumes "eval env (Binary (js ''/'') l r i j) v es"
  obtains a es1 b es2 x y where "eval env l a es1" "eval env r b es2" "es = es1 @ es2"
    "rv_value a = J_number x" "rv_value b = J_number y" "rv_value v = J_number (js_div x y)"
proof -
  have "js ''/'' \<notin> set logical_operators" by (simp add: logical_operators_def)
  from strict_eval [OF assms this] obtain a es1 b es2 where e: "eval env l a es1" "eval env r b es2"
    "binary_values (js ''/'') i a b = Inr v" "es = es1 @ es2" .
  from e(3) obtain x y where "rv_value a = J_number x" "rv_value b = J_number y" "rv_value v = J_number (js_div x y)"
    by (cases "rv_value a"; cases "rv_value b") (auto simp: binary_values_def compare_values_def arithmetic_def throw_def)
  with e that show thesis by blast
qed

lemma unscaled_term_eval:
  assumes "unscaled_term n = Some (scaled, m)" "usage_price m = Some (field, price)" "eval env n v es"
    "ctx_usage (env_context env) = Some us" "schema_unit (map_of schema field) = Some u" "(u = js ''token'') = scaled"
  shows "es = [] \<and> (\<exists>k. rv_value v = J_number k \<and> usage_value schema us (field, price) k)"
proof (cases scaled)
  case True
  with assms(1) obtain r i j where n: "n = Binary (js ''/'') m r i j" "is_number_literal (num 1000000) r"
    by (cases n rule: unscaled_term.cases) (auto split: if_splits)
  from quotient_eval [OF assms(3) [unfolded n]] obtain a es1 b es2 x y where e: "eval env m a es1" "eval env r b es2"
    "es = es1 @ es2" "rv_value a = J_number x" "rv_value b = J_number y" "rv_value v = J_number (js_div x y)" .
  have "es2 = []" "y = num 1000000" using number_literal_eval [OF n(2) e(2)] e(5) js_eq_million by auto
  with usage_price_eval [OF assms(2) e(1) assms(4)] e(3-6) True assms(5,6) show ?thesis
    by (auto simp: usage_value_def)
next
  case False
  then have "m = n" using assms(1) by (cases n rule: unscaled_term.cases) (auto split: if_splits)
  with usage_price_eval [OF assms(2), of env v es us] assms(3-6) False show ?thesis by (auto simp: usage_value_def)
qed

text \<open>What a term of a task price contributes.\<close>

definition term_value :: "usage_schema \<Rightarrow> (jsstring \<times> json) list \<Rightarrow> node \<Rightarrow> js_number \<Rightarrow> bool" where
  "term_value schema us n k \<longleftrightarrow>
     (case nonnegativePriceLiteral n of
        Some c \<Rightarrow> k = c \<or> js_eq k c
      | None \<Rightarrow> (\<forall>scaled m field price u. unscaled_term n = Some (scaled, m) \<longrightarrow> usage_price m = Some (field, price) \<longrightarrow>
          schema_unit (map_of schema field) = Some u \<longrightarrow> (u = js ''token'') = scaled \<longrightarrow>
          usage_value schema us (field, price) k))"

lemma task_cost_constant:
  assumes "task_cost schema us None prices ks" "c = x \<or> js_eq c x"
  shows "task_cost schema us (Some x) prices (ks @ [c])"
proof -
  from assms(1) obtain ps where "mset ks = mset ps" "list_all2 (usage_value schema us) prices ps"
    by (auto simp: task_cost_def)
  with assms(2) show ?thesis unfolding task_cost_def by (intro exI [of _ "[c]"] exI [of _ ps]) auto
qed

lemma task_cost_price:
  assumes "task_cost schema us base prices ks" "usage_value schema us t k"
  shows "task_cost schema us base (prices @ [t]) (ks @ [k])"
proof -
  from assms(1) obtain cs ps where "mset ks = mset cs + mset ps" "list_all2 (usage_value schema us) prices ps"
    "list_all2 (\<lambda>x c. c = x \<or> js_eq c x) (case base of None \<Rightarrow> [] | Some x \<Rightarrow> [x]) cs"
    unfolding task_cost_def by blast
  with assms(2) show ?thesis unfolding task_cost_def
    by (intro exI [of _ cs] exI [of _ "ps @ [k]"]) (simp add: list_all2_appendI)
qed

lemma task_terms_cost:
  "task_terms schema ts base prices = Some (base', prices') \<Longrightarrow> list_all2 (term_value schema us) ts ks \<Longrightarrow>
     task_cost schema us base prices ks0 \<Longrightarrow> task_cost schema us base' prices' (ks0 @ ks)"
proof (induction schema ts base prices arbitrary: ks ks0 rule: task_terms.induct)
  case (2 schema t ts base prices)
  from "2.prems"(2) obtain k ks' where ks: "ks = k # ks'" "term_value schema us t k" "list_all2 (term_value schema us) ts ks'"
    by (auto simp: list_all2_Cons1)
  show ?case
  proof (cases "nonnegativePriceLiteral t")
    case (Some x)
    with "2.prems"(1) have c: "base = None" "task_terms schema ts (Some x) prices = Some (base', prices')"
      by (auto split: if_splits)
    have "task_cost schema us (Some x) prices (ks0 @ [k])"
      using "2.prems"(3) ks(2) Some c(1) by (auto intro: task_cost_constant simp: term_value_def)
    with "2.IH"(2) [OF Some _ c(2) ks(3)] c(1) ks(1) show ?thesis by fastforce
  next
    case None
    with "2.prems"(1) obtain scaled m field price u where t: "unscaled_term t = Some (scaled, m)" "usage_price m = Some (field, price)"
      "schema_unit (map_of schema field) = Some u"
      "\<not> (\<not> is_type (map_of schema field) ''number'' \<or> field \<in> fst ` set prices \<or> (u = js ''token'') \<noteq> scaled)"
      "task_terms schema ts base (prices @ [(field, price)]) = Some (base', prices')"
      by (auto split: option.splits if_splits prod.splits)
    have "usage_value schema us (field, price) k" using ks(2) None t(1-4) by (auto simp: term_value_def)
    then have "task_cost schema us base (prices @ [(field, price)]) (ks0 @ [k])"
      by (rule task_cost_price [OF "2.prems"(3)])
    with "2.IH"(1) [OF None t(1) _ t(2) _ t(3,4,5) ks(3)] ks(1) show ?thesis by fastforce
  qed
qed simp

lemma term_eval:
  assumes "task_terms schema (ts @ n # ts') base prices \<noteq> None" "eval env n v es" "ctx_usage (env_context env) = Some us"
  shows "es = [] \<and> (\<forall>k. rv_value v = J_number k \<longrightarrow> term_value schema us n k)"
  using assms(1)
proof (induction schema ts base prices rule: task_terms.induct)
  case (1 schema base prices)
  show ?case
  proof (cases "nonnegativePriceLiteral n")
    case (Some x)
    with price_literal_eval [OF Some assms(2)] show ?thesis by (auto simp: term_value_def)
  next
    case None
    with "1.prems" obtain scaled m field price u where t: "unscaled_term n = Some (scaled, m)" "usage_price m = Some (field, price)"
      "schema_unit (map_of schema field) = Some u" "(u = js ''token'') = scaled"
      by (auto split: option.splits if_splits prod.splits)
    with unscaled_term_eval [OF t(1,2) assms(2,3) t(3,4)] None show ?thesis by (auto simp: term_value_def)
  qed
next
  case (2 schema t ts base prices)
  then show ?case by (auto split: option.splits if_splits prod.splits)
qed

definition task_billed :: "usage_schema \<Rightarrow> (jsstring \<times> json) list \<Rightarrow> task_tier \<Rightarrow> js_number \<Rightarrow> bool" where
  "task_billed schema us t k \<longleftrightarrow>
     (\<exists>ks base. sum_of ks k \<and> task_cost schema us base (kt_unitPrices t) ks \<and>
        kt_constant t = (case base of None \<Rightarrow> zero_num | Some x \<Rightarrow> x))"

lemma taskTier_eval:
  assumes "taskTier n cs schema = Some t" "eval env n v es" "ctx_usage (env_context env) = Some us"
  shows "filter is_pricing es = [Tier (kt_label t)] \<and> (\<exists>k. rv_value v = J_number k \<and> task_billed schema us t k)"
proof -
  obtain label b i j body as s e where n: "n = Call (js ''tier'') (Literal (StringLit label) b i j # body # as) s e"
    using assms(1) by (cases "(n, cs, schema)" rule: taskTier.cases) (auto split: if_splits)
  from assms(1) n obtain base prices where terms: "task_terms schema (flattenBinary body (js ''+'')) None [] = Some (base, prices)"
    and t: "kt_label t = label" "kt_unitPrices t = prices" "kt_constant t = (case base of None \<Rightarrow> zero_num | Some x \<Rightarrow> x)"
    by (auto split: option.splits if_splits)
  from tier_call_eval [OF assms(2) [unfolded n]] obtain u es1 name w es2 x
    where e: "eval env (Literal (StringLit label) b i j) u es1" "rv_value u = J_string name" "eval env body w es2"
      "rv_value w = J_number x" "rv_value v = J_number x" "es = es1 @ es2 @ [Tier name]" .
  have parts: "es' = [] \<and> (\<forall>x. rv_value w' = J_number x \<longrightarrow> term_value schema us p x)"
    if "p \<in> set (flattenBinary body (js ''+''))" "eval env p w' es'" for p w' es'
  proof -
    from split_list [OF that(1)] obtain ts ts' where "flattenBinary body (js ''+'') = ts @ p # ts'" by blast
    with term_eval [of schema ts p ts' None "[]", OF _ that(2) assms(3)] terms show ?thesis by simp
  qed
  from sum_parts [of body env "term_value schema us", OF parts e(3,4)] obtain ks where ks: "es2 = []" "list_all2 (term_value schema us) (flattenBinary body (js ''+'')) ks" "sum_of ks x"
    by blast
  from task_terms_cost [OF terms ks(2), of "[]"] have "task_cost schema us base prices ks"
    by (simp add: task_cost_def)
  with ks(3) t have "task_billed schema us t x" unfolding task_billed_def by blast
  with ks(1) e literal_eval [OF e(1)] t show ?thesis by simp
qed

lemma taskTier_fields: "taskTier n cs schema = Some t \<Longrightarrow> kt_conditions t = cs"
  by (cases "(n, cs, schema)" rule: taskTier.cases) (auto split: if_splits option.splits)

theorem readTaskTierChain_eval:
  assumes us: "ctx_usage (env_context env) = Some us" and ok: "facts_declared schema us"
  shows "readTaskTierChain n schema ib = Some ts \<Longrightarrow> eval env n v es \<Longrightarrow>
    \<exists>t k. find (task_applies schema us) ts = Some t \<and> filter is_pricing es = [Tier (kt_label t)] \<and>
      rv_value v = J_number k \<and> task_billed schema us t k"
  using ok
proof (induction n schema ib arbitrary: ts v es rule: readTaskTierChain.induct)
  case (1 c y no i j schema ib)
  from "1.prems"(1) obtain tc where tc: "taskConditions c schema ib = Some tc" by (auto split: option.splits)
  from "1.prems"(2) obtain b es1 h es2 where e: "eval env c b es1" "rv_value b = J_bool h"
    "eval env (if h then y else no) v es2" "filter is_pricing es = filter is_pricing es1 @ filter is_pricing es2"
    by (rule conditional_eval)
  from taskConditions_eval [OF tc e(1) us "1.prems"(3)] e(2,4)
  have h: "h = (case tc of Reachable cs \<Rightarrow> list_all (fact_holds schema us) cs | Unreachable \<Rightarrow> False)"
    "filter is_pricing es = filter is_pricing es2" by simp_all
  show ?case
  proof (cases tc)
    case Unreachable
    with "1.IH"(1) [OF tc Unreachable, of ts v es2] "1.prems" tc e(3) h show ?thesis by simp
  next
    case (Reachable cs)
    with "1.prems"(1) tc obtain t ts' where t: "taskTier y cs schema = Some t" "readTaskTierChain no schema ib = Some ts'" "ts = t # ts'"
      by (auto split: option.splits)
    have "task_applies schema us t = h" using h(1) Reachable taskTier_fields [OF t(1)] by (simp add: task_applies_def)
    with "1.IH"(2) [OF tc Reachable t(1,2), of v es2] taskTier_eval [OF t(1) _ us, of v es2] "1.prems"(3) t(3) e(3) h(2)
    show ?thesis by (cases h) auto
  qed
qed (auto simp: task_applies_def taskTier_fields dest: taskTier_eval [OF _ _ us])

theorem task_tiers_billed:
  assumes "run_compiled pf c ctx = Inr res" "ctx_usage ctx = Some us" "facts_declared schema us"
    "readTaskTierChain (ast c) schema ib = Some ts"
  shows "\<exists>t. find (task_applies schema us) ts = Some t \<and> res_tier res = kt_label t \<and> res_fixedPrice res = None \<and>
    task_billed schema us t (res_cost res)"
proof -
  from assms(1) obtain env st v es where r: "new_runtime pf c ctx = Inr (env, st)" "eval env (ast c) v es"
    "rv_value v = J_number (res_cost res)" "res_fixedPrice res = rt_fixed (apply_events env es st)"
    "res_tier res = rt_tier (apply_events env es st)" by (rule run_compiled_events)
  note start = new_runtime_fields [OF r(1)]
  from readTaskTierChain_eval [OF _ assms(3,4) r(2)] start assms(2) obtain t k where t: "find (task_applies schema us) ts = Some t"
    "filter is_pricing es = [Tier (kt_label t)]" "rv_value v = J_number k" "task_billed schema us t k" by auto
  with r start apply_events_pricing [of env es st] show ?thesis by auto
qed

end
