(* ===== verification/NumberOrder.thy ===== *)
theory NumberOrder
  imports JsNumberFacts
begin

text \<open>
  The order of the numbers: comparisons, minimum and maximum agree with the values, and
  adding one to an integer moves it past the next one, however large it is.
\<close>

lemma js_eq_value:
  assumes "valid_number (Finite s m e)" "valid_number (Finite t n f)"
  shows "js_eq (Finite s m e) (Finite t n f) \<longleftrightarrow> number_value (Finite s m e) = number_value (Finite t n f)"
proof
  assume v: "number_value (Finite s m e) = number_value (Finite t n f)"
  have nn: "0 \<le> m" "0 \<le> n" using assms by auto
  show "js_eq (Finite s m e) (Finite t n f)"
  proof (cases "m = 0 \<or> n = 0")
    case True
    with v have "m = 0" "n = 0" by (auto simp: signed_def split: if_splits)
    with assms show ?thesis by auto
  next
    case False
    with nn have pos: "0 < m" "0 < n" by auto
    then have "0 < (of_int m * 2 powi e :: rat)" "0 < (of_int n * 2 powi f :: rat)" by simp_all
    with v have st: "s = t" and eq: "(of_int m * 2 powi e :: rat) = of_int n * 2 powi f"
      by (auto simp: signed_def split: if_splits)
    let ?p = "m * 2 ^ nat e" and ?q = "(2::int) ^ nat (- e)"
    have r: "ratio ?p ?q = of_int m * 2 powi e" by (rule ratio_scaled_int)
    have "round_ratio s ?p ?q = Finite s m e" using assms(1) pos r by (intro round_ratio_exact) auto
    moreover have "round_ratio s ?p ?q = Finite s n f" using assms(2) pos r eq st by (intro round_ratio_exact) auto
    ultimately show ?thesis using st by simp
  qed
qed (auto simp: signed_def)

lemma js_le_not_less:
  assumes "valid_number x" "valid_number y" "x \<noteq> NaN" "y \<noteq> NaN"
  shows "js_le x y \<longleftrightarrow> \<not> js_less y x"
  using assms by (cases x; cases y) (auto simp: js_le_def js_eq_value simp del: js_eq.simps(1) number_value.simps)

lemma js_less_max:
  assumes "valid_number x" "valid_number y" "x \<noteq> NaN" "y \<noteq> NaN"
  shows "js_max x y \<noteq> NaN" "js_less z (js_max x y) \<longleftrightarrow> js_less z x \<or> js_less z y"
proof -
  show "js_max x y \<noteq> NaN" using assms by (simp add: js_max_def)
  show "js_less z (js_max x y) \<longleftrightarrow> js_less z x \<or> js_less z y"
    using assms by (cases x; cases y; cases z)
      (auto simp: js_max_def js_eq_value simp del: js_eq.simps(1) number_value.simps valid_number.simps)
qed

lemma js_less_min:
  assumes "valid_number x" "valid_number y" "x \<noteq> NaN" "y \<noteq> NaN"
  shows "js_min x y \<noteq> NaN" "js_less z (js_min x y) \<longleftrightarrow> js_less z x \<and> js_less z y"
proof -
  show "js_min x y \<noteq> NaN" using assms by (simp add: js_min_def)
  show "js_less z (js_min x y) \<longleftrightarrow> js_less z x \<and> js_less z y"
    using assms by (cases x; cases y; cases z)
      (auto simp: js_min_def js_eq_value simp del: js_eq.simps(1) number_value.simps valid_number.simps)
qed

lemma num_int:
  assumes "\<bar>n\<bar> \<le> 2 ^ 53"
  obtains s m e where "num n = Finite s m e" "number_value (num n) = of_int n"
proof -
  have q: "ratio \<bar>n\<bar> 1 = of_int \<bar>n\<bar>" by (simp add: ratio_def)
  obtain m e where r: "round_ratio (n < 0) \<bar>n\<bar> 1 = Finite (n < 0) m e" "(of_int m * 2 powi e :: rat) = of_int \<bar>n\<bar>"
    by (rule round_ratio_int [OF _ _ q assms, of "n < 0"]) auto
  then have "number_value (num n) = of_int n" unfolding num_def r(1) by (auto simp: signed_def)
  with r(1) show thesis by (intro that) (simp_all add: num_def)
qed

lemma integer_value:
  assumes "is_integer x"
  shows "\<exists>a. number_value x = of_int a"
proof -
  obtain s m e where x: "x = Finite s m e" using assms by (cases x) auto
  let ?d = "(2::int) ^ nat (- e)"
  have m: "m = (m div ?d) * ?d" using assms x mult_div_mod_eq [of ?d m] by (simp add: mult.commute)
  have "number_value x = of_int (signed s (m div ?d) * 2 ^ nat e)"
  proof -
    have "(of_int m * 2 powi e :: rat) = of_int (m div ?d) * 2 ^ nat e"
      by (subst m) (simp add: two_powi_split)
    then show ?thesis by (simp add: x signed_def)
  qed
  then show ?thesis by blast
qed

text \<open>\<open>x\<close> bounds the small integers as the integer \<open>a\<close> does.\<close>

definition bounds :: "js_number \<Rightarrow> int \<Rightarrow> bool" where
  "bounds x a \<longleftrightarrow> valid_number x \<and> x \<noteq> NaN \<and> (\<forall>v. \<bar>v\<bar> < 2 ^ 53 \<longrightarrow> (js_less (num v) x \<longleftrightarrow> v < a))"

lemma bounds_value:
  assumes "valid_number x" "is_finite x" "number_value x = of_int a"
  shows "bounds x a"
proof -
  obtain s m e where x: "x = Finite s m e" using assms(2) by (cases x) auto
  have "js_less (num v) x \<longleftrightarrow> v < a" if "\<bar>v\<bar> < 2 ^ 53" for v
  proof -
    from that obtain t n f where v: "num v = Finite t n f" "number_value (num v) = of_int v"
      using num_int [of v] by (metis less_imp_le)
    then show ?thesis using assms(3) x by (metis js_less_value of_int_less_iff)
  qed
  with assms x show ?thesis by (simp add: bounds_def)
qed

lemma bounds_num: "\<bar>n\<bar> \<le> 2 ^ 53 \<Longrightarrow> bounds (num n) n"
  by (metis bounds_value is_finite.simps(1) num_int valid_num)

lemma bounds_max: "bounds x a \<Longrightarrow> bounds y b \<Longrightarrow> bounds (js_max x y) (max a b)"
  by (auto simp: bounds_def js_less_max valid_js_max)

lemma bounds_min: "bounds x a \<Longrightarrow> bounds y b \<Longrightarrow> bounds (js_min x y) (min a b)"
  by (auto simp: bounds_def js_less_min valid_js_min)

lemma bounds_less: "bounds x a \<Longrightarrow> \<bar>v\<bar> < 2 ^ 53 \<Longrightarrow> js_less (num v) x \<longleftrightarrow> v < a"
  by (simp add: bounds_def)

lemma num_not_NaN: "\<bar>v\<bar> \<le> 2 ^ 53 \<Longrightarrow> num v \<noteq> NaN"
  by (metis js_number.distinct(3) js_number.distinct(5) num_int)

lemma bounds_le: "bounds x a \<Longrightarrow> \<bar>v\<bar> < 2 ^ 53 \<Longrightarrow> js_le x (num v) \<longleftrightarrow> a \<le> v"
  using js_le_not_less [of x "num v"] num_not_NaN [of v] by (auto simp: bounds_def)

lemma bounds_round:
  assumes "0 < p" "0 < q" "ratio p q = of_int \<bar>n\<bar>"
  shows "bounds (round_ratio (n < 0) p q) n"
proof (cases "\<bar>n\<bar> \<le> 2 ^ 53")
  case True
  have pq: "0 \<le> p" using assms(1) by simp
  obtain m e where "round_ratio (n < 0) p q = Finite (n < 0) m e" "valid_number (Finite (n < 0) m e)"
    "(of_int m * 2 powi e :: rat) = of_int \<bar>n\<bar>" by (rule round_ratio_int [OF pq assms(2,3) True])
  then show ?thesis by (intro bounds_value) (auto simp: signed_def)
next
  case False
  have big: "2 ^ 53 \<le> ratio p q"
  proof -
    have "(of_int (2 ^ 53) :: rat) \<le> of_int \<bar>n\<bar>" unfolding of_int_le_iff using False by linarith
    then show ?thesis by (simp add: assms(3))
  qed
  have valid: "valid_number (round_ratio (n < 0) p q)" using assms by (intro round_ratio_valid) auto
  show ?thesis
  proof (cases "round_ratio (n < 0) p q")
    case NaN
    then show ?thesis using assms(1) by (simp add: round_ratio_def Let_def pack_def split: if_splits)
  next
    case (Infinite s)
    then have "s = (n < 0)" using assms(1) by (auto simp: round_ratio_def Let_def pack_def split: if_splits)
    have "js_less (num v) (Infinite s) \<longleftrightarrow> v < n" if "\<bar>v\<bar> < 2 ^ 53" for v
    proof -
      from that obtain t n' f where "num v = Finite t n' f" using num_int [of v] by (metis less_imp_le)
      with \<open>s = (n < 0)\<close> False that show ?thesis by auto
    qed
    with Infinite show ?thesis by (simp add: bounds_def)
  next
    case (Finite s m e)
    then have s: "s = (n < 0)" using assms(1) by (auto simp: round_ratio_def Let_def pack_def split: if_splits)
    have v: "(2 ^ 53 :: rat) \<le> of_int m * 2 powi e" by (rule round_ratio_big [OF assms(1,2) big Finite])
    have "js_less (num v) (Finite s m e) \<longleftrightarrow> v < n" if "\<bar>v\<bar> < 2 ^ 53" for v
    proof -
      from that obtain t n' f where vv: "num v = Finite t n' f" "number_value (num v) = of_int v"
        using num_int [of v] by (metis less_imp_le)
      have b: "- (2 ^ 53) < (of_int v :: rat)" "(of_int v :: rat) < 2 ^ 53"
      proof -
        have "(of_int (- (2 ^ 53)) :: rat) < of_int v" "(of_int v :: rat) < of_int (2 ^ 53)"
          unfolding of_int_less_iff using that by linarith+
        then show "- (2 ^ 53) < (of_int v :: rat)" "(of_int v :: rat) < 2 ^ 53" by simp_all
      qed
      show ?thesis
      proof (cases "n < 0")
        case True
        have "\<not> v < n" using True False that by linarith
        with True b v vv s show ?thesis by (simp add: signed_def)
      next
        case pos: False
        have "v < n" using pos False that by linarith
        with pos b v vv s show ?thesis by (simp add: signed_def)
      qed
    qed
    with valid Finite show ?thesis by (simp add: bounds_def)
  qed
qed

theorem bounds_succ:
  assumes "valid_number x" "is_finite x" "number_value x = of_int a"
  shows "bounds (js_add x (num 1)) (a + 1)"
proof -
  obtain s m e where x: "x = Finite s m e" using assms(2) by (cases x) auto
  obtain t n f where o: "num 1 = Finite t n f" "number_value (num 1) = of_int 1" by (rule num_int [of 1]) auto
  have sum: "number_value x + number_value (num 1) = of_int (a + 1)" by (simp add: assms(3) o(2))
  show ?thesis
  proof (rule js_add_cases [of s m e t n f], fold x o(1))
    assume "number_value x + number_value (num 1) = 0" "js_add x (num 1) = Finite (s \<and> t) 0 (- 1074)"
    with sum show ?thesis by (intro bounds_value) auto
  next
    fix p q assume pq: "0 < p" "0 < q" and r: "ratio p q = \<bar>number_value x + number_value (num 1)\<bar>"
      and eq: "js_add x (num 1) = round_ratio (number_value x + number_value (num 1) < 0) p q"
    have "number_value x + number_value (num 1) < 0 \<longleftrightarrow> a + 1 < 0" unfolding sum by (rule of_int_less_0_iff)
    with bounds_round [OF pq, of "a + 1"] r sum eq show ?thesis by simp
  qed
qed

end
