(* ===== verification/ConditionDisplay.thy ===== *)
theory ConditionDisplay
  imports Display NumberOrder
begin

text \<open>
  The description of a condition in words (\<open>billing-expression/condition-display.ts\<close>).
  Comparisons of the same clock field in the same zone are merged into one range.  The
  translation function and the formatters of \<open>Intl\<close> are parameters: the first maps a key
  and its placeholders to a text, the others may throw.
\<close>

section \<open>Parameters\<close>

datatype placeholder = P_text jsstring | P_number js_number

type_synonym translate = "jsstring \<Rightarrow> (jsstring \<times> placeholder) list \<Rightarrow> jsstring"

record formatters =
  short_weekday :: "jsstring option \<Rightarrow> int \<Rightarrow> thrown + jsstring"
  locale_number :: "jsstring option \<Rightarrow> js_number \<Rightarrow> thrown + jsstring"
  canonical_locales :: "jsstring \<Rightarrow> thrown + jsstring list"

text \<open>\<open>toIntlLocale\<close> of \<open>i18n/languages.ts\<close>; an empty list reads as \<open>undefined\<close>.\<close>

definition toIntlLocale :: "formatters \<Rightarrow> jsstring \<Rightarrow> jsstring option" where
  "toIntlLocale fm value =
     (if value = [] then None
      else if value = js ''zhCN'' then Some (js ''zh-CN'')
      else if value = js ''zhTW'' then Some (js ''zh-TW'')
      else case canonical_locales fm value of
        Inr (l # _) \<Rightarrow> Some l
      | _ \<Rightarrow> None)"

section \<open>Ranges\<close>

datatype description_kind = Calendar | Clock | Combined

record description =
  d_text :: jsstring
  d_kind :: description_kind
  d_timezone :: jsstring
  d_disjunction :: bool

record time_comparison =
  cmp_name :: jsstring
  cmp_timezone :: jsstring
  cmp_operator :: jsstring
  cmp_value :: js_number

definition DOMAINS :: "(jsstring \<times> int \<times> int) list" where
  "DOMAINS = [(js ''hour'', 0, 24), (js ''minute'', 0, 60), (js ''weekday'', 0, 7), (js ''month'', 1, 13), (js ''day'', 1, 32)]"

definition range_operators :: "jsstring list" where
  "range_operators = map js [''=='', ''>='', ''>'', ''<='', ''<'']"

definition or_utc :: "jsstring \<Rightarrow> jsstring" where
  "or_utc zone = (if trim zone = [] then js ''UTC'' else trim zone)"

fun timeComparison :: "node \<Rightarrow> time_comparison option" where
  "timeComparison (Binary op (Call f (Literal (StringLit zone) _ _ _ # _) _ _) (Literal (NumberLit k) _ _ _) _ _) =
     (if op \<in> set range_operators \<and> f \<in> set TIME_FUNCTIONS \<and> is_integer k
      then Some \<lparr>cmp_name = f, cmp_timezone = or_utc zone, cmp_operator = op, cmp_value = k\<rparr> else None)"
| "timeComparison _ = None"

definition narrow :: "time_comparison \<Rightarrow> js_number \<times> js_number \<Rightarrow> js_number \<times> js_number" where
  "narrow c r =
     (case r of (start, stop) \<Rightarrow>
        let op = cmp_operator c; k = cmp_value c in
        if op = js ''>='' then (js_max start k, stop)
        else if op = js ''>'' then (js_max start (js_add k (num 1)), stop)
        else if op = js ''<'' then (start, js_min stop k)
        else if op = js ''<='' then (start, js_min stop (js_add k (num 1)))
        else if op = js ''=='' then (js_max start k, js_min stop (js_add k (num 1)))
        else (start, stop))"

definition domain_of :: "jsstring \<Rightarrow> js_number \<times> js_number" where
  "domain_of name = (case map_of DOMAINS name of Some (lo, hi) \<Rightarrow> (num lo, num hi) | None \<Rightarrow> (NaN, NaN))"

definition time_range :: "time_comparison list \<Rightarrow> js_number \<times> js_number" where
  "time_range cs = fold narrow cs (domain_of (cmp_name (hd cs)))"

text \<open>\<open>Date.UTC(2026, 0, 4 + k)\<close> for a small integer \<open>k\<close>, in milliseconds.\<close>

definition january_4 :: "js_number \<Rightarrow> int" where
  "january_4 k = (day_from_year 2026 + 3 + int (number_to_nat k)) * ms_per_day"

definition range_key :: jsstring where
  "range_key = js ''{{start}}'' @ [8211] @ js ''{{end}}''"

definition between :: "translate \<Rightarrow> placeholder \<Rightarrow> placeholder \<Rightarrow> jsstring" where
  "between t a b = t range_key [(js ''start'', a), (js ''end'', b)]"

definition clock_text :: "js_number \<Rightarrow> jsstring" where
  "clock_text k = pad_start_zero 2 (js_String k) @ js '':00''"

definition field_label :: "jsstring \<Rightarrow> jsstring" where
  "field_label name =
     (if name = js ''minute'' then js ''Minute'' else if name = js ''month'' then js ''Month'' else js ''Day'')"

definition describeTimeRange ::
    "formatters \<Rightarrow> time_comparison list \<Rightarrow> translate \<Rightarrow> jsstring \<Rightarrow> thrown + description option" where
  "describeTimeRange fm cs t locale' =
     (let first = hd cs; (start, stop) = time_range cs; last' = js_sub stop (num 1);
          described = (\<lambda>kind text'. Inr (Some \<lparr>d_text = text', d_kind = kind, d_timezone = cmp_timezone first, d_disjunction = False\<rparr>))
      in if js_le stop start then Inr None
         else if cmp_name first = js ''hour'' then
           described Clock (between t (P_text (clock_text start)) (P_text (clock_text stop)))
         else if cmp_name first = js ''weekday'' then
           rbind (short_weekday fm (toIntlLocale fm locale') (january_4 start)) (\<lambda>from'.
           rbind (short_weekday fm (toIntlLocale fm locale') (january_4 last')) (\<lambda>to'.
           described Calendar (if js_eq start last' then from' else between t (P_text from') (P_text to'))))
         else
           let values' = (if js_eq start last' then js_String start else between t (P_number start) (P_number last'))
           in described Calendar (t (field_label (cmp_name first)) [] @ js '': '' @ values'))"

section \<open>Conditions\<close>

text \<open>A loop that collects results and returns at the first \<open>null\<close>.\<close>

fun collect :: "('a \<Rightarrow> 'e + 'b option) \<Rightarrow> 'a list \<Rightarrow> 'e + 'b list option" where
  "collect f [] = Inr (Some [])"
| "collect f (x # xs) =
     rbind (f x) (\<lambda>y. case y of
       None \<Rightarrow> Inr None
     | Some z \<Rightarrow> rbind (collect f xs) (\<lambda>zs. Inr (map_option (Cons z) zs)))"

lemma collect_cong [fundef_cong]:
  "xs = ys \<Longrightarrow> (\<And>x. x \<in> set ys \<Longrightarrow> f x = g x) \<Longrightarrow> collect f xs = collect g ys"
proof (induction xs arbitrary: ys)
  case (Cons x xs)
  have "f x = g x" "collect f xs = collect g xs" using Cons by auto
  then show ?case using Cons.prems(1) by auto
qed auto

definition comparison_key :: "time_comparison \<Rightarrow> jsstring" where
  "comparison_key c = cmp_name c @ js '':'' @ cmp_timezone c"

definition add_comparison ::
    "time_comparison \<Rightarrow> (jsstring, time_comparison list) ordered_map \<Rightarrow> (jsstring, time_comparison list) ordered_map" where
  "add_comparison c m =
     om_set (comparison_key c) ((case map_of m (comparison_key c) of Some cs \<Rightarrow> cs | None \<Rightarrow> []) @ [c]) m"

definition comparison_groups :: "node list \<Rightarrow> time_comparison list list" where
  "comparison_groups nodes = map snd (fold add_comparison (List.map_filter timeComparison nodes) [])"

definition token_labels :: "(jsstring \<times> jsstring) list" where
  "token_labels = [(js ''p'', js ''Input''), (js ''c'', js ''Output''), (js ''len'', js ''Full input length'')]"

definition token_comparisons :: "jsstring list" where
  "token_comparisons = map js [''<'', ''<='', ''>'', ''>='', ''=='', ''!='']"

text \<open>A comparison of a variable with a number, the case before the clock comparisons.\<close>

fun token_comparison :: "node \<Rightarrow> (jsstring \<times> jsstring \<times> js_number) option" where
  "token_comparison (Binary op (Variable x _ _) (Literal (NumberLit k) _ _ _) _ _) =
     (if op \<in> set token_comparisons then Some (x, op, k) else None)"
| "token_comparison _ = None"

definition describe_token ::
    "formatters \<Rightarrow> translate \<Rightarrow> jsstring \<Rightarrow> jsstring \<times> jsstring \<times> js_number \<Rightarrow> thrown + description option" where
  "describe_token fm t locale' c =
     (case c of (x, op, k) \<Rightarrow>
        (case map_of token_labels x of
           None \<Rightarrow> Inr None
         | Some label \<Rightarrow>
             rbind (locale_number fm (toIntlLocale fm locale') k) (\<lambda>number.
             Inr (Some \<lparr>d_text = t label [] @ js '' '' @ op @ js '' '' @ number, d_kind = Combined,
                        d_timezone = [], d_disjunction = False\<rparr>))))"

text \<open>The distinct non-empty zones of the parts, in order of appearance.\<close>

definition part_zones :: "description list \<Rightarrow> jsstring list" where
  "part_zones parts = rev (remdups (rev (filter (\<lambda>z. z \<noteq> []) (map d_timezone parts))))"

definition grouped :: "bool \<Rightarrow> description \<Rightarrow> jsstring" where
  "grouped isand d = (if isand \<and> d_disjunction d then js ''('' @ d_text d @ js '')'' else d_text d)"

definition joined :: "translate \<Rightarrow> bool \<Rightarrow> description list \<Rightarrow> jsstring" where
  "joined t isand parts =
     foldl (\<lambda>text' part. t (js (if isand then ''{{first}} and {{second}}'' else ''{{first}} or {{second}}''))
              [(js ''first'', P_text text'), (js ''second'', P_text (grouped isand part))])
       (grouped isand (hd parts)) (tl parts)"

text \<open>The end of the function: the descriptions of the parts become one.\<close>

definition combine :: "translate \<Rightarrow> bool \<Rightarrow> description list \<Rightarrow> description option" where
  "combine t isand parts =
     (let zones = part_zones parts;
          calendars = filter (\<lambda>d. d_kind d = Calendar) parts;
          clocks = filter (\<lambda>d. d_kind d = Clock) parts
      in if parts = [] \<or> 1 < length zones then None
         else if length parts = 1 then Some (hd parts)
         else if isand \<and> length parts = 2 \<and> length calendars = 1 \<and> length clocks = 1 then
           Some \<lparr>d_text = d_text (hd calendars) @ js '' '' @ d_text (hd clocks), d_kind = Combined,
                 d_timezone = d_timezone (hd parts), d_disjunction = False\<rparr>
         else
           Some \<lparr>d_text = joined t isand parts,
                 d_kind = (if length clocks = length parts then Clock else Combined),
                 d_timezone = (case zones of [] \<Rightarrow> [] | z # _ \<Rightarrow> z), d_disjunction = \<not> isand\<rparr>)"

lemma flattenBinary_smaller:
  "p \<in> set (flattenBinary (Binary op l r i j) op) \<Longrightarrow> node_count p < node_count (Binary op l r i j)"
proof -
  have le: "p \<in> set (flattenBinary n op) \<Longrightarrow> node_count p \<le> node_count n" for n
    by (induction n op rule: flattenBinary.induct) (auto split: if_splits)
  assume "p \<in> set (flattenBinary (Binary op l r i j) op)"
  then show ?thesis using le [of l] le [of r] by auto
qed

function describeBillingCondition ::
    "formatters \<Rightarrow> translate \<Rightarrow> jsstring \<Rightarrow> node \<Rightarrow> thrown + description option" where
  "describeBillingCondition fm t locale' (Unary op x i j) =
     (if op \<noteq> js ''!'' then Inr None
      else rbind (describeBillingCondition fm t locale' x) (\<lambda>d.
           Inr (map_option (\<lambda>d. d\<lparr>d_text := t (js ''Outside these times: {{condition}}'') [(js ''condition'', P_text (d_text d))],
                                  d_kind := Combined\<rparr>) d)))"
| "describeBillingCondition fm t locale' (Binary op l r i j) =
     (let n = Binary op l r i j; isand = (op = js ''&&'') in
      case token_comparison n of
        Some c \<Rightarrow> describe_token fm t locale' c
      | None \<Rightarrow>
          (case timeComparison n of
             Some c \<Rightarrow> describeTimeRange fm [c] t locale'
           | None \<Rightarrow>
               if op \<notin> set logical_operators then Inr None
               else
                 let nodes = flattenBinary (Binary op l r i j) op in
                 rbind (collect (describeBillingCondition fm t locale')
                   (if isand then filter (\<lambda>p. timeComparison p = None) nodes else nodes)) (\<lambda>parts.
                 case parts of
                   None \<Rightarrow> Inr None
                 | Some ps \<Rightarrow>
                     if isand then
                       rbind (collect (\<lambda>g. describeTimeRange fm g t locale') (comparison_groups nodes)) (\<lambda>ranges.
                       Inr (case ranges of None \<Rightarrow> None | Some rs \<Rightarrow> combine t isand (ps @ rs)))
                     else Inr (combine t isand ps))))"
| "describeBillingCondition fm t locale' (Literal v b i j) = Inr None"
| "describeBillingCondition fm t locale' (Variable x i j) = Inr None"
| "describeBillingCondition fm t locale' (Call f as i j) = Inr None"
| "describeBillingCondition fm t locale' (Conditional c y n i j) = Inr None"
  by pat_completeness auto
termination
  by (relation "measure (\<lambda>(fm, t, l, n). node_count n)")
    (auto split: if_splits dest!: flattenBinary_smaller simp del: flattenBinary.simps)

text \<open>
  The entry point.  Its translation passes \<open>escapeValue: false\<close> to \<open>t\<close>; an exception of a
  formatter is caught.
\<close>

definition formatBillingCondition ::
    "formatters \<Rightarrow> jsstring \<Rightarrow> (jsstring \<Rightarrow> (jsstring \<times> placeholder) list \<Rightarrow> bool \<Rightarrow> jsstring) \<Rightarrow> jsstring \<Rightarrow>
       compile_cache \<Rightarrow> jsstring option \<times> compile_cache" where
  "formatBillingCondition fm src t locale' cache =
     (let (r, cache') = compileBillingExpression src cache;
          translate = (\<lambda>key options. t key options False)
      in (case r of
            Failed _ \<Rightarrow> None
          | Ready c \<Rightarrow>
              (case describeBillingCondition fm translate locale' (ast c) of
                 Inr (Some d) \<Rightarrow>
                   Some (if d_timezone d = [] then d_text d
                         else translate (js ''{{condition}} ({{timezone}})'')
                                [(js ''condition'', P_text (d_text d)), (js ''timezone'', P_text (d_timezone d))])
               | _ \<Rightarrow> None), cache'))"

section \<open>A range holds what its comparisons admit\<close>

text \<open>A comparison of the source with the value of the clock field.\<close>

definition comparison_holds :: "time_comparison \<Rightarrow> int \<Rightarrow> bool" where
  "comparison_holds c v \<longleftrightarrow>
     (if cmp_operator c = js ''=='' then js_eq (num v) (cmp_value c)
      else compare_values (cmp_operator c) (J_number (num v)) (J_number (cmp_value c)) = Some True)"

definition comparison_ok :: "time_comparison \<Rightarrow> bool" where
  "comparison_ok c \<longleftrightarrow> cmp_operator c \<in> set range_operators \<and> valid_number (cmp_value c) \<and> is_integer (cmp_value c)"

lemma not_less_trans:
  "\<not> js_less z x \<Longrightarrow> \<not> js_less x y \<Longrightarrow> x \<noteq> NaN \<Longrightarrow> \<not> js_less z y"
  by (cases x; cases y; cases z) (auto simp del: number_value.simps)

lemma integer_bounds:
  assumes "valid_number k" "is_integer k"
  obtains a where "number_value k = of_int a" "bounds k a" "bounds (js_add k (num 1)) (a + 1)"
proof -
  have "is_finite k" using assms(2) by (cases k) auto
  with integer_value [OF assms(2)] bounds_value [OF assms(1)] bounds_succ [OF assms(1)] that show thesis by metis
qed

lemma num_compare:
  assumes "valid_number k" "is_finite k" "number_value k = of_int d" "\<bar>v\<bar> < 2 ^ 53"
  shows "js_less (num v) k \<longleftrightarrow> v < d" "js_le k (num v) \<longleftrightarrow> d \<le> v" "js_le (num v) k \<longleftrightarrow> v \<le> d"
    "js_less k (num v) \<longleftrightarrow> d < v" "js_eq (num v) k \<longleftrightarrow> v = d"
proof -
  from assms(4) obtain t n f where v: "num v = Finite t n f" "number_value (num v) = of_int v"
    using num_int [of v] by (metis less_imp_le)
  obtain s m e where k: "k = Finite s m e" using assms(2) by (cases k) auto
  have vv: "valid_number (Finite t n f)" "valid_number (Finite s m e)" using v(1) k assms(1) valid_num [of v] by auto
  have val: "number_value (Finite t n f) = of_int v" "number_value (Finite s m e) = of_int d"
    using v k assms(3) by simp_all
  show "js_less (num v) k \<longleftrightarrow> v < d" "js_less k (num v) \<longleftrightarrow> d < v" "js_eq (num v) k \<longleftrightarrow> v = d"
    "js_le k (num v) \<longleftrightarrow> d \<le> v" "js_le (num v) k \<longleftrightarrow> v \<le> d"
    unfolding v(1) k js_less_value js_eq_value [OF vv] js_le_not_less [OF vv(1,2) js_number.distinct(4) js_number.distinct(4)]
      js_le_not_less [OF vv(2,1) js_number.distinct(4) js_number.distinct(4)] val by (simp_all add: not_less)
qed

lemma narrow_bounds:
  assumes "comparison_ok c" "bounds s a" "bounds e b" "narrow c (s, e) = (s', e')"
  shows "\<exists>a' b'. bounds s' a' \<and> bounds e' b' \<and>
    (\<forall>v. \<bar>v\<bar> < 2 ^ 53 \<longrightarrow> (a' \<le> v \<and> v < b' \<longleftrightarrow> a \<le> v \<and> v < b \<and> comparison_holds c v))"
proof -
  let ?k = "cmp_value c"
  from assms(1) have k: "valid_number ?k" "is_finite ?k" "is_integer ?k" by (auto simp: comparison_ok_def elim: is_integer.elims)
  from integer_bounds [OF k(1,3)] obtain d where d: "number_value ?k = of_int d" "bounds ?k d" "bounds (js_add ?k (num 1)) (d + 1)" .
  note cmp = num_compare [OF k(1,2) d(1)]
  have op: "cmp_operator c \<in> {js ''=='', js ''>='', js ''>'', js ''<='', js ''<''}"
    using assms(1) by (auto simp: comparison_ok_def range_operators_def)
  have fin: ?thesis if "bounds s' a'" "bounds e' b'"
    "\<And>v. \<bar>v\<bar> < 2 ^ 53 \<Longrightarrow> a' \<le> v \<and> v < b' \<longleftrightarrow> a \<le> v \<and> v < b \<and> comparison_holds c v" for a' b'
    using that by blast
  from op consider "cmp_operator c = js ''==''" | "cmp_operator c = js ''>=''" | "cmp_operator c = js ''>''"
    | "cmp_operator c = js ''<=''" | "cmp_operator c = js ''<''" by blast
  then show ?thesis
  proof cases
    case 1
    with assms(4) bounds_max [OF assms(2) d(2)] bounds_min [OF assms(3) d(3)] show ?thesis
      by (intro fin [of "max a d" "min b (d + 1)"]) (auto simp: narrow_def Let_def comparison_holds_def cmp)
  next
    case 2
    with assms(3,4) bounds_max [OF assms(2) d(2)] show ?thesis
      by (intro fin [of "max a d" b]) (auto simp: narrow_def Let_def comparison_holds_def compare_values_def cmp)
  next
    case 3
    with assms(3,4) bounds_max [OF assms(2) d(3)] show ?thesis
      by (intro fin [of "max a (d + 1)" b]) (auto simp: narrow_def Let_def comparison_holds_def compare_values_def cmp)
  next
    case 4
    with assms(2,4) bounds_min [OF assms(3) d(3)] show ?thesis
      by (intro fin [of a "min b (d + 1)"]) (auto simp: narrow_def Let_def comparison_holds_def compare_values_def cmp)
  next
    case 5
    with assms(2,4) bounds_min [OF assms(3) d(2)] show ?thesis
      by (intro fin [of a "min b d"]) (auto simp: narrow_def Let_def comparison_holds_def compare_values_def cmp)
  qed
qed

lemma fold_narrow_bounds:
  assumes "\<forall>c \<in> set cs. comparison_ok c" "bounds s a" "bounds e b"
  shows "\<exists>a' b'. bounds (fst (fold narrow cs (s, e))) a' \<and> bounds (snd (fold narrow cs (s, e))) b' \<and>
    (\<forall>v. \<bar>v\<bar> < 2 ^ 53 \<longrightarrow> (a' \<le> v \<and> v < b' \<longleftrightarrow> a \<le> v \<and> v < b \<and> (\<forall>c \<in> set cs. comparison_holds c v)))"
  using assms
proof (induction cs arbitrary: s e a b)
  case (Cons c cs)
  obtain s' e' where n: "narrow c (s, e) = (s', e')" by (cases "narrow c (s, e)")
  from narrow_bounds [OF _ Cons.prems(2,3) n] Cons.prems(1) obtain a1 b1
    where ab: "bounds s' a1" "bounds e' b1"
      "\<forall>v. \<bar>v\<bar> < 2 ^ 53 \<longrightarrow> (a1 \<le> v \<and> v < b1 \<longleftrightarrow> a \<le> v \<and> v < b \<and> comparison_holds c v)" by auto
  from Cons.IH [OF _ ab(1,2)] Cons.prems(1) obtain a2 b2
    where "bounds (fst (fold narrow cs (s', e'))) a2" "bounds (snd (fold narrow cs (s', e'))) b2"
      "\<forall>v. \<bar>v\<bar> < 2 ^ 53 \<longrightarrow> (a2 \<le> v \<and> v < b2 \<longleftrightarrow> a1 \<le> v \<and> v < b1 \<and> (\<forall>c \<in> set cs. comparison_holds c v))" by auto
  moreover have "fold narrow (c # cs) (s, e) = fold narrow cs (s', e')" by (simp add: n)
  ultimately show ?case using ab(3) by (metis (no_types, lifting) list.set_intros set_ConsD)
qed auto

theorem time_range_correct:
  assumes "\<forall>c \<in> set cs. comparison_ok c" "map_of DOMAINS (cmp_name (hd cs)) = Some (lo, hi)"
    "time_range cs = (start, stop)"
  shows "lo \<le> v \<Longrightarrow> v < hi \<Longrightarrow> (\<forall>c \<in> set cs. comparison_holds c v) \<longleftrightarrow> js_le start (num v) \<and> js_less (num v) stop"
    and "js_le stop start \<Longrightarrow> lo \<le> v \<Longrightarrow> v < hi \<Longrightarrow> \<exists>c \<in> set cs. \<not> comparison_holds c v"
proof -
  have d: "\<bar>lo\<bar> < 2 ^ 53" "\<bar>hi\<bar> < 2 ^ 53" using assms(2) by (auto simp: DOMAINS_def split: if_splits)
  have se: "fold narrow cs (num lo, num hi) = (start, stop)" using assms(2,3) by (simp add: time_range_def domain_of_def)
  from fold_narrow_bounds [OF assms(1) bounds_num [of lo] bounds_num [of hi]] d se obtain a b
    where ab: "bounds start a" "bounds stop b"
      "\<forall>v. \<bar>v\<bar> < 2 ^ 53 \<longrightarrow> (a \<le> v \<and> v < b \<longleftrightarrow> lo \<le> v \<and> v < hi \<and> (\<forall>c \<in> set cs. comparison_holds c v))" by auto
  have iff: "(\<forall>c \<in> set cs. comparison_holds c v) \<longleftrightarrow> js_le start (num v) \<and> js_less (num v) stop" if "lo \<le> v" "v < hi" for v
  proof -
    have "\<bar>v\<bar> < 2 ^ 53" using that d by linarith
    with ab that bounds_le bounds_less show ?thesis by blast
  qed
  then show "lo \<le> v \<Longrightarrow> v < hi \<Longrightarrow> (\<forall>c \<in> set cs. comparison_holds c v) \<longleftrightarrow> js_le start (num v) \<and> js_less (num v) stop" .
  show "\<exists>c \<in> set cs. \<not> comparison_holds c v" if "js_le stop start" "lo \<le> v" "v < hi"
  proof (rule ccontr)
    assume "\<not> (\<exists>c \<in> set cs. \<not> comparison_holds c v)"
    with iff [OF that(2,3)] have "js_le start (num v)" "js_less (num v) stop" by auto
    moreover have "valid_number start" "valid_number stop" "start \<noteq> NaN" "stop \<noteq> NaN" using ab(1,2) by (simp_all add: bounds_def)
    moreover have "num v \<noteq> NaN" using num_not_NaN [of v] that d by auto
    ultimately show False using that(1) js_le_not_less [of stop start] js_le_not_less [of start "num v"]
        not_less_trans [of "num v" start stop] valid_num [of v] by blast
  qed
qed

end
