(* ===== verification/ConditionFacts.thy ===== *)
theory ConditionFacts
  imports ConditionDisplay
begin

text \<open>
  The zone that a description names is the zone of every clock the condition reads.
\<close>

section \<open>The zone of a description\<close>

text \<open>The zones whose clock a condition reads.\<close>

definition clock_zones :: "node \<Rightarrow> jsstring set" where
  "clock_zones n = {or_utc zone |f zone b i j as s e. f \<in> set TIME_FUNCTIONS \<and>
     Call f (Literal (StringLit zone) b i j # as) s e \<in> set (postorder n)}"

lemma or_utc_not_Nil [simp]: "or_utc zone \<noteq> []" "[] \<noteq> or_utc zone"
  by (simp_all add: or_utc_def)

lemma clock_zones_not_Nil: "[] \<notin> clock_zones n"
  by (auto simp: clock_zones_def)

lemma clock_zones_simps:
  "clock_zones (Unary op x i j) = clock_zones x"
  "clock_zones (Binary op l r i j) = clock_zones l \<union> clock_zones r"
  "clock_zones (Variable y i j) = {}" "clock_zones (Literal v b i j) = {}"
  unfolding clock_zones_def by (subst postorder_children, force)+

lemma clock_zones_flatten: "clock_zones n = (\<Union>p \<in> set (flattenBinary n op). clock_zones p)"
  by (induction n op rule: flattenBinary.induct) (auto simp: clock_zones_simps)

lemma clock_zones_comparison:
  assumes "timeComparison n = Some c" "\<forall>m \<in> set (postorder n). syntax_ok m"
  shows "clock_zones n = {cmp_timezone c}"
proof -
  obtain op f zone b i j as s e k b' i' j' s' e' where n: "n = Binary op (Call f (Literal (StringLit zone) b i j # as) s e) (Literal (NumberLit k) b' i' j') s' e'"
    and f: "f \<in> set TIME_FUNCTIONS" and c: "cmp_timezone c = or_utc zone"
    using assms(1) by (cases n rule: timeComparison.cases) (auto split: if_splits)
  have "map_of BILLING_FUNCTIONS f = Some (Suc (length as))" using assms(2) n by auto
  then have "as = []" using f by (auto simp: BILLING_FUNCTIONS_def TIME_FUNCTIONS_def)
  then show ?thesis using f c unfolding n by (auto simp: clock_zones_simps) (auto simp: clock_zones_def)
qed

lemma time_names_no_colon: "f \<in> set TIME_FUNCTIONS \<Longrightarrow> 58 \<notin> set f"
  by (auto simp: TIME_FUNCTIONS_def js_def)

lemma comparison_key_zone:
  assumes "comparison_key c = comparison_key d" "cmp_name c \<in> set TIME_FUNCTIONS" "cmp_name d \<in> set TIME_FUNCTIONS"
  shows "cmp_name c = cmp_name d \<and> cmp_timezone c = cmp_timezone d"
proof -
  have colon: "js '':'' = [58]" by (simp add: js_def)
  have "takeWhile (\<lambda>x. x \<noteq> 58) (comparison_key e) = cmp_name e" if "cmp_name e \<in> set TIME_FUNCTIONS" for e
    using time_names_no_colon [OF that] unfolding comparison_key_def colon by (subst takeWhile_append2) auto
  with assms have "cmp_name c = cmp_name d" by metis
  with assms(1) show ?thesis by (simp add: comparison_key_def)
qed

definition groups_ok :: "(jsstring, time_comparison list) ordered_map \<Rightarrow> time_comparison set \<Rightarrow> bool" where
  "groups_ok m cs \<longleftrightarrow> distinct (map fst m) \<and> (\<forall>(k, g) \<in> set m. g \<noteq> [] \<and> (\<forall>c \<in> set g. comparison_key c = k)) \<and>
     (\<Union>(k, g) \<in> set m. set g) = cs"

lemma set_om_set: "distinct (map fst m) \<Longrightarrow> set (om_set k v m) = {(k, v)} \<union> {p \<in> set m. fst p \<noteq> k}"
  by (induction k v m rule: om_set.induct) (auto intro: rev_image_eqI)

lemma entry_unique:
  assumes "distinct (map fst m)" "map_of m k = Some g"
  shows "{p \<in> set m. fst p = k} = {(k, g)}"
proof -
  have "p \<in> set m \<and> fst p = k \<longleftrightarrow> p = (k, g)" for p
    using assms(2) map_of_eq_Some_iff [OF assms(1), of k "snd p"] by (cases p) fastforce
  then show ?thesis by blast
qed

lemma add_comparison_groups: "groups_ok m cs \<Longrightarrow> groups_ok (add_comparison c m) (insert c cs)"
proof -
  assume m: "groups_ok m cs"
  let ?k = "comparison_key c" and ?old = "case map_of m (comparison_key c) of Some g \<Rightarrow> g | None \<Rightarrow> []"
  have d: "distinct (map fst m)" using m by (simp add: groups_ok_def)
  have old: "set ?old = (\<Union>(k, g) \<in> {p \<in> set m. fst p = ?k}. set g)"
  proof (cases "map_of m ?k")
    case None
    then have "?k \<notin> fst ` set m" by (simp add: map_of_eq_None_iff)
    then have "{p \<in> set m. fst p = ?k} = {}" by (auto intro: rev_image_eqI)
    then show ?thesis using None by (simp only: option.simps list.set image_empty Sup_empty)
  next
    case (Some g)
    show ?thesis unfolding entry_unique [OF d Some] Some by simp
  qed
  define g where "g = ?old"
  define rest where "rest = {p \<in> set m. fst p \<noteq> ?k}"
  have m': "set m = {p \<in> set m. fst p = ?k} \<union> rest" by (auto simp: rest_def)
  have s: "set (add_comparison c m) = insert (?k, g @ [c]) rest"
    unfolding add_comparison_def g_def rest_def set_om_set [OF d] by simp
  have "distinct (map fst (add_comparison c m))" unfolding add_comparison_def by (rule distinct_om_set [OF d])
  moreover have "\<forall>(k, h) \<in> set (add_comparison c m). h \<noteq> [] \<and> (\<forall>c \<in> set h. comparison_key c = k)"
  proof -
    have "\<forall>(k, h) \<in> set m. h \<noteq> [] \<and> (\<forall>c \<in> set h. comparison_key c = k)" using m by (simp add: groups_ok_def)
    moreover have "set g = (\<Union>(k, g) \<in> {p \<in> set m. fst p = ?k}. set g)" using old by (simp only: g_def)
    ultimately show ?thesis unfolding s rest_def by fastforce
  qed
  moreover have "(\<Union>(k, h) \<in> set (add_comparison c m). set h) = insert c cs"
  proof -
    have "(\<Union>(k, h) \<in> set m. set h) = cs" using m by (simp add: groups_ok_def)
    moreover have "(\<Union>(k, h) \<in> set m. set h) = set g \<union> (\<Union>(k, h) \<in> rest. set h)"
      unfolding g_def old by (subst m') (simp only: UN_Un)
    ultimately show ?thesis unfolding s by auto
  qed
  ultimately show ?thesis by (simp add: groups_ok_def)
qed

lemma comparison_groups_ok:
  "groups_ok (fold add_comparison cs []) (set cs)"
proof -
  have "groups_ok m s \<Longrightarrow> groups_ok (fold add_comparison cs m) (s \<union> set cs)" for m s
  proof (induction cs arbitrary: m s)
    case (Cons c cs)
    from Cons.IH [OF add_comparison_groups [OF Cons.prems]] show ?case by simp
  qed simp
  from this [of "[]" "{}"] show ?thesis by (simp add: groups_ok_def)
qed

text \<open>What a description of a condition with the given zones promises.\<close>

definition zone_ok :: "description \<Rightarrow> jsstring set \<Rightarrow> bool" where
  "zone_ok d zs \<longleftrightarrow> zs \<subseteq> {d_timezone d} \<and> (d_kind d \<noteq> Combined \<longrightarrow> d_timezone d \<noteq> [])"

lemma describeTimeRange_zone:
  "describeTimeRange fm cs t l = Inr (Some d) \<Longrightarrow> cmp_timezone (hd cs) \<noteq> [] \<Longrightarrow>
     zone_ok d {cmp_timezone (hd cs)}"
  by (auto simp: describeTimeRange_def Let_def zone_ok_def rbind_eq_Inr split: prod.splits if_splits)

lemma part_zones_set: "set (part_zones ps) = d_timezone ` set ps - {[]}"
  by (auto simp: part_zones_def)

lemma single_zone:
  assumes "\<not> 1 < length (part_zones ps)" "p \<in> set ps" "d_timezone p \<noteq> []"
  shows "part_zones ps = [d_timezone p]"
proof -
  have "d_timezone p \<in> set (part_zones ps)" using assms(2,3) by (auto simp: part_zones_set)
  then show ?thesis using assms(1) by (cases "part_zones ps") auto
qed

lemma combine_zone:
  assumes "combine t isand ps = Some d" "\<forall>p \<in> set ps. d_kind p \<noteq> Combined \<longrightarrow> d_timezone p \<noteq> []"
  shows "\<forall>p \<in> set ps. d_timezone p \<in> {[], d_timezone d}" "d_kind d \<noteq> Combined \<longrightarrow> d_timezone d \<noteq> []"
proof -
  from assms(1) have z: "\<not> 1 < length (part_zones ps)" and ne: "ps \<noteq> []"
    by (auto simp: combine_def Let_def split: if_splits)
  consider (one) "ps = [d]"
    | (two) "length ps = 2" "length (filter (\<lambda>d. d_kind d = Calendar) ps) = 1" "length (filter (\<lambda>d. d_kind d = Clock) ps) = 1"
        "d_timezone d = d_timezone (hd ps)" "d_kind d = Combined"
    | (many) "d_timezone d = (case part_zones ps of [] \<Rightarrow> [] | z # _ \<Rightarrow> z)"
        "d_kind d \<noteq> Combined \<longrightarrow> length (filter (\<lambda>d. d_kind d = Clock) ps) = length ps"
    using assms(1) by (cases ps) (auto simp: combine_def Let_def split: if_splits)
  then have "(\<forall>p \<in> set ps. d_timezone p \<in> {[], d_timezone d}) \<and> (d_kind d \<noteq> Combined \<longrightarrow> d_timezone d \<noteq> [])"
  proof cases
    case one
    with assms(2) show ?thesis by auto
  next
    case two
    then obtain p q where pq: "ps = [p, q]" by (auto simp: numeral_2_eq_2 length_Suc_conv)
    with two have "d_kind p \<noteq> Combined" by (auto split: if_splits)
    with assms(2) pq have "part_zones ps = [d_timezone p]" using single_zone [OF z, of p] by auto
    with pq two(4,5) part_zones_set [of ps] show ?thesis by auto
  next
    case many
    have "d_timezone p \<in> {[], d_timezone d}" if "p \<in> set ps" for p
      using single_zone [OF z that] many(1) by (cases "d_timezone p = []") auto
    moreover have "d_timezone d \<noteq> []" if "d_kind d \<noteq> Combined"
    proof -
      have "\<forall>p \<in> set ps. d_kind p = Clock" using many(2) that length_filter_less [of _ ps "\<lambda>d. d_kind d = Clock"] by fastforce
      then obtain p where "p \<in> set ps" "d_timezone p \<noteq> []" using assms(2) ne by (cases ps) auto
      with single_zone [OF z this] many(1) show ?thesis by simp
    qed
    ultimately show ?thesis by blast
  qed
  then show "\<forall>p \<in> set ps. d_timezone p \<in> {[], d_timezone d}" "d_kind d \<noteq> Combined \<longrightarrow> d_timezone d \<noteq> []" by blast+
qed

lemma collect_Some: "collect f xs = Inr (Some ys) \<Longrightarrow> list_all2 (\<lambda>x y. f x = Inr (Some y)) xs ys"
  by (induction xs arbitrary: ys) (auto simp: rbind_eq_Inr split: option.splits)

lemma group_members:
  "(k, g) \<in> set (fold add_comparison cs []) \<Longrightarrow> g \<noteq> [] \<and> set g \<subseteq> set cs \<and> (\<forall>c \<in> set g. comparison_key c = k)"
  using comparison_groups_ok [of cs] unfolding groups_ok_def by blast

lemma group_zone:
  assumes "g \<in> set (comparison_groups nodes)" "c \<in> set g"
  shows "cmp_timezone (hd g) = cmp_timezone c"
proof -
  let ?cs = "List.map_filter timeComparison nodes"
  have names: "cmp_name c \<in> set TIME_FUNCTIONS" if "c \<in> set ?cs" for c
  proof -
    from that obtain n where "timeComparison n = Some c" by (auto simp: map_filter_def)
    then show ?thesis by (cases n rule: timeComparison.cases) (auto split: if_splits)
  qed
  from assms(1) obtain k where kg: "(k, g) \<in> set (fold add_comparison ?cs [])" by (auto simp: comparison_groups_def)
  from group_members [OF kg] assms(2) hd_in_set [of g]
  have "comparison_key (hd g) = comparison_key c" "hd g \<in> set ?cs" "c \<in> set ?cs" by auto
  with comparison_key_zone names show ?thesis by blast
qed

lemma comparison_in_group:
  assumes "p \<in> set nodes" "timeComparison p = Some c"
  shows "\<exists>g \<in> set (comparison_groups nodes). c \<in> set g"
proof -
  let ?m = "fold add_comparison (List.map_filter timeComparison nodes) []"
  have "c \<in> set (List.map_filter timeComparison nodes)" using assms by (force simp: map_filter_def)
  moreover have "(\<Union>(k, g) \<in> set ?m. set g) = set (List.map_filter timeComparison nodes)"
    using comparison_groups_ok by (simp only: groups_ok_def)
  ultimately obtain k g where "(k, g) \<in> set ?m" "c \<in> set g" by blast
  then show ?thesis unfolding comparison_groups_def by force
qed

lemma comparison_zone_not_Nil: "timeComparison p = Some c \<Longrightarrow> cmp_timezone c \<noteq> []"
  by (cases p rule: timeComparison.cases) (auto split: if_splits)

lemma group_zone_not_Nil: "g \<in> set (comparison_groups nodes) \<Longrightarrow> cmp_timezone (hd g) \<noteq> []"
proof -
  assume g: "g \<in> set (comparison_groups nodes)"
  then obtain k where kg: "(k, g) \<in> set (fold add_comparison (List.map_filter timeComparison nodes) [])"
    by (auto simp: comparison_groups_def)
  with group_members [OF kg]
  have "hd g \<in> set (List.map_filter timeComparison nodes)" using hd_in_set by blast
  then show ?thesis by (auto simp: map_filter_def comparison_zone_not_Nil)
qed

text \<open>The parts of a conjunction, each with the zones it was described for.\<close>

lemma combine_parts:
  assumes "combine t isand ps = Some d" "\<forall>p \<in> set ps. \<exists>zs. zone_ok p zs"
    "\<forall>z \<in> zs. z \<noteq> [] \<and> (\<exists>p \<in> set ps. zone_ok p {z})"
  shows "zone_ok d zs"
proof -
  note c = combine_zone [OF assms(1)]
  have k: "\<forall>p \<in> set ps. d_kind p \<noteq> Combined \<longrightarrow> d_timezone p \<noteq> []" using assms(2) by (auto simp: zone_ok_def)
  from c(1) [OF k] c(2) [OF k] assms(3) show ?thesis by (fastforce simp: zone_ok_def)
qed

lemma zone_ok_mono: "zone_ok d zs \<Longrightarrow> zs' \<subseteq> zs \<Longrightarrow> zone_ok d zs'"
  by (auto simp: zone_ok_def)

lemma flatten_postorder: "p \<in> set (flattenBinary n op) \<Longrightarrow> set (postorder p) \<subseteq> set (postorder n)"
  by (induction n op rule: flattenBinary.induct) (auto split: if_splits)

lemma list_all2_In1: "list_all2 R xs ys \<Longrightarrow> x \<in> set xs \<Longrightarrow> \<exists>y \<in> set ys. R x y"
  by (induction rule: list_all2_induct) auto

lemma list_all2_In2: "list_all2 R xs ys \<Longrightarrow> y \<in> set ys \<Longrightarrow> \<exists>x \<in> set xs. R x y"
  by (induction rule: list_all2_induct) auto

text \<open>Descriptions of the parts and of the merged comparisons account for every zone.\<close>

lemma described_parts:
  assumes part: "\<And>p d. p \<in> set nodes \<Longrightarrow> timeComparison p = None \<Longrightarrow> describe p = Inr (Some d) \<Longrightarrow> zone_ok d (clock_zones p)"
    and ok: "\<And>p. p \<in> set nodes \<Longrightarrow> \<forall>m \<in> set (postorder p). syntax_ok m"
    and ps: "collect describe (filter (\<lambda>p. timeComparison p = None) nodes) = Inr (Some ps)"
    and rs: "collect (\<lambda>g. describeTimeRange fm g t l) (comparison_groups nodes) = Inr (Some rs)"
    and d: "combine t isand (ps @ rs) = Some d"
  shows "zone_ok d (\<Union>p \<in> set nodes. clock_zones p)"
proof (rule combine_parts [OF d])
  note p2 = collect_Some [OF ps] and r2 = collect_Some [OF rs]
  have r_ok: "zone_ok r {cmp_timezone (hd g)}" if "describeTimeRange fm g t l = Inr (Some r)" "g \<in> set (comparison_groups nodes)" for r g
    using describeTimeRange_zone [OF that(1) group_zone_not_Nil [OF that(2)]] .
  show "\<forall>p \<in> set (ps @ rs). \<exists>zs. zone_ok p zs"
    using list_all2_In2 [OF p2] list_all2_In2 [OF r2] part r_ok by fastforce
  show "\<forall>z \<in> (\<Union>p \<in> set nodes. clock_zones p). z \<noteq> [] \<and> (\<exists>p \<in> set (ps @ rs). zone_ok p {z})"
  proof (intro ballI conjI)
    fix z assume "z \<in> (\<Union>p \<in> set nodes. clock_zones p)"
    then obtain p where p: "p \<in> set nodes" "z \<in> clock_zones p" by blast
    show "z \<noteq> []" using p(2) clock_zones_not_Nil by metis
    show "\<exists>p \<in> set (ps @ rs). zone_ok p {z}"
    proof (cases "timeComparison p")
      case None
      with p(1) have "p \<in> set (filter (\<lambda>p. timeComparison p = None) nodes)" by simp
      from list_all2_In1 [OF p2 this] obtain q where q: "q \<in> set ps" "describe p = Inr (Some q)" by blast
      have "zone_ok q {z}" using zone_ok_mono [OF part [OF p(1) None q(2)]] p(2) by simp
      with q(1) show ?thesis by auto
    next
      case (Some c)
      with clock_zones_comparison [OF Some ok [OF p(1)]] p(2) have z: "z = cmp_timezone c" by simp
      from comparison_in_group [OF p(1) Some] obtain g where g: "g \<in> set (comparison_groups nodes)" "c \<in> set g" by blast
      from list_all2_In1 [OF r2 g(1)] obtain r where r: "r \<in> set rs" "describeTimeRange fm g t l = Inr (Some r)" by blast
      from r_ok [OF r(2) g(1)] group_zone [OF g] z have "zone_ok r {z}" by simp
      with r(1) show ?thesis by auto
    qed
  qed
qed

lemma described_alternatives:
  assumes part: "\<And>p d. p \<in> set nodes \<Longrightarrow> describe p = Inr (Some d) \<Longrightarrow> zone_ok d (clock_zones p)"
    and ps: "collect describe nodes = Inr (Some ps)" and d: "combine t isand ps = Some d"
  shows "zone_ok d (\<Union>p \<in> set nodes. clock_zones p)"
proof (rule combine_parts [OF d])
  note p2 = collect_Some [OF ps]
  show "\<forall>p \<in> set ps. \<exists>zs. zone_ok p zs" using list_all2_In2 [OF p2] part by fastforce
  show "\<forall>z \<in> (\<Union>p \<in> set nodes. clock_zones p). z \<noteq> [] \<and> (\<exists>p \<in> set ps. zone_ok p {z})"
  proof (intro ballI conjI)
    fix z assume "z \<in> (\<Union>p \<in> set nodes. clock_zones p)"
    then obtain p where p: "p \<in> set nodes" "z \<in> clock_zones p" by blast
    show "z \<noteq> []" using p(2) clock_zones_not_Nil by metis
    from list_all2_In1 [OF p2 p(1)] obtain q where q: "q \<in> set ps" "describe p = Inr (Some q)" by blast
    have "zone_ok q {z}" using zone_ok_mono [OF part [OF p(1) q(2)]] p(2) by simp
    with q(1) show "\<exists>p \<in> set ps. zone_ok p {z}" by auto
  qed
qed

theorem describeBillingCondition_zone:
  "describeBillingCondition fm t l n = Inr (Some d) \<Longrightarrow> \<forall>m \<in> set (postorder n). syntax_ok m \<Longrightarrow>
     zone_ok d (clock_zones n)"
proof (induction fm t l n arbitrary: d rule: describeBillingCondition.induct)
  case (1 fm t l op x i j)
  then obtain d' where "describeBillingCondition fm t l x = Inr (Some d')" "d_timezone d = d_timezone d'" "d_kind d = Combined"
    "op = js ''!''" by (auto simp: rbind_eq_Inr split: if_splits)
  with "1.IH" [of d'] "1.prems"(2) show ?case by (auto simp: zone_ok_def clock_zones_simps)
next
  case (2 fm t l op l' r i j)
  let ?n = "Binary op l' r i j" and ?nodes = "flattenBinary (Binary op l' r i j) op"
  show ?case
  proof (cases "token_comparison ?n")
    case (Some c)
    then have "clock_zones ?n = {}"
      by (cases ?n rule: token_comparison.cases) (auto simp: clock_zones_simps)
    moreover have "d_kind d = Combined" using "2.prems"(1) Some
      by (auto simp: describe_token_def rbind_eq_Inr split: option.splits prod.splits)
    ultimately show ?thesis by (simp add: zone_ok_def)
  next
    case tok: None
    show ?thesis
    proof (cases "timeComparison ?n")
      case (Some c)
      with "2.prems"(1) tok have "describeTimeRange fm [c] t l = Inr (Some d)" by (simp add: Let_def)
      with describeTimeRange_zone [OF this] comparison_zone_not_Nil [OF Some]
        clock_zones_comparison [OF Some "2.prems"(2)] show ?thesis by simp
    next
      case tc: None
      have ok: "\<forall>m \<in> set (postorder p). syntax_ok m" if "p \<in> set ?nodes" for p
        using flatten_postorder [OF that] "2.prems"(2) by blast
      have op: "op \<in> set logical_operators" using "2.prems"(1) tok tc by (auto simp: Let_def split: if_splits)
      have zs: "clock_zones ?n = (\<Union>p \<in> set ?nodes. clock_zones p)" by (rule clock_zones_flatten)
      show ?thesis
      proof (cases "op = js ''&&''")
        case True
        from "2.prems"(1) tok tc op True obtain ps rs
          where "collect (describeBillingCondition fm t l) (filter (\<lambda>p. timeComparison p = None) ?nodes) = Inr (Some ps)"
            "collect (\<lambda>g. describeTimeRange fm g t l) (comparison_groups ?nodes) = Inr (Some rs)" "combine t True (ps @ rs) = Some d"
          by (auto simp: Let_def rbind_eq_Inr simp del: flattenBinary.simps split: option.splits)
        note eqs = this
        have part: "zone_ok d' (clock_zones p)" if "p \<in> set ?nodes" "timeComparison p = None"
          "describeBillingCondition fm t l p = Inr (Some d')" for p d'
          by (rule "2.IH" [OF refl refl tok tc _ refl _ that(3) ok [OF that(1)]]) (use op True that in simp_all)
        show ?thesis unfolding zs
          by (rule described_parts [of ?nodes "describeBillingCondition fm t l" ps fm t l rs True d, OF part ok eqs])
      next
        case False
        from "2.prems"(1) tok tc op False obtain ps
          where ps: "collect (describeBillingCondition fm t l) ?nodes = Inr (Some ps)" "combine t False ps = Some d"
          by (auto simp: Let_def rbind_eq_Inr simp del: flattenBinary.simps split: option.splits)
        have part: "zone_ok d' (clock_zones p)" if "p \<in> set ?nodes"
          "describeBillingCondition fm t l p = Inr (Some d')" for p d'
          by (rule "2.IH" [OF refl refl tok tc _ refl _ that(2) ok [OF that(1)]]) (use op False that in simp_all)
        show ?thesis unfolding zs
          by (rule described_alternatives [of ?nodes "describeBillingCondition fm t l" ps t False d, OF part ps])
      qed
    qed
  qed
qed auto

end
