(* ===== verification/TaskDisplay.thy ===== *)
theory TaskDisplay
  imports Display
begin

text \<open>
  The price list of a task with arbitrary conditions (\<open>billing-expression/task-display.ts\<close>).
  The adapter fixes the categorical facts of the task in every declared way, keeps the
  clock conditions symbolic and expands the expression into branches with a linear price.
  Its budget of visited nodes is the state that the two recursive functions share.

  Objects are read as maps in insertion order; their keys are the field names of the schema.
\<close>

section \<open>Conditions\<close>

datatype fact = F_text jsstring | F_bool bool

type_synonym facts = "(jsstring \<times> fact) list"

record display_context =
  dc_source :: jsstring
  dc_schema :: usage_schema
  dc_facts :: facts

datatype condition_value = C_bool bool | C_text jsstring

text \<open>Comparing a fact with a literal: the body of the loop over the two operand orders.\<close>

definition fact_comparison :: "display_context \<Rightarrow> bool \<Rightarrow> jsstring \<Rightarrow> literal \<Rightarrow> condition_value option" where
  "fact_comparison dc isEqual key v =
     (case map_of (dc_facts dc) key of
        None \<Rightarrow> None
      | Some known \<Rightarrow>
          let definition' = map_of (dc_schema dc) key;
              answer = (\<lambda>b. Some (C_bool (if isEqual then b else \<not> b)))
          in if is_type definition' ''boolean'' then
               (case v of BoolLit b \<Rightarrow> answer (known = F_bool b) | _ \<Rightarrow> None)
             else (case v of
                     StringLit s \<Rightarrow>
                       if s \<notin> set (case schema_enum definition' of Some vs \<Rightarrow> vs | None \<Rightarrow> [])
                       then Some (C_bool (\<not> isEqual)) else answer (known = F_text s)
                   | _ \<Rightarrow> None))"

fun is_clock_operand :: "node \<Rightarrow> bool" where
  "is_clock_operand (Literal (NumberLit k) _ _ _) = True"
| "is_clock_operand (Call f (Literal (StringLit zone) _ _ _ # _) _ _) =
     (f \<in> set TIME_FUNCTIONS \<and> trim zone \<noteq> js ''Local'')"
| "is_clock_operand _ = False"

fun is_call :: "node \<Rightarrow> bool" where
  "is_call (Call _ _ _ _) = True"
| "is_call _ = False"

definition is_clock_comparison :: "jsstring \<Rightarrow> node \<Rightarrow> node \<Rightarrow> bool" where
  "is_clock_comparison op l r \<longleftrightarrow> op \<in> set comparison_operators \<and> (is_call l \<or> is_call r) \<and>
     is_clock_operand l \<and> is_clock_operand r"

text \<open>A fact on one side and a literal on the other.\<close>

fun fact_operands :: "node \<Rightarrow> node \<Rightarrow> (jsstring \<times> literal) option" where
  "fact_operands probe (Literal v _ _ _) = map_option (\<lambda>key. (key, v)) (usage_probe probe)"
| "fact_operands _ _ = None"

definition compare_display :: "display_context \<Rightarrow> jsstring \<Rightarrow> node \<Rightarrow> node \<Rightarrow> nat \<Rightarrow> nat \<Rightarrow> condition_value option" where
  "compare_display dc op l r i j =
     (let clock = (if is_clock_comparison op l r then Some (C_text (slice (dc_source dc) i j)) else None)
      in if op = js ''=='' \<or> op = js ''!='' then
           (case fact_operands l r of
              Some (key, v) \<Rightarrow> fact_comparison dc (op = js ''=='') key v
            | None \<Rightarrow>
                (case fact_operands r l of
                   Some (key, v) \<Rightarrow> fact_comparison dc (op = js ''=='') key v
                 | None \<Rightarrow> clock))
         else clock)"

definition not_text :: "jsstring \<Rightarrow> jsstring" where
  "not_text s = js ''!('' @ s @ js '')''"

definition logical_display :: "jsstring \<Rightarrow> condition_value \<Rightarrow> condition_value \<Rightarrow> condition_value" where
  "logical_display op a b =
     (let short = (op = js ''||'') in
      if a = C_bool short \<or> b = C_bool short then C_bool short
      else case (a, b) of
        (C_bool _, _) \<Rightarrow> b
      | (_, C_bool _) \<Rightarrow> a
      | (C_text s, C_text s') \<Rightarrow> C_text (js ''('' @ s @ js '') '' @ op @ js '' ('' @ s' @ js '')''))"

fun taskDisplayCondition :: "display_context \<Rightarrow> node \<Rightarrow> int \<Rightarrow> condition_value option \<times> int" where
  "taskDisplayCondition dc n remaining =
     (if remaining - 1 < 0 then (None, remaining - 1)
      else case n of
        Literal (BoolLit b) _ _ _ \<Rightarrow> (Some (C_bool b), remaining - 1)
      | Unary op x _ _ \<Rightarrow>
          if op = js ''!'' then
            let (v, rest) = taskDisplayCondition dc x (remaining - 1)
            in (map_option (\<lambda>v. case v of C_bool b \<Rightarrow> C_bool (\<not> b) | C_text s \<Rightarrow> C_text (not_text s)) v, rest)
          else (None, remaining - 1)
      | Binary op l r i j \<Rightarrow>
          if op \<in> set logical_operators then
            let (a, rest) = taskDisplayCondition dc l (remaining - 1);
                (b, rest') = taskDisplayCondition dc r rest
            in (case (a, b) of (Some x, Some y) \<Rightarrow> Some (logical_display op x y) | _ \<Rightarrow> None, rest')
          else (compare_display dc op l r i j, remaining - 1)
      | _ \<Rightarrow> (None, remaining - 1))"

section \<open>Branches\<close>

record price_branch =
  pb_label :: "jsstring option"
  pb_constant :: js_number
  pb_prices :: price_table
  pb_times :: "(jsstring, bool) ordered_map"

definition MAX_DISPLAY_ROWS :: nat where
  "MAX_DISPLAY_ROWS = 128"

definition merge_times :: "(jsstring, bool) ordered_map \<Rightarrow> (jsstring, bool) ordered_map \<Rightarrow> (jsstring, bool) ordered_map" where
  "merge_times a b = fold (\<lambda>(k, v). om_set k v) b a"

definition contradicts :: "(jsstring, bool) ordered_map \<Rightarrow> (jsstring, bool) ordered_map \<Rightarrow> bool" where
  "contradicts a b \<longleftrightarrow> (\<exists>(k, v) \<in> set a. map_of b k = Some (\<not> v))"

text \<open>The branches of one side of a symbolic conditional.\<close>

definition guarded :: "jsstring \<Rightarrow> bool \<Rightarrow> price_branch list \<Rightarrow> price_branch list" where
  "guarded condition' matches children' =
     map (\<lambda>b. b\<lparr>pb_times := merge_times [(condition', matches)] (pb_times b)\<rparr>)
       (filter (\<lambda>b. map_of (pb_times b) condition' \<noteq> Some (\<not> matches)) children')"

definition price_or_zero :: "price_table \<Rightarrow> jsstring \<Rightarrow> js_number" where
  "price_or_zero prices field = (case map_of prices field of Some x \<Rightarrow> x | None \<Rightarrow> zero_num)"

definition add_tables :: "price_table \<Rightarrow> price_table \<Rightarrow> price_table" where
  "add_tables a b =
     map (\<lambda>field. (field, js_add (price_or_zero a field) (price_or_zero b field)))
       (map fst a @ filter (\<lambda>field. field \<notin> fst ` set a) (map fst b))"

text \<open>The constant and the prices of a sum, product or quotient; \<open>None\<close> where the source gives up.\<close>

definition combine_prices :: "jsstring \<Rightarrow> price_branch \<Rightarrow> price_branch \<Rightarrow> (js_number \<times> price_table) option" where
  "combine_prices op a b =
     (if op = js ''+'' then Some (js_add (pb_constant a) (pb_constant b), add_tables (pb_prices a) (pb_prices b))
      else
        let aq = pb_prices a \<noteq> []; bq = pb_prices b \<noteq> []; quotient = (op = js ''/'') in
        if aq \<and> bq \<or> quotient \<and> (bq \<or> js_le (pb_constant b) zero_num) then None
        else
          let factor = (if quotient then js_div (num 1) (pb_constant b)
                        else if aq then pb_constant b else pb_constant a)
          in Some (if quotient then js_div (pb_constant a) (pb_constant b) else js_mul (pb_constant a) (pb_constant b),
                   map (\<lambda>(field, price). (field, js_mul price factor)) (pb_prices (if aq then a else b))))"

definition usable_price :: "js_number \<Rightarrow> bool" where
  "usable_price x \<longleftrightarrow> is_finite x \<and> js_le zero_num x"

datatype pair_result = Skip | Give_up | Row price_branch

definition combine_branches :: "jsstring \<Rightarrow> price_branch \<Rightarrow> price_branch \<Rightarrow> pair_result" where
  "combine_branches op a b =
     (if pb_label a \<noteq> None \<and> pb_label b \<noteq> None then Give_up
      else if contradicts (pb_times a) (pb_times b) then Skip
      else case combine_prices op a b of
        None \<Rightarrow> Give_up
      | Some (constant', prices) \<Rightarrow>
          if \<not> list_all usable_price (constant' # map snd prices) then Give_up
          else Row \<lparr>pb_label = (case pb_label a of Some s \<Rightarrow> Some s | None \<Rightarrow> pb_label b),
                    pb_constant = constant', pb_prices = prices,
                    pb_times = merge_times (pb_times a) (pb_times b)\<rparr>)"

fun collect_rows :: "pair_result list \<Rightarrow> price_branch list option" where
  "collect_rows [] = Some []"
| "collect_rows (Skip # rs) = collect_rows rs"
| "collect_rows (Give_up # rs) = None"
| "collect_rows (Row b # rs) = map_option (Cons b) (collect_rows rs)"

definition product_branches :: "jsstring \<Rightarrow> price_branch list \<Rightarrow> price_branch list \<Rightarrow> price_branch list option" where
  "product_branches op left right =
     (if MAX_DISPLAY_ROWS < length left * length right then None
      else collect_rows (concat (map (\<lambda>a. map (\<lambda>b. combine_branches op a b) right) left)))"

definition plain_branch :: "js_number \<Rightarrow> price_table \<Rightarrow> price_branch" where
  "plain_branch k prices = \<lparr>pb_label = None, pb_constant = k, pb_prices = prices, pb_times = []\<rparr>"

definition label_branches :: "jsstring \<Rightarrow> price_branch list option \<Rightarrow> price_branch list option" where
  "label_branches label bs =
     (case bs of
        None \<Rightarrow> None
      | Some xs \<Rightarrow>
          if \<exists>b \<in> set xs. pb_label b \<noteq> None then None else Some (map (\<lambda>b. b\<lparr>pb_label := Some label\<rparr>) xs))"

definition join_sides :: "price_branch list \<Rightarrow> price_branch list \<Rightarrow> price_branch list option" where
  "join_sides yes no = (if length (yes @ no) \<le> MAX_DISPLAY_ROWS then Some (yes @ no) else None)"

fun tier_parts :: "node \<Rightarrow> (jsstring \<times> node) option" where
  "tier_parts (Call f (Literal (StringLit label) _ _ _ # body # _) _ _) = (if f = js ''tier'' then Some (label, body) else None)"
| "tier_parts _ = None"

lemma tier_parts_size: "tier_parts n = Some (label, body) \<Longrightarrow> node_count body < node_count n"
  by (cases n rule: tier_parts.cases) (auto split: if_splits)

function taskPriceBranches :: "display_context \<Rightarrow> node \<Rightarrow> int \<Rightarrow> price_branch list option \<times> int" where
  "taskPriceBranches dc n remaining =
     (let rest = remaining - 1 in
      if rest < 0 then (None, rest)
      else case n of
        Literal v _ _ _ \<Rightarrow>
          (case v of
             NumberLit k \<Rightarrow> (if js_le zero_num k then Some [plain_branch k []] else None, rest)
           | _ \<Rightarrow> (None, rest))
      | Call f as i j \<Rightarrow>
          (case usage_probe n of
             Some field \<Rightarrow>
               (let d = map_of (dc_schema dc) field in
                if is_type d ''number'' \<and> schema_unit d \<noteq> None
                then Some [plain_branch zero_num [(field, num 1)]] else None, rest)
           | None \<Rightarrow>
               (case tier_parts n of
                  Some (label, body) \<Rightarrow>
                    let (bs, rest') = taskPriceBranches dc body rest in (label_branches label bs, rest')
                | None \<Rightarrow> (None, rest)))
      | Conditional c y no _ _ \<Rightarrow>
          (case taskDisplayCondition dc c rest of
             (None, rest1) \<Rightarrow> (None, rest1)
           | (Some (C_bool b), rest1) \<Rightarrow> taskPriceBranches dc (if b then y else no) rest1
           | (Some (C_text s), rest1) \<Rightarrow>
               (case taskPriceBranches dc y rest1 of
                  (None, rest2) \<Rightarrow> (None, rest2)
                | (Some ys, rest2) \<Rightarrow>
                    (case taskPriceBranches dc no rest2 of
                       (None, rest3) \<Rightarrow> (None, rest3)
                     | (Some ns, rest3) \<Rightarrow> (join_sides (guarded s True ys) (guarded s False ns), rest3))))
      | Binary op l r _ _ \<Rightarrow>
          if op \<notin> {js ''+'', js ''*'', js ''/''} then (None, rest)
          else
            let (a, rest1) = taskPriceBranches dc l rest; (b, rest2) = taskPriceBranches dc r rest1
            in (case (a, b) of (Some xs, Some ys) \<Rightarrow> product_branches op xs ys | _ \<Rightarrow> None, rest2)
      | _ \<Rightarrow> (None, rest))"
  by pat_completeness auto
termination
  by (relation "measure (\<lambda>(dc, n, r). node_count n)") (auto dest: tier_parts_size)

declare taskPriceBranches.simps [simp del] taskDisplayCondition.simps [simp del]

section \<open>The price list\<close>

text \<open>The fields that the expression probes, and whether all probes are declared.\<close>

definition field_visitor :: "usage_schema \<Rightarrow> node \<Rightarrow> jsstring list \<times> bool \<Rightarrow> thrown + jsstring list \<times> bool" where
  "field_visitor schema n s =
     (case s of (found, valid) \<Rightarrow>
        (case n of
           Call f as _ _ \<Rightarrow>
             if f \<noteq> js ''u'' then Inr s
             else (case usage_probe n of
                     Some key \<Rightarrow>
                       if key \<in> fst ` set schema then Inr (if key \<in> set found then found else found @ [key], valid)
                       else Inr (found, False)
                   | None \<Rightarrow> Inr (found, False))
         | _ \<Rightarrow> Inr s))"

definition field_values :: "usage_schema \<Rightarrow> jsstring \<Rightarrow> fact list" where
  "field_values schema field =
     (let d = map_of schema field in
      if is_type d ''boolean'' then [F_bool False, F_bool True]
      else map F_text (case schema_enum d of Some vs \<Rightarrow> vs | None \<Rightarrow> []))"

fun combinations :: "usage_schema \<Rightarrow> jsstring list \<Rightarrow> facts list \<Rightarrow> facts list option" where
  "combinations schema [] combos = Some combos"
| "combinations schema (field # fields') combos =
     (if is_type (map_of schema field) ''number'' then combinations schema fields' combos
      else
        let vs = field_values schema field in
        if vs = [] \<or> MAX_DISPLAY_ROWS < length combos * length vs then None
        else combinations schema fields'
          (concat (map (\<lambda>facts'. map (\<lambda>v. facts' @ [(field, v)]) vs) combos)))"

definition unit_prices :: "usage_schema \<Rightarrow> jsstring list \<Rightarrow> price_branch \<Rightarrow> price_table" where
  "unit_prices schema found b =
     List.map_filter (\<lambda>field.
       (case (is_type (map_of schema field) ''number'', schema_unit (map_of schema field)) of
          (True, Some u) \<Rightarrow>
            Some (field, js_mul (price_or_zero (pb_prices b) field) (num (if u = js ''token'' then 1000000 else 1)))
        | _ \<Rightarrow> None)) found"

definition fact_text :: "fact \<Rightarrow> jsstring" where
  "fact_text v = (case v of F_text s \<Rightarrow> s | F_bool b \<Rightarrow> js_String_bool b)"

definition times_text :: "(jsstring, bool) ordered_map \<Rightarrow> jsstring" where
  "times_text tm = join (js '' && '') (map (\<lambda>(c, matches). parenthesised matches c) tm)"

definition row_of :: "usage_schema \<Rightarrow> jsstring list \<Rightarrow> facts \<Rightarrow> price_branch \<Rightarrow> task_tier option" where
  "row_of schema found facts' b =
     (case pb_label b of
        None \<Rightarrow> None
      | Some label \<Rightarrow>
          let prices = unit_prices schema found b; text' = times_text (pb_times b) in
          if prices = [] \<or> \<not> list_all is_finite (map snd prices) then None
          else Some \<lparr>kt_conditionText = (if text' = [] then None else Some text'), kt_label = label,
                     kt_conditions = map (\<lambda>(field, v). (field, fact_text v)) facts',
                     kt_constant = pb_constant b, kt_unitPrices = prices\<rparr>)"

text \<open>The loop over the combinations, with the rows so far and the budget left.\<close>

fun collect_tiers ::
    "jsstring \<Rightarrow> usage_schema \<Rightarrow> jsstring list \<Rightarrow> node \<Rightarrow> facts list \<Rightarrow> int \<Rightarrow> task_tier list \<Rightarrow> task_tier list option" where
  "collect_tiers src schema found n [] remaining rows = Some rows"
| "collect_tiers src schema found n (facts' # others) remaining rows =
     (case taskPriceBranches \<lparr>dc_source = src, dc_schema = schema, dc_facts = facts'\<rparr> n remaining of
        (None, _) \<Rightarrow> None
      | (Some bs, rest) \<Rightarrow>
          if MAX_DISPLAY_ROWS < length rows + length bs then None
          else case those (map (row_of schema found facts') bs) of
            None \<Rightarrow> None
          | Some new \<Rightarrow> collect_tiers src schema found n others rest (rows @ new))"

definition display_budget :: int where
  "display_budget = 20000"

definition task_rows :: "jsstring \<Rightarrow> usage_schema \<Rightarrow> node \<Rightarrow> thrown + task_tier list option" where
  "task_rows src schema n =
     rbind (visitExpression n (field_visitor schema) ([], True)) (\<lambda>(found, valid).
     Inr (if \<not> valid then None
          else case combinations schema found [[]] of
            None \<Rightarrow> None
          | Some combos \<Rightarrow> collect_tiers src schema found n combos display_budget []))"

definition readConditionalTaskPricing ::
    "jsstring \<Rightarrow> usage_schema \<Rightarrow> compile_cache \<Rightarrow> (thrown + task_tier list option) \<times> compile_cache" where
  "readConditionalTaskPricing src schema cache =
     (let (r, cache') = compileBillingExpression src cache
      in (case r of Failed _ \<Rightarrow> Inr None | Ready c \<Rightarrow> task_rows src schema (ast c), cache'))"

end
