(* ===== verification/TaskDisplayFacts.thy ===== *)
theory TaskDisplayFacts
  imports TaskDisplay NumberOrder
begin

text \<open>
  The branches of a task price partition the clock: whatever the clock conditions evaluate
  to, exactly one branch applies.  Their prices are finite and not negative, the fixed facts
  run through every declared combination once, and the list never exceeds its bound.
\<close>

section \<open>Exactly one row for every clock\<close>

text \<open>A branch applies when the clock conditions have the values it assumes.\<close>

definition times_hold :: "(jsstring \<Rightarrow> bool) \<Rightarrow> (jsstring, bool) ordered_map \<Rightarrow> bool" where
  "times_hold clock' tm \<longleftrightarrow> (\<forall>(c, v) \<in> set tm. clock' c = v)"

definition branch_applies :: "(jsstring \<Rightarrow> bool) \<Rightarrow> price_branch \<Rightarrow> bool" where
  "branch_applies clock' b \<longleftrightarrow> times_hold clock' (pb_times b)"

definition branch_ok :: "price_branch \<Rightarrow> bool" where
  "branch_ok b \<longleftrightarrow> distinct (map fst (pb_times b))"

text \<open>The number of branches that apply.\<close>

definition applying :: "(jsstring \<Rightarrow> bool) \<Rightarrow> price_branch list \<Rightarrow> nat" where
  "applying clock' bs = length (filter (branch_applies clock') bs)"

lemma times_hold_simps [simp]:
  "times_hold f []" "times_hold f ((c, v) # tm) \<longleftrightarrow> f c = v \<and> times_hold f tm"
  by (auto simp: times_hold_def)

lemma holds_om_set:
  "distinct (map fst m) \<Longrightarrow> map_of m k \<noteq> Some (\<not> v) \<Longrightarrow> times_hold f (om_set k v m) \<longleftrightarrow> times_hold f m \<and> f k = v"
  by (induction k v m rule: om_set.induct) auto

lemma merge_times_ok:
  "distinct (map fst a) \<Longrightarrow> distinct (map fst b) \<Longrightarrow> \<not> contradicts b a \<Longrightarrow>
     distinct (map fst (merge_times a b)) \<and> (times_hold f (merge_times a b) \<longleftrightarrow> times_hold f a \<and> times_hold f b)"
proof (induction b arbitrary: a)
  case (Cons p b)
  obtain k v where p: "p = (k, v)" by (cases p)
  have k: "map_of a k \<noteq> Some (\<not> v)" using Cons.prems(3) p by (auto simp: contradicts_def)
  have "\<not> contradicts b (om_set k v a)"
  proof
    assume "contradicts b (om_set k v a)"
    then obtain c w where c: "(c, w) \<in> set b" "map_of (om_set k v a) c = Some (\<not> w)" unfolding contradicts_def by blast
    then have "c \<noteq> k" using Cons.prems(2) p by (auto intro: rev_image_eqI)
    with c have "map_of a c = Some (\<not> w)" by simp
    with c(1) have "contradicts (p # b) a" by (auto simp: contradicts_def)
    with Cons.prems(3) show False ..
  qed
  note IH = Cons.IH [OF distinct_om_set [OF Cons.prems(1)] _ this]
  have d: "distinct (map fst b)" using Cons.prems(2) by simp
  have m: "merge_times a (p # b) = merge_times (om_set k v a) b" by (simp add: merge_times_def p)
  show ?case unfolding m using IH [OF d] holds_om_set [OF Cons.prems(1) k, of f] p by auto
qed (simp add: merge_times_def)

lemma contradicts_sym:
  "distinct (map fst a) \<Longrightarrow> distinct (map fst b) \<Longrightarrow> contradicts a b \<longleftrightarrow> contradicts b a"
proof -
  have "contradicts b a" if "contradicts a b" "distinct (map fst a)" for a b :: "(jsstring, bool) ordered_map"
  proof -
    from that(1) obtain c w where "(c, w) \<in> set a" "map_of b c = Some (\<not> w)" unfolding contradicts_def by blast
    with map_of_is_SomeI [OF that(2)] have "map_of a c = Some w" "(c, \<not> w) \<in> set b" by (auto dest: map_of_SomeD)
    then show ?thesis unfolding contradicts_def by force
  qed
  then show "distinct (map fst a) \<Longrightarrow> distinct (map fst b) \<Longrightarrow> contradicts a b \<longleftrightarrow> contradicts b a" by blast
qed

lemma contradicts_not_both:
  "contradicts (pb_times a) (pb_times b) \<Longrightarrow> \<not> (branch_applies f a \<and> branch_applies f b)"
  by (fastforce simp: contradicts_def branch_applies_def times_hold_def dest: map_of_SomeD)

lemma branch_label [simp]:
  "branch_applies f (b\<lparr>pb_label := l\<rparr>) = branch_applies f b" "branch_ok (b\<lparr>pb_label := l\<rparr>) = branch_ok b"
  by (simp_all add: branch_applies_def branch_ok_def)

lemma applying_simps [simp]:
  "applying f [] = 0" "applying f (xs @ ys) = applying f xs + applying f ys"
  by (simp_all add: applying_def)

lemma applying_guarded:
  assumes "\<forall>b \<in> set bs. branch_ok b"
  shows "applying f (guarded c m bs) = (if f c = m then applying f bs else 0)"
    and "\<forall>b \<in> set (guarded c m bs). branch_ok b"
proof -
  have one: "branch_ok b' \<and> (branch_applies f b' \<longleftrightarrow> f c = m \<and> branch_applies f b)"
    if "branch_ok b" "map_of (pb_times b) c \<noteq> Some (\<not> m)" "b' = b\<lparr>pb_times := merge_times [(c, m)] (pb_times b)\<rparr>" for b b'
  proof -
    have "\<not> contradicts (pb_times b) [(c, m)]"
      using that(1,2) by (auto simp: contradicts_def branch_ok_def dest: map_of_is_SomeI split: if_splits)
    with merge_times_ok [of "[(c, m)]" "pb_times b" f] that(1,3) show ?thesis
      by (auto simp: branch_ok_def branch_applies_def)
  qed
  have no: "\<not> branch_applies f b" if "map_of (pb_times b) c = Some (\<not> m)" "f c = m" for b
    using that by (fastforce simp: branch_applies_def times_hold_def dest: map_of_SomeD)
  show "applying f (guarded c m bs) = (if f c = m then applying f bs else 0)"
    using assms
  proof (induction bs)
    case (Cons b bs)
    then show ?case using one [of b] no [of b] by (auto simp: guarded_def applying_def)
  qed (simp add: guarded_def)
  show "\<forall>b \<in> set (guarded c m bs). branch_ok b" using assms one by (auto simp: guarded_def)
qed

definition row_count :: "(jsstring \<Rightarrow> bool) \<Rightarrow> pair_result \<Rightarrow> nat" where
  "row_count f r = (case r of Row b \<Rightarrow> if branch_applies f b then 1 else 0 | _ \<Rightarrow> 0)"

lemma collect_rows_applying:
  "collect_rows rs = Some bs \<Longrightarrow> applying f bs = sum_list (map (row_count f) rs) \<and> Give_up \<notin> set rs \<and>
     (\<forall>b \<in> set bs. Row b \<in> set rs)"
proof (induction rs arbitrary: bs rule: collect_rows.induct)
  case (4 b rs)
  then show ?case by (auto simp: row_count_def applying_def)
qed (auto simp: row_count_def)

lemma combine_branches_count:
  assumes "branch_ok a" "branch_ok b" "combine_branches op a b \<noteq> Give_up"
  shows "row_count f (combine_branches op a b) = (if branch_applies f a \<and> branch_applies f b then 1 else 0)"
    and "combine_branches op a b = Row c \<Longrightarrow> branch_ok c"
proof -
  have "row_count f (combine_branches op a b) = (if branch_applies f a \<and> branch_applies f b then 1 else 0) \<and>
    (combine_branches op a b = Row c \<longrightarrow> branch_ok c)" for c
  proof (cases "contradicts (pb_times a) (pb_times b)")
    case True
    with contradicts_not_both [OF True, of f] assms(3) show ?thesis by (auto simp: combine_branches_def row_count_def)
  next
    case False
    then have "\<not> contradicts (pb_times b) (pb_times a)" using assms(1,2) contradicts_sym by (auto simp: branch_ok_def)
    with merge_times_ok [of "pb_times a" "pb_times b" f] False assms show ?thesis
      by (auto simp: combine_branches_def row_count_def branch_ok_def branch_applies_def split: option.splits prod.splits if_splits)
  qed
  then show "row_count f (combine_branches op a b) = (if branch_applies f a \<and> branch_applies f b then 1 else 0)"
    "combine_branches op a b = Row c \<Longrightarrow> branch_ok c" by blast+
qed

lemma sum_list_map_concat:
  "sum_list (map g (concat (map h xs))) = (\<Sum>a\<leftarrow>xs. sum_list (map g (h a)))"
  by (induction xs) auto

lemma product_branches_applying:
  assumes "product_branches op xs ys = Some bs" "\<forall>a \<in> set xs. branch_ok a" "\<forall>b \<in> set ys. branch_ok b"
  shows "applying f bs = applying f xs * applying f ys \<and> (\<forall>b \<in> set bs. branch_ok b)"
proof -
  let ?rs = "concat (map (\<lambda>a. map (\<lambda>b. combine_branches op a b) ys) xs)"
  have c: "collect_rows ?rs = Some bs" using assms(1) by (auto simp: product_branches_def split: if_splits)
  note r = collect_rows_applying [OF c, of f]
  have g: "combine_branches op a b \<noteq> Give_up" if "a \<in> set xs" "b \<in> set ys" for a b
  proof -
    from that have "combine_branches op a b \<in> set ?rs" by auto
    with r show ?thesis by metis
  qed
  have "(\<Sum>b\<leftarrow>ys. row_count f (combine_branches op a b)) = (if branch_applies f a then applying f ys else 0)" if a: "a \<in> set xs" for a
  proof -
    have "(\<Sum>b\<leftarrow>ys. row_count f (combine_branches op a b)) = (\<Sum>b\<leftarrow>ys. if branch_applies f a \<and> branch_applies f b then 1 else 0)"
      using combine_branches_count(1) assms(2,3) g a by (intro arg_cong [where f = sum_list] map_cong) auto
    also have "\<dots> = (if branch_applies f a then applying f ys else 0)" by (induction ys) (auto simp: applying_def)
    finally show ?thesis .
  qed
  then have "(\<Sum>a\<leftarrow>xs. \<Sum>b\<leftarrow>ys. row_count f (combine_branches op a b)) = (\<Sum>a\<leftarrow>xs. if branch_applies f a then applying f ys else 0)"
    by (intro arg_cong [where f = sum_list] map_cong) auto
  also have "\<dots> = applying f xs * applying f ys" by (induction xs) (auto simp: applying_def)
  finally have "sum_list (map (row_count f) ?rs) = applying f xs * applying f ys"
    by (simp add: sum_list_map_concat comp_def)
  moreover have "branch_ok b" if "b \<in> set bs" for b
  proof -
    from r that have "Row b \<in> set ?rs" by blast
    then obtain x y where "x \<in> set xs" "y \<in> set ys" "combine_branches op x y = Row b" by auto
    with combine_branches_count(2) assms(2,3) g show ?thesis by metis
  qed
  ultimately show ?thesis using r by simp
qed

text \<open>
  An induction principle for the branches of an expression: a property of branch lists that
  every step keeps holds of the result.  \<open>L\<close> holds of the numbers that the expression writes.
\<close>

definition literals_satisfy :: "(js_number \<Rightarrow> bool) \<Rightarrow> node \<Rightarrow> bool" where
  "literals_satisfy L n \<longleftrightarrow> (\<forall>k b i j. Literal (NumberLit k) b i j \<in> set (postorder n) \<longrightarrow> L k)"

lemma literals_satisfy_child: "literals_satisfy L n \<Longrightarrow> c \<in> set (children n) \<Longrightarrow> literals_satisfy L c"
  using postorder_child [of c n] unfolding literals_satisfy_def by blast

lemma tier_parts_child: "tier_parts n = Some (label, body) \<Longrightarrow> body \<in> set (children n)"
  by (cases n rule: tier_parts.cases) (auto split: if_splits)

lemma branches_induct:
  assumes lit: "\<And>k. L k \<Longrightarrow> js_le zero_num k \<Longrightarrow> Q [plain_branch k []]"
    and field: "\<And>field. Q [plain_branch zero_num [(field, num 1)]]"
    and label: "\<And>xs label. Q xs \<Longrightarrow> Q (map (\<lambda>b. b\<lparr>pb_label := Some label\<rparr>) xs)"
    and guard: "\<And>s ys ns. Q ys \<Longrightarrow> Q ns \<Longrightarrow> Q (guarded s True ys @ guarded s False ns)"
    and prod: "\<And>op xs ys bs. Q xs \<Longrightarrow> Q ys \<Longrightarrow> product_branches op xs ys = Some bs \<Longrightarrow> Q bs"
  shows "taskPriceBranches dc n remaining = (Some bs, rest) \<Longrightarrow> literals_satisfy L n \<Longrightarrow> Q bs"
proof (induction dc n remaining arbitrary: bs rest rule: taskPriceBranches.induct)
  case (1 dc n remaining)
  note eq = "1.prems"(1) [unfolded taskPriceBranches.simps [of dc n remaining]]
  note sub = literals_satisfy_child [OF "1.prems"(2)]
  have r: "\<not> remaining - 1 < 0" using eq by (auto simp: Let_def split: if_splits)
  show ?case
  proof (cases n)
    case (Literal v b i j)
    with eq r obtain k where k: "v = NumberLit k" "js_le zero_num k" "bs = [plain_branch k []]"
      by (auto simp: Let_def split: literal.splits if_splits)
    moreover have "L k" using "1.prems"(2) k(1) Literal by (auto simp: literals_satisfy_def)
    ultimately show ?thesis using lit by simp
  next
    case (Call g as i j)
    show ?thesis
    proof (cases "usage_probe n")
      case (Some field')
      with eq r Call field show ?thesis by (auto simp: Let_def split: if_splits)
    next
      case None
      with eq r Call obtain label' body xs where t: "tier_parts n = Some (label', body)"
        "taskPriceBranches dc body (remaining - 1) = (Some xs, rest)" "bs = map (\<lambda>b. b\<lparr>pb_label := Some label'\<rparr>) xs"
        by (auto simp: Let_def label_branches_def split: option.splits prod.splits if_splits)
      with "1.IH"(1) [OF refl r Call None t(1) refl t(2)] sub tier_parts_child [OF t(1)] label show ?thesis by simp
    qed
  next
    case (Conditional c y no i j)
    obtain v rest1 where v: "taskDisplayCondition dc c (remaining - 1) = (Some v, rest1)"
      using eq r Conditional by (auto simp: Let_def split: prod.splits option.splits)
    have lits: "literals_satisfy L y" "literals_satisfy L no" using sub Conditional by auto
    show ?thesis
    proof (cases v)
      case (C_bool b)
      with eq r Conditional v have "taskPriceBranches dc (if b then y else no) rest1 = (Some bs, rest)" by (simp add: Let_def)
      with "1.IH"(4) [OF refl r Conditional v [symmetric] refl C_bool] lits show ?thesis by simp
    next
      case (C_text s)
      with eq r Conditional v obtain ys rest2 ns where t: "taskPriceBranches dc y rest1 = (Some ys, rest2)"
        "taskPriceBranches dc no rest2 = (Some ns, rest)" "bs = guarded s True ys @ guarded s False ns"
        by (auto simp: Let_def join_sides_def split: prod.splits option.splits if_splits)
      note y = "1.IH"(5) [OF refl r Conditional v [symmetric] refl C_text t(1)]
        and n = "1.IH"(6) [OF refl r Conditional v [symmetric] refl C_text t(1) [symmetric] refl t(2)]
      from guard [OF y n] lits t(3) show ?thesis by simp
    qed
  next
    case (Binary op x y i j)
    with eq r obtain xs rest1 ys where t: "op \<in> {js ''+'', js ''*'', js ''/''}" "taskPriceBranches dc x (remaining - 1) = (Some xs, rest1)"
      "taskPriceBranches dc y rest1 = (Some ys, rest)" "product_branches op xs ys = Some bs"
      by (auto simp: Let_def split: prod.splits option.splits if_splits)
    have op: "\<not> op \<notin> {js ''+'', js ''*'', js ''/''}" using t(1) by simp
    note a = "1.IH"(2) [OF refl r Binary op t(2)] and b = "1.IH"(3) [OF refl r Binary op t(2) [symmetric] refl t(3)]
    from prod [OF a b t(4)] sub Binary show ?thesis by simp
  qed (use eq r in \<open>auto simp: Let_def\<close>)
qed

theorem exactly_one_branch:
  assumes "taskPriceBranches dc n remaining = (Some bs, rest)"
  shows "applying f bs = 1"
proof -
  let ?Q = "\<lambda>bs. applying f bs = 1 \<and> (\<forall>b \<in> set bs. branch_ok b)"
  have "?Q bs"
  proof (rule branches_induct [where Q = ?Q and L = "\<lambda>_. True", OF _ _ _ _ _ assms])
    show "?Q (guarded s True ys @ guarded s False ns)" if "?Q ys" "?Q ns" for s ys ns
      using that applying_guarded(1) [of ys f s True] applying_guarded(1) [of ns f s False]
        applying_guarded(2) [of ys s True] applying_guarded(2) [of ns s False] by auto
    show "?Q bs" if "?Q xs" "?Q ys" "product_branches op xs ys = Some bs" for op xs ys bs
      using product_branches_applying [OF that(3), of f] that(1,2) by simp
    show "?Q (map (\<lambda>b. b\<lparr>pb_label := Some label\<rparr>) xs)" if "?Q xs" for xs label
      using that by (auto simp: applying_def filter_map comp_def)
  qed (auto simp: applying_def plain_branch_def branch_applies_def branch_ok_def literals_satisfy_def)
  then show ?thesis ..
qed

section \<open>Prices are usable\<close>

definition branch_usable :: "price_branch \<Rightarrow> bool" where
  "branch_usable b \<longleftrightarrow> usable_price (pb_constant b) \<and> list_all usable_price (map snd (pb_prices b))"

lemma product_usable:
  assumes "product_branches op xs ys = Some bs"
  shows "\<forall>b \<in> set bs. branch_usable b"
proof -
  let ?rs = "concat (map (\<lambda>a. map (\<lambda>b. combine_branches op a b) ys) xs)"
  have "collect_rows ?rs = Some bs" using assms by (auto simp: product_branches_def split: if_splits)
  from collect_rows_applying [OF this] have "\<forall>b \<in> set bs. Row b \<in> set ?rs" by blast
  moreover have "branch_usable b" if "combine_branches op x y = Row b" for x y b
    using that by (auto simp: combine_branches_def branch_usable_def split: if_splits option.splits prod.splits)
  ultimately show ?thesis by (fastforce dest: sym)
qed

lemma usable_one: "is_finite (num 1)" "js_less zero_num (num 1)"
proof -
  obtain s m e where n: "num 1 = Finite s m e" "number_value (num 1) = of_int 1" by (rule num_int [of 1]) auto
  then show "is_finite (num 1)" "js_less zero_num (num 1)" by simp_all
qed

theorem branches_usable:
  assumes "taskPriceBranches dc n remaining = (Some bs, rest)" "literals_satisfy is_finite n"
  shows "\<forall>b \<in> set bs. branch_usable b"
proof -
  have n: "usable_price zero_num" "usable_price (num 1)" by (simp_all add: usable_price_def js_le_def usable_one)
  show ?thesis
    by (rule branches_induct [where Q = "\<lambda>bs. \<forall>b \<in> set bs. branch_usable b" and L = is_finite, OF _ _ _ _ _ assms])
      (auto simp: branch_usable_def plain_branch_def guarded_def n dest: product_usable, simp add: usable_price_def)
qed

section \<open>Combinations of facts\<close>

definition declared_facts :: "usage_schema \<Rightarrow> jsstring list \<Rightarrow> facts set" where
  "declared_facts schema found =
     {b. map fst b = filter (\<lambda>f. \<not> is_type (map_of schema f) ''number'') found \<and>
         (\<forall>(f, v) \<in> set b. v \<in> set (field_values schema f))}"

lemma declared_facts_simps:
  "declared_facts schema [] = {[]}"
  "declared_facts schema (f # fs) =
     (if is_type (map_of schema f) ''number'' then declared_facts schema fs
      else {(f, v) # b |v b. v \<in> set (field_values schema f) \<and> b \<in> declared_facts schema fs})"
  by (auto simp: declared_facts_def map_eq_Cons_conv)

theorem combinations_complete:
  assumes "combinations schema found combos = Some cs"
  shows "set cs = {a @ b |a b. a \<in> set combos \<and> b \<in> declared_facts schema found}"
    and "length combos \<le> MAX_DISPLAY_ROWS \<Longrightarrow> length cs \<le> MAX_DISPLAY_ROWS"
  using assms
proof (induction schema found combos rule: combinations.induct)
  case (2 schema f fs combos)
  let ?vs = "field_values schema f" and ?next = "concat (map (\<lambda>facts'. map (\<lambda>v. facts' @ [(f, v)]) (field_values schema f)) combos)"
  {
    case 1
    show ?case
    proof (cases "is_type (map_of schema f) ''number''")
      case True
      with "2.IH"(1) [OF True] 1 show ?thesis by (simp add: declared_facts_simps)
    next
      case False
      with 1 have ok: "\<not> (?vs = [] \<or> MAX_DISPLAY_ROWS < length combos * length ?vs)" "combinations schema fs ?next = Some cs"
        by (auto simp: Let_def split: if_splits)
      have append_eq_snoc: "a @ (f, v) # b = (a @ [(f, v)]) @ b" for a v and b :: facts by simp
      have next': "set ?next = {a @ [(f, v)] |a v. a \<in> set combos \<and> v \<in> set ?vs}" by auto
      have "x \<in> set cs \<longleftrightarrow> (\<exists>a v b. a \<in> set combos \<and> v \<in> set ?vs \<and> b \<in> declared_facts schema fs \<and> x = a @ (f, v) # b)" for x
        unfolding "2.IH"(3) [OF False refl ok(1) ok(2)] next' using append_eq_snoc by (auto; blast)
      moreover have "x \<in> {a @ b |a b. a \<in> set combos \<and> b \<in> declared_facts schema (f # fs)} \<longleftrightarrow>
        (\<exists>a v b. a \<in> set combos \<and> v \<in> set ?vs \<and> b \<in> declared_facts schema fs \<and> x = a @ (f, v) # b)" for x
        using False unfolding declared_facts_simps by (auto split: if_splits)
      ultimately show ?thesis by (intro set_eqI) (simp only:)
    qed
  next
    case 2
    show ?case
    proof (cases "is_type (map_of schema f) ''number''")
      case True
      with "2.IH"(2) [OF True] 2 show ?thesis by simp
    next
      case False
      with 2 have ok: "\<not> (?vs = [] \<or> MAX_DISPLAY_ROWS < length combos * length ?vs)" "combinations schema fs ?next = Some cs"
        by (auto simp: Let_def split: if_splits)
      have "length ?next = length combos * length ?vs" by (induction combos) auto
      with "2.IH"(4) [OF False refl ok(1) _ ok(2)] ok(1) show ?thesis by simp
    qed
  }
qed (auto simp: declared_facts_simps)

section \<open>Rows\<close>

definition row_ok :: "task_tier \<Rightarrow> bool" where
  "row_ok r \<longleftrightarrow> usable_price (kt_constant r) \<and> kt_unitPrices r \<noteq> [] \<and> list_all is_finite (map snd (kt_unitPrices r))"

lemma row_of_ok: "row_of schema found facts' b = Some r \<Longrightarrow> branch_usable b \<Longrightarrow> row_ok r"
  by (auto simp: row_of_def row_ok_def branch_usable_def Let_def split: option.splits if_splits)

lemma those_all: "those (map f xs) = Some ys \<Longrightarrow> \<forall>x \<in> set xs. \<forall>y. f x = Some y \<longrightarrow> P y \<Longrightarrow> \<forall>y \<in> set ys. P y"
  by (induction xs arbitrary: ys) (auto split: option.splits)

lemma those_length: "those (map f xs) = Some ys \<Longrightarrow> length ys = length xs"
  by (induction xs arbitrary: ys) (auto split: option.splits)

lemma collect_tiers_ok:
  assumes "collect_tiers src schema found n combos remaining rows = Some out" "literals_satisfy is_finite n"
    "length rows \<le> MAX_DISPLAY_ROWS" "\<forall>r \<in> set rows. row_ok r"
  shows "length out \<le> MAX_DISPLAY_ROWS \<and> (\<forall>r \<in> set out. row_ok r)"
  using assms
proof (induction src schema found n combos remaining rows rule: collect_tiers.induct)
  case (2 src schema found n facts' others remaining rows)
  let ?dc = "\<lparr>dc_source = src, dc_schema = schema, dc_facts = facts'\<rparr>"
  from "2.prems"(1) obtain bs rest new where b: "taskPriceBranches ?dc n remaining = (Some bs, rest)"
    "length rows + length bs \<le> MAX_DISPLAY_ROWS" "those (map (row_of schema found facts') bs) = Some new"
    "collect_tiers src schema found n others rest (rows @ new) = Some out"
    by (auto split: prod.splits option.splits if_splits)
  have "\<forall>x \<in> set bs. \<forall>r. row_of schema found facts' x = Some r \<longrightarrow> row_ok r"
    using branches_usable [OF b(1) "2.prems"(2)] row_of_ok by fast
  from those_all [OF b(3) this] have "\<forall>r \<in> set new. row_ok r" .
  moreover have "length (rows @ new) \<le> MAX_DISPLAY_ROWS" using those_length [OF b(3)] b(2) by simp
  ultimately show ?case using "2.IH" [OF b(1) [symmetric] refl _ b(3,4) "2.prems"(2)] b(2) "2.prems"(4) by auto
qed auto

theorem task_rows_ok:
  assumes "task_rows src schema n = Inr (Some rows)" "literals_satisfy is_finite n"
  shows "length rows \<le> MAX_DISPLAY_ROWS \<and> (\<forall>r \<in> set rows. row_ok r)"
  using assms collect_tiers_ok by (auto simp: task_rows_def rbind_eq_Inr split: if_splits option.splits)

end
