(* ===== verification/JsRegExp.thy ===== *)
theory JsRegExp
  imports Prelude
begin

text \<open>
  Regular expressions of the language, as far as the sources use them.  \<open>matches\<close> returns
  every way to match a pattern at the start of a text, in the order in which the backtracking
  matcher tries them: quantifiers are greedy and the left alternative comes first.  The match
  that the language returns is the first of the list.  A capture holds the text that its
  group matched; a group that took no part has no capture.
\<close>

section \<open>Patterns and the matcher\<close>

datatype regex =
    R_text jsstring
  | R_class "code_unit \<Rightarrow> bool"
  | R_cat regex regex
  | R_alt regex regex
  | R_opt regex
  | R_many regex
  | R_group nat regex
  | R_backref nat
  | R_end

type_synonym captures = "(nat \<times> jsstring) list"

text \<open>An iteration of a quantifier that matches the empty text is not repeated.\<close>

function (sequential) matches :: "regex \<Rightarrow> jsstring \<Rightarrow> captures \<Rightarrow> (jsstring \<times> captures) list" where
  "matches (R_text w) s c = (if starts_with s w then [(drop (length w) s, c)] else [])"
| "matches (R_class P) s c = (case s of x # t \<Rightarrow> if P x then [(t, c)] else [] | [] \<Rightarrow> [])"
| "matches (R_cat a b) s c = concat (map (\<lambda>(t, d). matches b t d) (matches a s c))"
| "matches (R_alt a b) s c = matches a s c @ matches b s c"
| "matches (R_opt a) s c = matches a s c @ [(s, c)]"
| "matches (R_many a) s c =
     concat (map (\<lambda>(t, d). if length t < length s then matches (R_many a) t d else []) (matches a s c)) @ [(s, c)]"
| "matches (R_group n a) s c = map (\<lambda>(t, d). (t, (n, take (length s - length t) s) # d)) (matches a s c)"
| "matches (R_backref n) s c =
     (let w = (case map_of c n of Some w \<Rightarrow> w | None \<Rightarrow> []) in
      if starts_with s w then [(drop (length w) s, c)] else [])"
| "matches R_end s c = (if s = [] then [(s, c)] else [])"
  by pat_completeness auto
termination
  by (relation "measures [\<lambda>(r, s, c). size r, \<lambda>(r, s, c). length s]") auto

lemmas matches_many = matches.simps(6)

declare matches.simps(6) [simp del]

definition R_plus :: "regex \<Rightarrow> regex" where
  "R_plus r = R_cat r (R_many r)"

fun R_seq :: "regex list \<Rightarrow> regex" where
  "R_seq [] = R_text []"
| "R_seq [r] = r"
| "R_seq (r # r' # rs) = R_cat r (R_seq (r' # rs))"

fun R_any :: "regex list \<Rightarrow> regex" where
  "R_any [] = R_class (\<lambda>_. False)"
| "R_any [r] = r"
| "R_any (r # r' # rs) = R_alt r (R_any (r' # rs))"

abbreviation R_space :: regex where
  "R_space \<equiv> R_many (R_class is_space)"

text \<open>\<open>exec\<close> of a pattern anchored at the start, as its captures.\<close>

definition exec :: "regex \<Rightarrow> jsstring \<Rightarrow> captures option" where
  "exec r s = (case matches r s [] of [] \<Rightarrow> None | (_, c) # _ \<Rightarrow> Some c)"

definition capture :: "captures \<Rightarrow> nat \<Rightarrow> jsstring" where
  "capture c n = (case map_of c n of Some w \<Rightarrow> w | None \<Rightarrow> [])"

text \<open>\<open>replaceAll\<close> of a pattern that matches no empty text.\<close>

function replace_all :: "regex \<Rightarrow> jsstring \<Rightarrow> jsstring \<Rightarrow> jsstring" where
  "replace_all r w [] = []"
| "replace_all r w (x # s) =
     (case matches r (x # s) [] of
        (t, _) # _ \<Rightarrow> if length t < length (x # s) then w @ replace_all r w t else x # replace_all r w s
      | [] \<Rightarrow> x # replace_all r w s)"
  by pat_completeness auto
termination
  by (relation "measure (\<lambda>(r, w, s). length s)") auto

section \<open>Maximal runs\<close>

text \<open>
  A run of a class, followed by a pattern that cannot start with a member of the class, has
  one way to match: the run is the longest one.
\<close>

definition rejects :: "(code_unit \<Rightarrow> bool) \<Rightarrow> regex \<Rightarrow> bool" where
  "rejects P r \<longleftrightarrow> (\<forall>x s c. P x \<longrightarrow> matches r (x # s) c = [])"

lemma rejects_text [simp]: "\<not> P y \<Longrightarrow> rejects P (R_text (y # w))"
  by (auto simp: rejects_def)

lemma rejects_end [simp]: "rejects P R_end"
  by (simp add: rejects_def)

lemma rejects_cat [simp]: "rejects P a \<Longrightarrow> rejects P (R_cat a b)"
  by (simp add: rejects_def)

lemma rejects_alt [simp]: "rejects P (R_alt a b) \<longleftrightarrow> rejects P a \<and> rejects P b"
  by (auto simp: rejects_def)

lemma rejects_group [simp]: "rejects P (R_group n a) \<longleftrightarrow> rejects P a"
  by (simp add: rejects_def)

lemma matches_many_class:
  "matches (R_many (R_class P)) s c = map (\<lambda>k. (drop k s, c)) (rev [0..<Suc (length (takeWhile P s))])"
proof (induction s)
  case (Cons x s)
  have "map (\<lambda>k. (drop k (x # s), c)) (rev [0..<Suc (Suc n)]) = map (\<lambda>k. (drop k s, c)) (rev [0..<Suc n]) @ [(x # s, c)]" for n
  proof -
    have "[0..<Suc (Suc n)] = 0 # map Suc [0..<Suc n]" by (simp add: map_Suc_upt upt_conv_Cons del: upt_Suc)
    then show ?thesis by (simp add: rev_map comp_def del: upt_Suc)
  qed
  then show ?case
    by (cases "P x") (simp_all add: matches_many [of _ "x # s"] Cons.IH upt_rec [of 0 "Suc 0"] del: upt_Suc)
qed (simp add: matches_many)

lemma rejected_drop:
  assumes "rejects P b" "k < length (takeWhile P s)"
  shows "matches b (drop k s) c = []"
proof -
  have k: "k < length s" using assms(2) length_takeWhile_le [of P s] by linarith
  have "P (s ! k)" using assms(2) by (metis nth_mem set_takeWhileD takeWhile_nth)
  then show ?thesis using assms(1) k by (simp add: rejects_def flip: Cons_nth_drop_Suc)
qed

lemma concat_rejected:
  assumes "rejects P b" "j \<le> length (takeWhile P s)"
  shows "concat (map (\<lambda>k. matches b (drop k s) (f k)) (rev [j..<Suc (length (takeWhile P s))])) =
    matches b (dropWhile P s) (f (length (takeWhile P s)))"
proof -
  let ?n = "length (takeWhile P s)"
  have "concat (map (\<lambda>k. matches b (drop k s) (f k)) (rev [j..<?n])) = []"
    using rejected_drop [OF assms(1)] by simp
  then show ?thesis using assms(2) by (simp add: dropWhile_eq_drop)
qed

lemma matches_run:
  assumes "rejects P b"
  shows "matches (R_cat (R_many (R_class P)) b) s c = matches b (dropWhile P s) c"
  using concat_rejected [OF assms, of 0 s "\<lambda>_. c"]
  by (simp add: matches_many_class comp_def del: upt_Suc)

lemma matches_plus_class:
  "matches (R_plus (R_class P)) s c = map (\<lambda>k. (drop k s, c)) (rev [1..<Suc (length (takeWhile P s))])"
proof (cases s)
  case (Cons x t)
  have "map (\<lambda>k. (drop k t, c)) (rev [0..<Suc n]) = map (\<lambda>k. (drop k (x # t), c)) (rev [1..<Suc (Suc n)])" for n
  proof -
    have "[1..<Suc (Suc n)] = map Suc [0..<Suc n]" by (simp add: map_Suc_upt del: upt_Suc)
    then show ?thesis by (simp add: rev_map comp_def del: upt_Suc)
  qed
  then show ?thesis by (simp add: R_plus_def Cons matches_many_class del: upt_Suc)
qed (simp add: R_plus_def)

lemma matches_group_run:
  assumes "rejects P b"
  shows "matches (R_cat (R_group n (R_plus (R_class P))) b) s c =
    (if takeWhile P s = [] then [] else matches b (dropWhile P s) ((n, takeWhile P s) # c))"
proof (cases "takeWhile P s = []")
  case True
  then show ?thesis by (simp add: matches_plus_class)
next
  case False
  let ?n = "length (takeWhile P s)" and ?f = "\<lambda>k. (n, take (length s - (length s - k)) s) # c"
  have "length s - (length s - ?n) = ?n" using length_takeWhile_le [of P s] by simp
  then have "?f ?n = (n, takeWhile P s) # c" by (simp add: takeWhile_eq_take [symmetric])
  moreover have "1 \<le> ?n" using False by (simp add: Suc_leI)
  ultimately show ?thesis
    using False concat_rejected [OF assms, of 1 s ?f] by (simp add: matches_plus_class comp_def del: upt_Suc)
qed

lemma starts_with_append [simp]: "starts_with (w @ s) w"
  by (simp add: starts_with_iff)

lemma starts_with_different [simp]: "x \<noteq> y \<Longrightarrow> \<not> starts_with (x # s) (y # w)"
  by simp

section \<open>Lengths\<close>

lemma matches_length: "p \<in> set (matches r s c) \<Longrightarrow> length (fst p) \<le> length s"
proof (induction r s c arbitrary: p rule: matches.induct)
  case (3 a b s c)
  then obtain t d where t: "(t, d) \<in> set (matches a s c)" "p \<in> set (matches b t d)" by auto
  from "3.IH"(1) [OF t(1)] "3.IH"(2) [OF t(1) refl t(2)] show ?case by simp
next
  case (6 a s c)
  show ?case
  proof (cases "p = (s, c)")
    case False
    with "6.prems" obtain t d where t: "(t, d) \<in> set (matches a s c)" "length t < length s" "p \<in> set (matches (R_many a) t d)"
      by (auto simp: matches_many [of a s] split: if_splits)
    from "6.IH"(2) [OF t(1) refl t(2) t(3)] t(2) show ?thesis by simp
  qed simp
next
  case (2 P s c)
  then show ?case by (cases s) (auto split: if_splits)
next
  case (7 n a s c)
  then show ?case by auto
qed (auto split: if_splits simp: Let_def)

lemma matches_catE:
  assumes "p \<in> set (matches (R_cat a b) s c)"
  obtains t d where "(t, d) \<in> set (matches a s c)" "p \<in> set (matches b t d)"
  using assms by auto

end
