(* ===== verification/JsJson.thy ===== *)
theory JsJson
  imports JsValue Memo JsRegExp
begin

text \<open>
  \<open>JSON.stringify\<close> of a string, \<open>JSON.parse\<close>, and \<open>String\<close> of a parsed value.  Parsing
  returns \<open>None\<close> where the library throws.  The result of every part of the parser is
  shorter than its input, which the guards of the recursion say; \<open>json_rest\<close> shows that
  they never fail.
\<close>

section \<open>\<open>JSON.stringify\<close> of a string\<close>

definition hex_digit :: "nat \<Rightarrow> code_unit" where
  "hex_digit d = (if d < 10 then 48 + d else 87 + d)"

definition unicode_escape :: "code_unit \<Rightarrow> jsstring" where
  "unicode_escape c = [92, 117] @ map hex_digit [c div 4096 mod 16, c div 256 mod 16, c div 16 mod 16, c mod 16]"

definition is_high :: "code_unit \<Rightarrow> bool" where
  "is_high c \<longleftrightarrow> 55296 \<le> c \<and> c \<le> 56319"

definition is_low :: "code_unit \<Rightarrow> bool" where
  "is_low c \<longleftrightarrow> 56320 \<le> c \<and> c \<le> 57343"

definition short_escapes :: "(code_unit \<times> code_unit) list" where
  "short_escapes = [(8, 98), (9, 116), (10, 110), (12, 102), (13, 114), (34, 34), (92, 92)]"

definition json_unit :: "code_unit \<Rightarrow> jsstring" where
  "json_unit c =
     (case map_of short_escapes c of
        Some e \<Rightarrow> [92, e]
      | None \<Rightarrow> if c < 32 then unicode_escape c else [c])"

fun json_body :: "jsstring \<Rightarrow> jsstring" where
  "json_body [] = []"
| "json_body (c # s) =
     (if is_high c then
        (case s of
           d # s' \<Rightarrow> if is_low d then c # d # json_body s' else unicode_escape c @ json_body s
         | [] \<Rightarrow> unicode_escape c)
      else if is_low c then unicode_escape c @ json_body s
      else json_unit c @ json_body s)"

definition json_stringify :: "jsstring \<Rightarrow> jsstring" where
  "json_stringify s = [34] @ json_body s @ [34]"

section \<open>\<open>JSON.parse\<close>\<close>

definition json_space :: "code_unit \<Rightarrow> bool" where
  "json_space c \<longleftrightarrow> c = 9 \<or> c = 10 \<or> c = 13 \<or> c = 32"

definition skip_json :: "jsstring \<Rightarrow> jsstring" where
  "skip_json s = dropWhile json_space s"

definition json_escapes :: "(code_unit \<times> code_unit) list" where
  "json_escapes = [(34, 34), (92, 92), (47, 47), (98, 8), (102, 12), (110, 10), (114, 13), (116, 9)]"

text \<open>A string after its opening quote, and the text after its closing quote.\<close>

function (sequential) json_chars :: "jsstring \<Rightarrow> (jsstring \<times> jsstring) option" where
  "json_chars [] = None"
| "json_chars (c # r) =
     (if c = 34 then Some ([], r)
      else if c < 32 then None
      else if c \<noteq> 92 then map_option (\<lambda>(w, t). (c # w, t)) (json_chars r)
      else
        case r of
          [] \<Rightarrow> None
        | e # r' \<Rightarrow>
            if e = 117 then
              if 4 \<le> length r' \<and> list_all is_hex (take 4 r')
              then map_option (\<lambda>(w, t). (parse_hex (take 4 r') # w, t)) (json_chars (drop 4 r'))
              else None
            else
              case map_of json_escapes e of
                None \<Rightarrow> None
              | Some d \<Rightarrow> map_option (\<lambda>(w, t). (d # w, t)) (json_chars r'))"
  by pat_completeness auto
termination
  by (relation "measure length") auto

declare json_chars.simps(2) [simp del]

definition json_number_pattern :: regex where
  "json_number_pattern =
     R_seq [R_opt (R_text (js ''-'')),
            R_alt (R_text (js ''0'')) (R_cat (R_class (\<lambda>c. 49 \<le> c \<and> c \<le> 57)) (R_many (R_class is_digit))),
            R_opt (R_cat (R_text (js ''.'')) (R_plus (R_class is_digit))),
            R_opt (R_seq [R_class (\<lambda>c. c = 69 \<or> c = 101), R_opt (R_class (\<lambda>c. c = 43 \<or> c = 45)), R_plus (R_class is_digit)])]"

definition json_keywords :: "(jsstring \<times> json) list" where
  "json_keywords = [(js ''null'', J_null), (js ''true'', J_bool True), (js ''false'', J_bool False)]"

definition json_scalar :: "jsstring \<Rightarrow> (json \<times> jsstring) option" where
  "json_scalar s =
     (case find (\<lambda>(w, _). starts_with s w) json_keywords of
        Some (w, v) \<Rightarrow> Some (v, drop (length w) s)
      | None \<Rightarrow>
          (case matches json_number_pattern s [] of
             (t, _) # _ \<Rightarrow> Some (J_number (js_Number (take (length s - length t) s)), t)
           | [] \<Rightarrow> None))"

lemma skip_json_less: "skip_json s = c # r \<Longrightarrow> length r < length s"
  using length_dropWhile_le [of json_space s] by (simp add: skip_json_def)

function json_value :: "jsstring \<Rightarrow> (json \<times> jsstring) option"
  and json_elements :: "jsstring \<Rightarrow> json list \<Rightarrow> (json \<times> jsstring) option"
  and json_members :: "jsstring \<Rightarrow> (jsstring \<times> json) list \<Rightarrow> (json \<times> jsstring) option" where
  "json_value s =
     (case skip_json s of
        [] \<Rightarrow> None
      | c # r \<Rightarrow>
          if c = 34 then map_option (\<lambda>(w, t). (J_string w, t)) (json_chars r)
          else if c = 91 then
            (case skip_json r of
               [] \<Rightarrow> None
             | d # r' \<Rightarrow> if d = 93 then Some (J_array [], r') else json_elements r [])
          else if c = 123 then
            (case skip_json r of
               [] \<Rightarrow> None
             | d # r' \<Rightarrow> if d = 125 then Some (J_object [], r') else json_members r [])
          else json_scalar (c # r))"
| "json_elements s vs =
     (case json_value s of
        None \<Rightarrow> None
      | Some (v, t) \<Rightarrow>
          (case skip_json t of
             [] \<Rightarrow> None
           | d # r \<Rightarrow>
               if d = 93 then Some (J_array (vs @ [v]), r)
               else if d = 44 \<and> length r < length s then json_elements r (vs @ [v])
               else None))"
| "json_members s fs =
     (case skip_json s of
        [] \<Rightarrow> None
      | c # r \<Rightarrow>
          if c \<noteq> 34 then None
          else
            case json_chars r of
              None \<Rightarrow> None
            | Some (k, t) \<Rightarrow>
                (case skip_json t of
                   [] \<Rightarrow> None
                 | d # u \<Rightarrow>
                     if d \<noteq> 58 \<or> length s \<le> length u then None
                     else
                       case json_value u of
                         None \<Rightarrow> None
                       | Some (v, x) \<Rightarrow>
                           (case skip_json x of
                              [] \<Rightarrow> None
                            | e # y \<Rightarrow>
                                if e = 125 then Some (J_object (om_set k v fs), y)
                                else if e = 44 \<and> length y < length s then json_members y (om_set k v fs)
                                else None)))"
  by pat_completeness auto
termination
  by (relation "measure (case_sum (\<lambda>s. 2 * length s) (case_sum (\<lambda>(s, _). 2 * length s + 1) (\<lambda>(s, _). 2 * length s + 1)))")
    (auto dest: skip_json_less)

declare json_value.simps [simp del] json_elements.simps [simp del] json_members.simps [simp del]

definition json_parse :: "jsstring \<Rightarrow> json option" where
  "json_parse s =
     (case json_value s of
        Some (v, t) \<Rightarrow> if skip_json t = [] then Some v else None
      | None \<Rightarrow> None)"

text \<open>\<open>String\<close> of a value; the elements of an array are joined by commas, empty ones as nothing.\<close>

fun js_String_json :: "json \<Rightarrow> jsstring" where
  "js_String_json J_undefined = js ''undefined''"
| "js_String_json J_null = js ''null''"
| "js_String_json (J_bool b) = (if b then js ''true'' else js ''false'')"
| "js_String_json (J_number x) = js_String x"
| "js_String_json (J_string s) = s"
| "js_String_json (J_array vs) = join (js '','') (map (\<lambda>v. if is_nullish v then [] else js_String_json v) vs)"
| "js_String_json (J_object fs) = js ''[object Object]''"

section \<open>Every part consumes its input\<close>

lemma json_chars_length: "json_chars s = Some p \<Longrightarrow> length (snd p) < length s"
proof (induction s arbitrary: p rule: json_chars.induct)
  case (2 c r)
  consider "c = 34" | "c \<noteq> 34" "\<not> c < 32" "c \<noteq> 92" | e r' where "c = 92" "r = e # r'" 
    using "2.prems" by (cases r) (auto simp: json_chars.simps(2) split: if_splits)
  then show ?case
  proof cases
    case 1
    with "2.prems" show ?thesis by (auto simp: json_chars.simps(2))
  next
    case 2
    with "2.prems" obtain q where "json_chars r = Some q" "snd p = snd q" by (auto simp: json_chars.simps(2))
    with "2.IH"(1) [OF 2] show ?thesis by simp
  next
    case (3 e r')
    show ?thesis
    proof (cases "e = 117")
      case True
      with 3 "2.prems" obtain q where q: "4 \<le> length r' \<and> list_all is_hex (take 4 r')" "json_chars (drop 4 r') = Some q" "snd p = snd q"
        by (auto simp: json_chars.simps(2) split: if_splits)
      with "2.IH"(2) [of e r' q] 3 True show ?thesis by simp
    next
      case False
      with 3 "2.prems" obtain d q where q: "map_of json_escapes e = Some d" "json_chars r' = Some q" "snd p = snd q"
        by (auto simp: json_chars.simps(2) split: option.splits)
      with "2.IH"(3) [of e r' d q] 3 False show ?thesis by simp
    qed
  qed
qed simp

lemma number_text_length:
  assumes "p \<in> set (matches json_number_pattern s [])"
  shows "length (fst p) < length s"
proof -
  let ?a = "R_opt (R_text (js ''-''))" and ?b = "R_alt (R_text (js ''0'')) (R_cat (R_class (\<lambda>c. 49 \<le> c \<and> c \<le> 57)) (R_many (R_class is_digit)))"
  obtain c where pat: "json_number_pattern = R_cat ?a (R_cat ?b c)" by (simp add: json_number_pattern_def)
  from assms obtain s1 d1 where m1: "(s1, d1) \<in> set (matches ?a s [])" and "p \<in> set (matches (R_cat ?b c) s1 d1)"
    unfolding pat by (rule matches_catE)
  then obtain s2 d2 where m2: "(s2, d2) \<in> set (matches ?b s1 d1)" and m3: "p \<in> set (matches c s2 d2)"
    by (elim matches_catE)
  have "length s2 < length s1"
  proof (cases s1)
    case Nil
    with m2 show ?thesis by (simp add: js_def)
  next
    case (Cons x t)
    with m2 consider "s2 = t" | "(s2, d2) \<in> set (matches (R_many (R_class is_digit)) t d1)"
      by (auto simp: js_def split: if_splits)
    then show ?thesis using Cons by cases (auto dest: matches_length)
  qed
  with matches_length [OF m1] matches_length [OF m3] show ?thesis by simp
qed

lemma json_scalar_length: "json_scalar s = Some p \<Longrightarrow> length (snd p) < length s"
proof (cases "find (\<lambda>(w, _). starts_with s w) json_keywords")
  case None
  assume "json_scalar s = Some p"
  with None show ?thesis using number_text_length [of "hd (matches json_number_pattern s [])" s]
    by (auto simp: json_scalar_def split: list.splits)
next
  case (Some q)
  assume "json_scalar s = Some p"
  moreover from Some have "starts_with s (fst q)" "fst q \<noteq> []"
    by (auto simp: json_keywords_def split: if_splits)
  ultimately show ?thesis using Some by (cases q) (auto simp: json_scalar_def starts_with_iff intro!: diff_less dest: prefix_length_le)
qed

lemma json_value_cases:
  "json_value s = Some p \<Longrightarrow> \<exists>c r. skip_json s = c # r \<and> ((\<exists>q. json_chars r = Some q \<and> snd p = snd q) \<or>
     (\<exists>d. skip_json r = d # snd p) \<or> json_elements r [] = Some p \<or> json_members r [] = Some p \<or> json_scalar (c # r) = Some p)"
  by (subst (asm) json_value.simps) (force split: list.splits if_splits)

lemma json_elements_cases:
  "json_elements s vs = Some p \<Longrightarrow> \<exists>v t d r. json_value s = Some (v, t) \<and> skip_json t = d # r \<and>
     (snd p = r \<or> length r < length s \<and> json_elements r (vs @ [v]) = Some p)"
  by (subst (asm) json_elements.simps) (auto split: option.splits list.splits if_splits)

lemma json_members_cases:
  "json_members s fs = Some p \<Longrightarrow> \<exists>c r k t d u v x e y. skip_json s = c # r \<and> json_chars r = Some (k, t) \<and> skip_json t = d # u \<and>
     length u < length s \<and> json_value u = Some (v, x) \<and> skip_json x = e # y \<and>
     (snd p = y \<or> length y < length s \<and> json_members y (om_set k v fs) = Some p)"
  by (subst (asm) json_members.simps) (auto split: option.splits list.splits if_splits simp: not_le)

text \<open>The guards on the length of the rest never fail.\<close>

lemma json_rest:
  shows "json_value s = Some p \<Longrightarrow> length (snd p) < length s"
    and "json_elements s vs = Some p \<Longrightarrow> length (snd p) < length s"
    and "json_members s fs = Some p \<Longrightarrow> length (snd p) < length s"
proof (induction "length s" arbitrary: s p vs fs rule: less_induct)
  case less
  have v: "length (snd q) < length s" if "json_value s = Some q" for q
  proof -
    from json_value_cases [OF that] obtain c r where r: "skip_json s = c # r"
      and alt: "(\<exists>q'. json_chars r = Some q' \<and> snd q = snd q') \<or> (\<exists>d. skip_json r = d # snd q) \<or>
        json_elements r [] = Some q \<or> json_members r [] = Some q \<or> json_scalar (c # r) = Some q" by blast
    note lr = skip_json_less [OF r]
    have "length (snd q) \<le> length r"
      using alt less.hyps(2,3) [OF lr] json_chars_length skip_json_less json_scalar_length [of "c # r" q]
      by (metis less_imp_le less_Suc_eq_le length_Cons)
    with lr show ?thesis by simp
  qed
  { case 1 then show ?case by (rule v) }
  { case 2
    from json_elements_cases [OF this] obtain v' t d r where t: "json_value s = Some (v', t)" "skip_json t = d # r"
      and alt: "snd p = r \<or> length r < length s \<and> json_elements r (vs @ [v']) = Some p" by blast
    with v [OF t(1)] skip_json_less [OF t(2)] less.hyps(2) [of r "vs @ [v']" p] show ?case by auto }
  { case 3
    from json_members_cases [OF this] obtain k v' u x e y where u: "length u < length s" "json_value u = Some (v', x)" "skip_json x = e # y"
      and alt: "snd p = y \<or> length y < length s \<and> json_members y (om_set k v' fs) = Some p" by blast
    with less.hyps(1) [OF u(1,2)] skip_json_less [OF u(3)] less.hyps(3) [of y "om_set k v' fs" p] show ?case by auto }
qed
section \<open>A string survives printing and parsing\<close>

definition code_units :: "jsstring \<Rightarrow> bool" where
  "code_units s \<longleftrightarrow> (\<forall>c \<in> set s. c < 65536)"

lemma hex_digit_value: "d < 16 \<Longrightarrow> is_hex (hex_digit d) \<and> hex_value (hex_digit d) = d"
  by (auto simp: hex_digit_def is_hex_def is_digit_def hex_value_def)

lemma hex_parts: "c < 65536 \<Longrightarrow> ((c div 4096 mod 16 * 16 + c div 256 mod 16) * 16 + c div 16 mod 16) * 16 + c mod 16 = (c::nat)"
proof -
  assume "c < 65536"
  then have "c div 4096 mod 16 = c div 256 div 16" by (simp flip: div_mult2_eq)
  moreover have "c div 256 = c div 16 div 16" by (simp flip: div_mult2_eq)
  ultimately show ?thesis by (simp only: div_mult_mod_eq)
qed

lemma json_chars_unicode:
  assumes "c < 65536"
  shows "json_chars (unicode_escape c @ s) = map_option (\<lambda>(w, t). (c # w, t)) (json_chars s)"
proof -
  let ?ds = "[c div 4096 mod 16, c div 256 mod 16, c div 16 mod 16, c mod 16]"
  have hex: "list_all is_hex (map hex_digit ?ds)" by (simp add: hex_digit_value)
  have "parse_hex (map hex_digit ?ds) = c"
    using hex_parts [OF assms] assms by (simp add: parse_hex_def hex_digit_value algebra_simps)
  with hex show ?thesis by (simp add: unicode_escape_def json_chars.simps(2))
qed

lemma json_chars_unit:
  assumes "c < 65536"
  shows "json_chars (json_unit c @ s) = map_option (\<lambda>(w, t). (c # w, t)) (json_chars s)"
proof (cases "map_of short_escapes c")
  case None
  then have "c \<noteq> 34" "c \<noteq> 92" by (auto simp: short_escapes_def split: if_splits)
  with None json_chars_unicode [OF assms] show ?thesis by (simp add: json_unit_def json_chars.simps(2))
next
  case (Some e)
  then have "map_of json_escapes e = Some c \<and> e \<noteq> 117" by (auto simp: short_escapes_def json_escapes_def split: if_splits)
  with Some show ?thesis by (simp add: json_unit_def json_chars.simps(2))
qed

lemma json_chars_plain:
  assumes "32 \<le> c" "c \<noteq> 34" "c \<noteq> 92"
  shows "json_chars (c # s) = map_option (\<lambda>(w, t). (c # w, t)) (json_chars s)"
  using assms by (simp add: json_chars.simps(2))

lemma surrogate_plain: "is_high c \<or> is_low c \<Longrightarrow> 32 \<le> c \<and> c \<noteq> 34 \<and> c \<noteq> 92"
  by (auto simp: is_high_def is_low_def)

theorem json_chars_body: "code_units s \<Longrightarrow> json_chars (json_body s @ 34 # t) = Some (s, t)"
proof (induction s rule: json_body.induct)
  case 1
  then show ?case by (simp add: json_chars.simps(2))
next
  case (2 c s)
  then have c: "c < 65536" and s: "code_units s" by (auto simp: code_units_def)
  note unfold = json_chars_unicode [OF c] json_chars_unit [OF c]
  consider (pair) d s' where "is_high c" "s = d # s'" "is_low d"
    | (lone) "is_high c" "\<And>d s'. s = d # s' \<Longrightarrow> \<not> is_low d" | (low) "\<not> is_high c" "is_low c" | (other) "\<not> is_high c" "\<not> is_low c"
    by (cases s) auto
  then show ?case
  proof cases
    case pair
    with s have "code_units s'" by (simp add: code_units_def)
    with "2.IH"(1) [OF pair(1,2,3)] pair surrogate_plain [of c] surrogate_plain [of d]
    show ?thesis by (simp add: json_chars_plain)
  next
    case lone
    then show ?thesis using s "2.IH" unfold by (cases s) (auto simp: json_chars.simps(2))
  next
    case low
    then show ?thesis using s "2.IH" unfold by simp
  next
    case other
    then show ?thesis using s "2.IH" unfold by simp
  qed
qed

theorem json_parse_stringify: "code_units s \<Longrightarrow> json_parse (json_stringify s) = Some (J_string s)"
  using json_chars_body [of s "[]"]
  by (simp add: json_parse_def json_stringify_def json_value.simps skip_json_def json_space_def)

end
