(* ===== verification/Visual.thy ===== *)
theory Visual
  imports Display JsJson
begin

text \<open>
  The visual editor's model of an expression (\<open>billing-expression/visual.ts\<close>): reading a
  compiled expression into editable conditions and tiers, and writing it back by patching
  the original source.  Every part of a document remembers the node it was read from.  The
  issues that writing reports are a list that the functions extend.
\<close>

section \<open>Documents\<close>

datatype visual_condition =
    V_comparison (condition_id: jsstring) (condition_origin: "node option")
      jsstring jsstring jsstring jsstring
  | V_group bool (condition_id: jsstring) (condition_origin: "node option") "visual_condition list"
  | V_not (condition_id: jsstring) (condition_origin: "node option") visual_condition

text \<open>
  A comparison holds its probe, zone, operator and value; the flag of a group tells \<open>all\<close>
  from \<open>any\<close>.
\<close>

record visual_price =
  vp_variable :: jsstring
  vp_value :: jsstring
  vp_origin :: "node option"

datatype visual_pricing =
    V_tier (pricing_id: jsstring) (pricing_origin: "node option") jsstring "visual_price list" billing_unit jsstring
  | V_branch (pricing_id: jsstring) (pricing_origin: "node option") visual_condition visual_pricing visual_pricing

record visual_document =
  doc_source :: jsstring
  doc_root :: visual_pricing

type_synonym issues = "(jsstring \<times> jsstring) list"

datatype serialization = Serialized jsstring | Issues issues

definition TIME_DOMAINS :: "(jsstring \<times> int \<times> int) list" where
  "TIME_DOMAINS = [(js ''hour'', 0, 23), (js ''minute'', 0, 59), (js ''weekday'', 0, 6), (js ''month'', 1, 12), (js ''day'', 1, 31)]"

text \<open>The counter of fresh identifiers is the state of \<open>visualNodeId\<close>.\<close>

definition visualNodeId :: "nat \<Rightarrow> jsstring \<times> nat" where
  "visualNodeId nextId = (js ''draft-'' @ dec_string (Suc nextId), Suc nextId)"

definition createEmptyVisualCondition :: "nat \<Rightarrow> visual_condition \<times> nat" where
  "createEmptyVisualCondition nextId =
     (let (i, nextId') = visualNodeId nextId
      in (V_comparison i None (js ''hour'') (js ''Asia/Shanghai'') (js ''>='') [], nextId'))"

section \<open>Reading\<close>

definition span_id :: "string \<Rightarrow> node \<Rightarrow> jsstring" where
  "span_id prefix' n = js prefix' @ dec_string (node_start n) @ js ''-'' @ dec_string (node_end n)"

fun read_probe :: "node \<Rightarrow> (jsstring \<times> jsstring) option" where
  "read_probe (Variable x _ _) = (if x \<in> set [js ''p'', js ''c'', js ''len''] then Some (x, []) else None)"
| "read_probe (Call f (Literal (StringLit zone) _ _ _ # _) _ _) =
     (if f \<in> set TIME_FUNCTIONS then Some (f, zone) else None)"
| "read_probe _ = None"

fun read_comparison :: "node \<Rightarrow> visual_condition option" where
  "read_comparison (Binary op l (Literal (NumberLit k) b i' j') i j) =
     (if op \<notin> set comparison_operators then None
      else map_option (\<lambda>(probe, zone).
             V_comparison (span_id ''condition-'' (Binary op l (Literal (NumberLit k) b i' j') i j))
               (Some (Binary op l (Literal (NumberLit k) b i' j') i j)) probe zone op (js_String k))
           (read_probe l))"
| "read_comparison _ = None"

lemma flatten_count: "p \<in> set (flattenBinary n op) \<Longrightarrow> node_count p \<le> node_count n"
  by (induction n op rule: flattenBinary.induct) (auto split: if_splits)

function readVisualCondition :: "node \<Rightarrow> visual_condition option" where
  "readVisualCondition (Unary op x i j) =
     (if op \<noteq> js ''!'' then None
      else map_option (V_not (span_id ''condition-'' (Unary op x i j)) (Some (Unary op x i j))) (readVisualCondition x))"
| "readVisualCondition (Binary op l r i j) =
     (if op \<in> set logical_operators then
        map_option (V_group (op = js ''&&'') (span_id ''condition-'' (Binary op l r i j)) (Some (Binary op l r i j)))
          (those (map readVisualCondition (flattenBinary l op @ flattenBinary r op)))
      else read_comparison (Binary op l r i j))"
| "readVisualCondition (Literal v b i j) = None"
| "readVisualCondition (Variable x i j) = None"
| "readVisualCondition (Call f as i j) = None"
| "readVisualCondition (Conditional c y n i j) = None"
  by pat_completeness auto
termination
  by (relation "measure node_count") (auto dest: flatten_count simp: le_imp_less_Suc trans_le_add1 trans_le_add2)

text \<open>\<open>String\<close> of the value of a literal.\<close>

fun js_String_literal :: "literal \<Rightarrow> jsstring" where
  "js_String_literal (StringLit s) = s"
| "js_String_literal (NumberLit k) = js_String k"
| "js_String_literal (BoolLit b) = js_String_bool b"
| "js_String_literal NilLit = js ''null''"

fun fixed_argument :: "node \<Rightarrow> (literal \<times> node) option" where
  "fixed_argument (Call f (Literal v b i j # _) _ _) =
     (if f = js ''fixed'' then Some (v, Literal v b i j) else None)"
| "fixed_argument _ = None"

fun read_price :: "node \<Rightarrow> visual_price option" where
  "read_price (Binary op (Variable x i j) (Literal (NumberLit k) b i' j') s e) =
     (if op \<noteq> js ''*'' \<or> x = js ''len'' \<or> x = js ''image_count'' \<or> js_less k zero_num then None
      else Some \<lparr>vp_variable = x, vp_value = js_String k,
                 vp_origin = Some (Binary op (Variable x i j) (Literal (NumberLit k) b i' j') s e)\<rparr>)"
| "read_price _ = None"

fun read_prices :: "node list \<Rightarrow> visual_price list \<Rightarrow> visual_price list option" where
  "read_prices [] prices = Some prices"
| "read_prices (t # ts) prices =
     (case read_price t of
        None \<Rightarrow> None
      | Some p \<Rightarrow>
          if \<exists>q \<in> set prices. vp_variable q = vp_variable p then None else read_prices ts (prices @ [p]))"

fun read_tier :: "node \<Rightarrow> visual_pricing option" where
  "read_tier (Call f (Literal (StringLit label) b i j # body # as) s e) =
     (if f \<noteq> js ''tier'' then None
      else
        let n = Call f (Literal (StringLit label) b i j # body # as) s e; tier = V_tier (span_id ''pricing-'' n) (Some n) label in
        case fixed_argument body of
          Some (v, _) \<Rightarrow> Some (tier [] Unit_request (js_String_literal v))
        | None \<Rightarrow> map_option (\<lambda>prices. tier prices Unit_token []) (read_prices (flattenBinary body (js ''+'')) []))"
| "read_tier _ = None"

fun readVisualPricing :: "node \<Rightarrow> visual_pricing option" where
  "readVisualPricing (Conditional c y no i j) =
     (case (readVisualCondition c, readVisualPricing y, readVisualPricing no) of
        (Some condition, Some yes, Some no') \<Rightarrow>
          Some (V_branch (span_id ''pricing-'' (Conditional c y no i j)) (Some (Conditional c y no i j)) condition yes no')
      | _ \<Rightarrow> None)"
| "readVisualPricing n = read_tier n"

section \<open>Patching the source\<close>

text \<open>\<open>slice\<close> of the standard library, whose negative indices count from the end.\<close>

definition js_index :: "jsstring \<Rightarrow> int \<Rightarrow> nat" where
  "js_index s i = nat (if i < 0 then max (int (length s) + i) 0 else min i (int (length s)))"

definition js_slice :: "jsstring \<Rightarrow> int \<Rightarrow> int \<Rightarrow> jsstring" where
  "js_slice s i j = slice s (js_index s i) (js_index s j)"

type_synonym patch = "node \<times> jsstring"

definition apply_patch :: "node \<Rightarrow> patch \<Rightarrow> jsstring \<Rightarrow> jsstring" where
  "apply_patch origin p result =
     (case p of (n, text') \<Rightarrow>
        js_slice result 0 (int (node_start n) - int (node_start origin)) @ text' @
        js_slice result (int (node_end n) - int (node_start origin)) (int (length result)))"

definition patchSource :: "jsstring \<Rightarrow> node \<Rightarrow> patch list \<Rightarrow> jsstring" where
  "patchSource src origin patches =
     fold (apply_patch origin) (sort_key (\<lambda>p. - int (node_start (fst p))) patches)
       (slice src (node_start origin) (node_end origin))"

definition parseNonNegativeNumber :: "jsstring \<Rightarrow> js_number option" where
  "parseNonNegativeNumber value =
     (case scan_decimal (trim value) of
        Some (_, _, []) \<Rightarrow>
          let number = js_Number value
          in if is_finite number \<and> js_le zero_num number then Some number else None
      | _ \<Rightarrow> None)"

section \<open>Writing\<close>

text \<open>\<open>value === literal\<close> for a parsed number or \<open>null\<close>.\<close>

fun same_value :: "js_number option \<Rightarrow> literal \<Rightarrow> bool" where
  "same_value (Some x) (NumberLit y) = js_eq x y"
| "same_value None NilLit = True"
| "same_value _ _ = False"

definition node_text :: "jsstring \<Rightarrow> node \<Rightarrow> jsstring" where
  "node_text src n = slice src (node_start n) (node_end n)"

text \<open>The original text of a number literal, if it still has the value, or the new text.\<close>

fun value_text :: "jsstring \<Rightarrow> js_number option \<Rightarrow> jsstring \<Rightarrow> node \<Rightarrow> jsstring" where
  "value_text src v text' (Literal l b i j) = (if same_value v l then node_text src (Literal l b i j) else text')"
| "value_text src v text' _ = text'"

definition valid_time_value :: "jsstring \<Rightarrow> jsstring \<Rightarrow> js_number option \<Rightarrow> bool" where
  "valid_time_value probe op v =
     (case map_of TIME_DOMAINS probe of
        None \<Rightarrow> v \<noteq> None
      | Some (lo, hi) \<Rightarrow>
          (case v of
             None \<Rightarrow> False
           | Some x \<Rightarrow> is_integer x \<and> js_le (num lo) x \<and> js_le x (num (hi + (if op = js ''<'' then 1 else 0)))))"

fun original_zone :: "node option \<Rightarrow> literal option" where
  "original_zone (Some (Binary _ (Call _ (Literal v _ _ _ # _) _ _) _ _ _)) = Some v"
| "original_zone _ = None"

definition valid_zone :: "platform \<Rightarrow> jsstring \<Rightarrow> bool" where
  "valid_zone pf zone \<longleftrightarrow> trim zone \<noteq> [] \<and> intl pf (trim zone) \<noteq> None"

text \<open>The issues of a comparison.\<close>

definition comparison_issues :: "platform \<Rightarrow> jsstring \<Rightarrow> node option \<Rightarrow> jsstring \<Rightarrow> jsstring \<Rightarrow> jsstring \<Rightarrow> js_number option \<Rightarrow> issues" where
  "comparison_issues pf i origin probe zone op v =
     (if valid_time_value probe op v then [] else [(i, js ''Enter a valid condition value.'')]) @
     (if probe \<in> set TIME_FUNCTIONS \<and> original_zone origin \<noteq> Some (StringLit zone) \<and> \<not> valid_zone pf zone
      then [(i, js ''Choose a valid IANA timezone.'')] else [])"

fun old_probe_text :: "jsstring \<Rightarrow> node \<Rightarrow> jsstring \<Rightarrow> jsstring \<Rightarrow> jsstring \<Rightarrow> jsstring" where
  "old_probe_text src (Variable x i j) probe zone text' =
     (if x = probe then node_text src (Variable x i j) else text')"
| "old_probe_text src (Call f (Literal v b i' j' # as) i j) probe zone text' =
     (if f = probe \<and> v = StringLit zone then node_text src (Call f (Literal v b i' j' # as) i j) else text')"
| "old_probe_text src _ probe zone text' = text'"

definition probe_text :: "jsstring \<Rightarrow> jsstring \<Rightarrow> jsstring" where
  "probe_text probe zone =
     (if probe \<in> set TIME_FUNCTIONS then probe @ js ''('' @ json_stringify zone @ js '')'' else probe)"

definition comparison_text :: "jsstring \<Rightarrow> node option \<Rightarrow> jsstring \<Rightarrow> jsstring \<Rightarrow> jsstring \<Rightarrow> jsstring \<Rightarrow> js_number option \<Rightarrow> jsstring" where
  "comparison_text src origin probe zone op value' v =
     (let new = js ''('' @ probe_text probe zone @ js '' '' @ op @ js '' '' @ value' @ js '')'' in
      case origin of
        Some (Binary op' l r i j) \<Rightarrow>
          if op' = op then
            patchSource src (Binary op' l r i j)
              [(l, old_probe_text src l probe zone (probe_text probe zone)), (r, value_text src v value' r)]
          else new
      | _ \<Rightarrow> new)"

definition not_source :: "jsstring \<Rightarrow> node option \<Rightarrow> node option \<Rightarrow> jsstring \<Rightarrow> jsstring" where
  "not_source src origin child_origin child =
     (case origin of
        Some (Unary op x i j) \<Rightarrow>
          if child_origin = Some x then patchSource src (Unary op x i j) [(x, child)] else js ''!('' @ child @ js '')''
      | _ \<Rightarrow> js ''!('' @ child @ js '')'')"

definition group_source :: "jsstring \<Rightarrow> bool \<Rightarrow> node option \<Rightarrow> node option list \<Rightarrow> jsstring list \<Rightarrow> jsstring" where
  "group_source src isall origin origins texts =
     (let op = (if isall then js ''&&'' else js ''||'');
          new = js ''('' @ join (js '' '' @ op @ js '' '') (map (\<lambda>t. js ''('' @ t @ js '')'') texts) @ js '')''
      in case origin of
        Some (Binary op' l r i j) \<Rightarrow>
          if op' = op then
            let original = flattenBinary (Binary op' l r i j) op in
            if origins = map Some original then patchSource src (Binary op' l r i j) (zip original texts) else new
          else new
      | _ \<Rightarrow> new)"

fun writeVisualCondition :: "platform \<Rightarrow> jsstring \<Rightarrow> visual_condition \<Rightarrow> issues \<Rightarrow> jsstring \<times> issues"
  and write_children :: "platform \<Rightarrow> jsstring \<Rightarrow> visual_condition list \<Rightarrow> issues \<Rightarrow> jsstring list \<times> issues" where
  "writeVisualCondition pf src (V_not i origin child) issues =
     (let (text', issues') = writeVisualCondition pf src child issues
      in (not_source src origin (condition_origin child) text', issues'))"
| "writeVisualCondition pf src (V_group isall i origin cs) issues =
     (let (texts, issues') = write_children pf src cs
            (if cs = [] then issues @ [(i, js ''Add at least one condition to this group.'')] else issues)
      in (group_source src isall origin (map condition_origin cs) texts, issues'))"
| "writeVisualCondition pf src (V_comparison i origin probe zone op value') issues =
     (let v = parseNonNegativeNumber value'
      in (comparison_text src origin probe zone op value' v, issues @ comparison_issues pf i origin probe zone op v))"
| "write_children pf src [] issues = ([], issues)"
| "write_children pf src (c # cs) issues =
     (let (t, issues') = writeVisualCondition pf src c issues; (ts, issues'') = write_children pf src cs issues'
      in (t # ts, issues''))"

definition visualConditionExpression :: "platform \<Rightarrow> visual_condition \<Rightarrow> jsstring \<Rightarrow> jsstring option" where
  "visualConditionExpression pf n src =
     (case writeVisualCondition pf src n [] of (text', issues) \<Rightarrow> if issues = [] then Some text' else None)"

definition price_message :: jsstring where
  "price_message = js ''Enter a finite, non-negative price.''"

text \<open>The patch for the label of a tier read from \<open>tier(label, \<dots>)\<close>.\<close>

definition label_patch :: "jsstring \<Rightarrow> jsstring \<Rightarrow> node \<Rightarrow> patch" where
  "label_patch src label n =
     (n, case n of
           Literal (StringLit s) _ _ _ \<Rightarrow> if s = label then node_text src n else json_stringify label
         | _ \<Rightarrow> json_stringify label)"

text \<open>The label and the price of an origin that is a call of \<open>tier\<close>.\<close>

fun tier_args :: "node option \<Rightarrow> (node \<times> node \<times> node) option" where
  "tier_args (Some (Call f (label # price # as) i j)) =
     (if f = js ''tier'' then Some (Call f (label # price # as) i j, label, price) else None)"
| "tier_args _ = None"

definition fixed_source :: "jsstring \<Rightarrow> node option \<Rightarrow> jsstring \<Rightarrow> jsstring \<Rightarrow> js_number option \<Rightarrow> jsstring" where
  "fixed_source src origin label price_text v =
     (case tier_args origin of
        Some (n, l, price) \<Rightarrow>
          patchSource src n
            [label_patch src label l,
             (price, case fixed_argument price of
                       Some (_, amount) \<Rightarrow> patchSource src price [(amount, value_text src v price_text amount)]
                     | None \<Rightarrow> js ''fixed('' @ price_text @ js '')'')]
      | None \<Rightarrow> js ''tier('' @ json_stringify label @ js '', fixed('' @ price_text @ js ''))'')"

text \<open>The issues, the term and the patch of one price.\<close>

fun price_literal :: "node option \<Rightarrow> (node \<times> node) option" where
  "price_literal (Some (Binary op l (Literal v b i j) s e)) = Some (Binary op l (Literal v b i j) s e, Literal v b i j)"
| "price_literal _ = None"

definition price_issues :: "jsstring \<Rightarrow> visual_price \<Rightarrow> issues" where
  "price_issues i p =
     (if parseNonNegativeNumber (vp_value p) = None then [(i @ js '':'' @ vp_variable p, price_message)] else [])"

definition price_patch :: "jsstring \<Rightarrow> visual_price \<Rightarrow> patch option" where
  "price_patch src p =
     map_option (\<lambda>(_, lit). (lit, value_text src (parseNonNegativeNumber (vp_value p)) (vp_value p) lit))
       (price_literal (vp_origin p))"

definition price_source :: "jsstring \<Rightarrow> visual_price \<Rightarrow> jsstring" where
  "price_source src p =
     (case (price_literal (vp_origin p), price_patch src p) of
        (Some (n, _), Some patch) \<Rightarrow> patchSource src n [patch]
      | _ \<Rightarrow> vp_variable p @ js '' * '' @ vp_value p)"

definition tokens_source :: "jsstring \<Rightarrow> node option \<Rightarrow> jsstring \<Rightarrow> visual_price list \<Rightarrow> jsstring" where
  "tokens_source src origin label prices =
     (let terms = join (js '' + '') (map (price_source src) prices) in
      case tier_args origin of
        Some (n, l, body) \<Rightarrow>
          if map vp_origin prices = map Some (flattenBinary body (js ''+''))
          then patchSource src n (label_patch src label l # List.map_filter (price_patch src) prices)
          else patchSource src n [label_patch src label l, (body, terms)]
      | None \<Rightarrow> js ''tier('' @ json_stringify label @ js '', '' @ terms @ js '')'')"

definition branch_source :: "jsstring \<Rightarrow> node option \<Rightarrow> jsstring \<Rightarrow> jsstring \<Rightarrow> jsstring \<Rightarrow> jsstring" where
  "branch_source src origin condition yes no =
     (case origin of
        Some (Conditional c y n i j) \<Rightarrow> patchSource src (Conditional c y n i j) [(c, condition), (y, yes), (n, no)]
      | _ \<Rightarrow> js ''('' @ condition @ js '') ? ('' @ yes @ js '') : ('' @ no @ js '')'')"

fun writeVisualPricing :: "platform \<Rightarrow> jsstring \<Rightarrow> visual_pricing \<Rightarrow> issues \<Rightarrow> jsstring \<times> issues" where
  "writeVisualPricing pf src (V_branch i origin condition yes no) issues =
     (let (c, issues1) = writeVisualCondition pf src condition issues;
          (y, issues2) = writeVisualPricing pf src yes issues1;
          (n, issues3) = writeVisualPricing pf src no issues2
      in (branch_source src origin c y n, issues3))"
| "writeVisualPricing pf src (V_tier i origin label prices unit' fixedPrice) issues =
     (if unit' = Unit_request then
        let v = parseNonNegativeNumber fixedPrice;
            bad = (case v of None \<Rightarrow> True | Some x \<Rightarrow> \<not> is_finite (js_mul x (num 1000000)))
        in (fixed_source src origin label fixedPrice v, issues @ (if bad then [(i @ js '':fixed'', price_message)] else []))
      else
        (tokens_source src origin label prices,
         issues @ (if prices = [] then [(i, js ''Include at least one price variable.'')] else []) @
         concat (map (price_issues i) prices)))"

definition unreadable_message :: jsstring where
  "unreadable_message = js ''This expression cannot be edited visually without losing information.''"

definition is_ready :: "compilation \<Rightarrow> bool" where
  "is_ready r \<longleftrightarrow> (case r of Ready _ \<Rightarrow> True | Failed _ \<Rightarrow> False)"

definition serializeVisualBillingDocument ::
    "platform \<Rightarrow> visual_document \<Rightarrow> compile_cache \<Rightarrow> serialization \<times> compile_cache" where
  "serializeVisualBillingDocument pf doc cache =
     (case writeVisualPricing pf (doc_source doc) (doc_root doc) [] of (body, issues) \<Rightarrow>
        if issues \<noteq> [] then (Issues issues, cache)
        else
          let (original, cache1) = compileBillingExpression (doc_source doc) cache in
          case original of
            Failed _ \<Rightarrow> (Issues [(pricing_id (doc_root doc), unreadable_message)], cache1)
          | Ready c \<Rightarrow>
              let src = take (node_start (ast c)) (doc_source doc) @ body @ drop (node_end (ast c)) (doc_source doc);
                  (again, cache2) = compileBillingExpression src cache1
              in if is_ready again then (Serialized src, cache2)
                 else (Issues [(pricing_id (doc_root doc), js ''Enter a valid condition value.'')], cache2))"

definition parseVisualBillingDocument ::
    "platform \<Rightarrow> jsstring \<Rightarrow> compile_cache \<Rightarrow> visual_document option \<times> compile_cache" where
  "parseVisualBillingDocument pf src cache =
     (let (r, cache1) = compileBillingExpression src cache in
      case r of
        Failed _ \<Rightarrow> (None, cache1)
      | Ready c \<Rightarrow>
          (case readVisualPricing (ast c) of
             None \<Rightarrow> (None, cache1)
           | Some r' \<Rightarrow>
               let doc = \<lparr>doc_source = src, doc_root = r'\<rparr>;
                   (s, cache2) = serializeVisualBillingDocument pf doc cache1
               in (case s of Serialized _ \<Rightarrow> Some doc | Issues _ \<Rightarrow> None, cache2)))"

end
