(* ===== verification/VisualFacts.thy ===== *)
theory VisualFacts
  imports Visual NumberOrder "HOL-Library.Multiset"
begin

text \<open>
  Writing replaces the spans of the patched nodes and nothing else, and a document that was
  not edited is written back as the source it was read from.
\<close>

section \<open>Patches touch their spans only\<close>

text \<open>The source between two positions with the spans of the patches replaced, left to right.\<close>

fun splice :: "jsstring \<Rightarrow> nat \<Rightarrow> patch list \<Rightarrow> nat \<Rightarrow> jsstring" where
  "splice src i [] j = slice src i j"
| "splice src i ((n, t) # ps) j = slice src i (node_start n) @ t @ splice src (node_end n) ps j"

fun patches_between :: "nat \<Rightarrow> patch list \<Rightarrow> nat \<Rightarrow> bool" where
  "patches_between i [] j \<longleftrightarrow> i \<le> j"
| "patches_between i ((n, _) # ps) j \<longleftrightarrow> i \<le> node_start n \<and> node_start n < node_end n \<and> patches_between (node_end n) ps j"

lemma patches_between_le: "patches_between i ps j \<Longrightarrow> i \<le> j"
  by (induction ps arbitrary: i) force+

lemma slice_take: "i \<le> k \<Longrightarrow> k \<le> j \<Longrightarrow> take (k - i) (slice s i j) = slice s i k"
  by (simp add: slice_def min_def)

lemma slice_drop: "i \<le> k \<Longrightarrow> drop (k - i) (slice s i j) = slice s k j"
  by (simp add: slice_def drop_take)

text \<open>One patch applied to a text whose part before the patch is still the source.\<close>

lemma apply_patch_slice:
  assumes "node_start o' \<le> node_start n" "node_start n \<le> node_end n" "node_end n \<le> length src"
  shows "apply_patch o' (n, t) (slice src (node_start o') (node_end n) @ rest) =
    slice src (node_start o') (node_start n) @ t @ rest"
proof -
  let ?a = "node_start o'" and ?s = "node_start n" and ?e = "node_end n"
  let ?r = "slice src ?a ?e @ rest"
  have len: "length (slice src ?a ?e) = ?e - ?a" using assms by simp
  have i1: "js_index ?r (int ?s - int ?a) = ?s - ?a" "js_index ?r (int ?e - int ?a) = ?e - ?a"
    "js_index ?r 0 = 0" "js_index ?r (int (length ?r)) = length ?r"
    using assms len by (auto simp: js_index_def)
  have "js_slice ?r 0 (int ?s - int ?a) = slice src ?a ?s"
    unfolding js_slice_def i1 using assms len slice_take [of ?a ?s ?e src] by (simp add: slice_def [of ?r])
  moreover have "js_slice ?r (int ?e - int ?a) (int (length ?r)) = rest"
    unfolding js_slice_def i1 using len by (simp add: slice_def [of ?r])
  ultimately show ?thesis by (simp add: apply_patch_def)
qed

lemma fold_patches:
  assumes "patches_between i ps j" "node_start o' \<le> i" "j \<le> length src"
  shows "fold (apply_patch o') (rev ps) (slice src (node_start o') j) = slice src (node_start o') i @ splice src i ps j"
  using assms
proof (induction ps arbitrary: i)
  case Nil
  then show ?case by (simp add: slice_append)
next
  case (Cons p ps)
  obtain n t where p: "p = (n, t)" by (cases p)
  have b: "i \<le> node_start n" "node_start n < node_end n" "patches_between (node_end n) ps j" using Cons.prems(1) p by auto
  have e: "node_end n \<le> j" using patches_between_le [OF b(3)] .
  have "fold (apply_patch o') (rev ps) (slice src (node_start o') j) =
      slice src (node_start o') (node_end n) @ splice src (node_end n) ps j"
    by (rule Cons.IH) (use Cons.prems b in simp_all)
  moreover have "apply_patch o' (n, t) (slice src (node_start o') (node_end n) @ splice src (node_end n) ps j) =
      slice src (node_start o') (node_start n) @ t @ splice src (node_end n) ps j"
    by (rule apply_patch_slice) (use Cons.prems b e in simp_all)
  ultimately show ?case using Cons.prems(2) b(1) p by (simp flip: append_assoc add: slice_append)
qed

lemma sort_descending:
  assumes "patches_between i ps j"
  shows "sort_key (\<lambda>p. - int (node_start (fst p))) ps = rev ps"
proof -
  have le: "\<forall>q \<in> set ps. i \<le> node_start (fst q)" if "patches_between i ps j" for i ps
    using that by (induction ps arbitrary: i) (force dest: order_trans less_imp_le)+
  have "sorted_wrt (\<lambda>p q. node_start (fst p) < node_start (fst q)) ps" using assms
  proof (induction ps arbitrary: i)
    case (Cons p ps)
    obtain n t where p: "p = (n, t)" by (cases p)
    with Cons.prems have "node_start n < node_end n" "patches_between (node_end n) ps j" by auto
    with le [of "node_end n" ps] Cons.IH p show ?case by force
  qed simp
  then have "sorted (map (\<lambda>p. - int (node_start (fst p))) (rev ps))"
    by (auto simp: sorted_map sorted_wrt_rev intro: sorted_wrt_mono_rel [rotated])
  moreover have "distinct (map (\<lambda>p. - int (node_start (fst p))) ps)"
    using \<open>sorted_wrt _ ps\<close> by (induction ps) force+
  ultimately show ?thesis by (intro sort_key_inj_key_eq) (simp_all add: distinct_map)
qed

theorem patchSource_splice:
  assumes "patches_between (node_start o') ps (node_end o')" "node_end o' \<le> length src"
  shows "patchSource src o' ps = splice src (node_start o') ps (node_end o')"
  using fold_patches [OF assms(1) _ assms(2), of o'] sort_descending [OF assms(1)] by (simp add: patchSource_def)

text \<open>Patching nodes with their own text changes nothing.\<close>

definition faithful :: "jsstring \<Rightarrow> patch list \<Rightarrow> bool" where
  "faithful src ps \<longleftrightarrow> (\<forall>(n, t) \<in> set ps. t = node_text src n)"

lemma splice_faithful:
  "patches_between i ps j \<Longrightarrow> faithful src ps \<Longrightarrow> splice src i ps j = slice src i j"
proof (induction ps arbitrary: i)
  case (Cons p ps)
  obtain n t where p: "p = (n, t)" by (cases p)
  have t: "t = slice src (node_start n) (node_end n)" and f: "faithful src ps"
    using Cons.prems(2) p by (auto simp: faithful_def node_text_def)
  have b: "i \<le> node_start n" "node_start n \<le> node_end n" "patches_between (node_end n) ps j" using Cons.prems(1) p by auto
  have "slice src (node_start n) (node_end n) @ slice src (node_end n) j = slice src (node_start n) j"
    using slice_append [OF b(2) patches_between_le [OF b(3)]] .
  moreover have "slice src i (node_start n) @ slice src (node_start n) j = slice src i j"
    using slice_append [OF b(1)] patches_between_le [OF b(3)] b(2) by simp
  ultimately show ?case using Cons.IH [OF b(3) f] by (simp add: p t)
qed simp

lemma patchSource_faithful:
  assumes "patches_between (node_start o') ps (node_end o')" "node_end o' \<le> length src" "faithful src ps"
  shows "patchSource src o' ps = node_text src o'"
  using patchSource_splice [OF assms(1,2)] splice_faithful [OF assms(1,3)] by (simp add: node_text_def)

section \<open>The parts of a flattened operator\<close>

lemma patches_between_append:
  "patches_between i (ps @ qs) j \<longleftrightarrow> (\<exists>k. patches_between i ps k \<and> patches_between k qs j)"
proof (induction ps arbitrary: i)
  case Nil
  have "patches_between i qs j \<Longrightarrow> k \<le> i \<Longrightarrow> patches_between k qs j" for i k
    by (cases qs) auto
  then show ?case by auto
qed auto

lemma patches_between_mono:
  "patches_between i ps j \<Longrightarrow> i' \<le> i \<Longrightarrow> j \<le> j' \<Longrightarrow> patches_between i' ps j'"
  by (induction ps arbitrary: i i') auto

lemma flatten_between:
  assumes "tree_ok n" "length ts = length (flattenBinary n op)"
  shows "patches_between (node_start n) (zip (flattenBinary n op) ts) (node_end n)"
  using assms
proof (induction n op arbitrary: ts rule: flattenBinary.induct)
  case (1 op' l r i j op)
  let ?n = "Binary op' l r i j"
  show ?case
  proof (cases "op' = op")
    case True
    let ?ls = "flattenBinary l op" and ?rs = "flattenBinary r op"
    have ok: "tree_ok l" "tree_ok r" and sp: "i \<le> node_start l" "node_end l \<le> node_start r" "node_end r \<le> j"
      using "1.prems"(1) by (auto simp: tree_ok_children [of ?n] span_ok_def)
    have len: "length (take (length ?ls) ts) = length ?ls" "length (drop (length ?ls) ts) = length ?rs"
      using "1.prems"(2) True by auto
    have "zip (?ls @ ?rs) ts = zip ?ls (take (length ?ls) ts) @ zip ?rs (drop (length ?ls) ts)"
      by (simp add: zip_append1)
    moreover have "patches_between i (zip ?ls (take (length ?ls) ts)) (node_start r)"
      using patches_between_mono [OF "1.IH"(1) [OF _ ok(1) len(1)]] True sp by simp
    moreover have "patches_between (node_start r) (zip ?rs (drop (length ?ls) ts)) j"
      using patches_between_mono [OF "1.IH"(2) [OF _ ok(2) len(2)]] True sp by simp
    ultimately show ?thesis using True by (auto simp: patches_between_append)
  next
    case False
    with "1.prems" tree_ok_span [OF "1.prems"(1)] show ?thesis by (auto simp: length_Suc_conv)
  qed
qed (auto simp: length_Suc_conv dest: tree_ok_span)

lemma flatten_tree_ok: "tree_ok n \<Longrightarrow> p \<in> set (flattenBinary n op) \<Longrightarrow> tree_ok p"
  by (induction n op rule: flattenBinary.induct) (auto simp: tree_ok_children [of "Binary _ _ _ _ _"] split: if_splits)

lemma flatten_end: "tree_ok n \<Longrightarrow> p \<in> set (flattenBinary n op) \<Longrightarrow> node_end p \<le> node_end n"
  by (induction n op rule: flattenBinary.induct)
    (force simp: tree_ok_children [of "Binary _ _ _ _ _"] span_ok_def split: if_splits)+

section \<open>Numbers survive the trip through text\<close>

lemma scan_js_String:
  assumes "valid_number (Finite False m e)"
  shows "trim (js_String (Finite False m e)) = js_String (Finite False m e)"
    and "\<exists>d x. scan_decimal (js_String (Finite False m e)) = Some (d, x, [])"
proof -
  have "trim (js_String (Finite False m e)) = js_String (Finite False m e) \<and>
    (\<exists>d x. scan_decimal (js_String (Finite False m e)) = Some (d, x, []))"
  proof (cases "m = 0")
    case True
    have "trim (js ''0'') = js ''0''" "scan_decimal (js ''0'') = Some (0, 0, [])" by (code_simp, code_simp)
    with True show ?thesis by simp
  next
    case False
    with assms have m: "0 < m" by simp
    obtain ds n where d: "decimal_digits m e = (ds, n)" by fastforce
    note dc = decimal_digits_correct [OF assms m d]
    have "set (digits_to_string ds n) \<subseteq> number_chars" using digits_to_string_chars [of ds n] dc by auto
    then have "trim (digits_to_string ds n) = digits_to_string ds n"
      using number_chars_no_space by (intro trim_no_space) auto
    moreover have "\<exists>d x. scan_decimal (digits_to_string ds n) = Some (d, x, [])"
      using scan_digits_to_string [of ds n] dc by auto
    ultimately show ?thesis using False d by simp
  qed
  then show "trim (js_String (Finite False m e)) = js_String (Finite False m e)"
    "\<exists>d x. scan_decimal (js_String (Finite False m e)) = Some (d, x, [])" by blast+
qed

definition plain_number :: "js_number \<Rightarrow> bool" where
  "plain_number x \<longleftrightarrow> valid_number x \<and> is_finite x \<and> \<not> is_negative x"

theorem parse_js_String:
  assumes "plain_number x"
  shows "parseNonNegativeNumber (js_String x) = Some x"
proof -
  obtain m e where x: "x = Finite False m e" and v: "valid_number (Finite False m e)"
    using assms by (cases x) (auto simp: plain_number_def)
  obtain d y where s: "scan_decimal (js_String x) = Some (d, y, [])" using scan_js_String(2) [OF v] x by auto
  have "js_le zero_num x"
  proof -
    have "0 \<le> (of_int m * 2 powi e :: rat)" using v by (intro mult_nonneg_nonneg) auto
    then have "\<not> js_less x zero_num" unfolding x js_less_value by simp
    then show ?thesis using js_le_not_less [of zero_num x] v x by simp
  qed
  with s scan_js_String(1) [OF v] js_Number_js_String [OF v] x show ?thesis
    by (simp add: parseNonNegativeNumber_def)
qed

lemma plain_literal: "syntax_ok (Literal (NumberLit k) b i j) \<Longrightarrow> plain_number k"
  by (simp add: plain_number_def)

lemma js_eq_refl: "is_finite x \<Longrightarrow> js_eq x x"
  by (cases x) auto

section \<open>An unedited document is written back unchanged\<close>

lemma value_text_same:
  assumes "syntax_ok (Literal (NumberLit k) b i j)"
  shows "value_text src (parseNonNegativeNumber (js_String k)) t (Literal (NumberLit k) b i j) =
    node_text src (Literal (NumberLit k) b i j)"
  using parse_js_String [OF plain_literal [OF assms]] assms js_eq_refl [of k] by simp

lemma tree_ok_between:
  assumes "tree_ok (Binary op l r i j)"
  shows "patches_between i [(l, t), (r, u)] j"
  using assms by (auto simp: tree_ok_children [of "Binary op l r i j"] span_ok_def dest: tree_ok_span)

lemma read_comparison_write:
  assumes "read_comparison n = Some c" "tree_ok n" "node_end n \<le> length src"
  shows "condition_origin c = Some n \<and> fst (writeVisualCondition pf src c issues) = node_text src n"
proof -
  obtain op l k b i' j' i j probe zone where n: "n = Binary op l (Literal (NumberLit k) b i' j') i j"
    and p: "read_probe l = Some (probe, zone)"
    and c: "c = V_comparison (span_id ''condition-'' n) (Some n) probe zone op (js_String k)"
    using assms(1) by (cases n rule: read_comparison.cases) (auto split: if_splits)
  let ?r = "Literal (NumberLit k) b i' j'"
  have old: "old_probe_text src l probe zone t = node_text src l" for t
    using p by (cases l rule: read_probe.cases) (auto split: if_splits)
  have lit: "syntax_ok ?r" using assms(2) n by (auto simp: tree_ok_def)
  have "patchSource src n [(l, node_text src l), (?r, node_text src ?r)] = node_text src n"
    using patchSource_faithful [OF _ assms(3)] tree_ok_between [of op l ?r i j] assms(2) n by (simp add: faithful_def)
  then show ?thesis using c old value_text_same [OF lit] n by (simp add: comparison_text_def Let_def)
qed

lemma list_all2_mono':
  "list_all2 R xs ys \<Longrightarrow> (\<And>x y. x \<in> set xs \<Longrightarrow> R x y \<Longrightarrow> Q x y) \<Longrightarrow> list_all2 Q xs ys"
  by (induction rule: list_all2_induct) auto

lemma write_children_texts:
  "list_all2 (\<lambda>p c. \<forall>issues. fst (writeVisualCondition pf src c issues) = node_text src p) ps cs \<Longrightarrow>
     fst (write_children pf src cs issues) = map (node_text src) ps"
  by (induction arbitrary: issues rule: list_all2_induct) (auto simp: split_beta Let_def)

lemma those_list_all2_iff: "those (map f xs) = Some ys \<longleftrightarrow> list_all2 (\<lambda>x y. f x = Some y) xs ys"
  by (induction xs arbitrary: ys) (auto simp: list_all2_Cons1 split: option.splits)

lemma list_all2_origins: "list_all2 (\<lambda>p c. f c = Some p) ps cs \<Longrightarrow> map f cs = map Some ps"
  by (induction rule: list_all2_induct) auto

lemma faithful_zip: "faithful src (zip ps (map (node_text src) ps))"
  by (induction ps) (auto simp: faithful_def)

theorem readVisualCondition_write:
  assumes "readVisualCondition n = Some c" "tree_ok n" "node_end n \<le> length src"
  shows "condition_origin c = Some n \<and> fst (writeVisualCondition pf src c issues) = node_text src n"
  using assms
proof (induction n arbitrary: c issues rule: readVisualCondition.induct)
  case (1 op x i j)
  let ?n = "Unary op x i j"
  from "1.prems"(1) obtain d where d: "op = js ''!''" "readVisualCondition x = Some d" "c = V_not (span_id ''condition-'' ?n) (Some ?n) d"
    by (auto split: if_splits)
  have x: "tree_ok x" "i \<le> node_start x" "node_end x \<le> j" using "1.prems"(2) by (auto simp: tree_ok_children [of ?n] span_ok_def)
  with "1.IH" [of d issues] d "1.prems"(3) have IH: "condition_origin d = Some x"
    "fst (writeVisualCondition pf src d issues) = node_text src x" by auto
  have "patchSource src ?n [(x, node_text src x)] = node_text src ?n"
    using x tree_ok_span [OF x(1)] "1.prems"(3) by (intro patchSource_faithful) (auto simp: faithful_def)
  with IH d(3) show ?case by (simp add: split_beta Let_def not_source_def)
next
  case (2 op l r i j)
  let ?n = "Binary op l r i j"
  show ?case
  proof (cases "op \<in> set logical_operators")
    case True
    let ?ps = "flattenBinary ?n op"
    have ps: "?ps = flattenBinary l op @ flattenBinary r op" by simp
    from True "2.prems"(1) obtain cs where cs: "those (map readVisualCondition ?ps) = Some cs"
      "c = V_group (op = js ''&&'') (span_id ''condition-'' ?n) (Some ?n) cs"
      unfolding ps by auto
    have part: "condition_origin d = Some p \<and> fst (writeVisualCondition pf src d is) = node_text src p"
      if "p \<in> set ?ps" "readVisualCondition p = Some d" for p d "is"
    proof -
      have "node_end p \<le> length src" using flatten_end [OF "2.prems"(2) that(1)] "2.prems"(3) by simp
      with "2.IH" [OF True _ that(2) flatten_tree_ok [OF "2.prems"(2) that(1)]] that(1) show ?thesis by simp
    qed
    have all: "list_all2 (\<lambda>p d. condition_origin d = Some p \<and> (\<forall>issues. fst (writeVisualCondition pf src d issues) = node_text src p)) ?ps cs"
      by (rule list_all2_mono' [OF cs(1) [unfolded those_list_all2_iff]]) (use part in auto)
    have origins: "map condition_origin cs = map Some ?ps"
      by (rule list_all2_origins) (rule list_all2_mono [OF all], simp)
    have texts: "fst (write_children pf src cs is) = map (node_text src) ?ps" for "is"
      by (rule write_children_texts) (rule list_all2_mono [OF all], simp)
    have "patchSource src ?n (zip ?ps (map (node_text src) ?ps)) = node_text src ?n"
      using "2.prems"(2,3) by (intro patchSource_faithful faithful_zip flatten_between) simp_all
    moreover have "(if op = js ''&&'' then js ''&&'' else js ''||'') = op" using True by (auto simp: logical_operators_def)
    ultimately show ?thesis using cs(2) origins texts
      by (simp add: split_beta Let_def group_source_def del: flattenBinary.simps)
  next
    case False
    with "2.prems" show ?thesis by (intro read_comparison_write) simp_all
  qed
qed auto

subsection \<open>Tiers\<close>

lemma tree_ok_child:
  assumes "tree_ok n" "c \<in> set (children n)"
  shows "tree_ok c" "node_start n \<le> node_start c" "node_end c \<le> node_end n" "syntax_ok c"
  using assms tree_ok_children [of n] tree_ok_children [of c] by (auto simp: span_ok_def)

definition fixed_numeric :: "node \<Rightarrow> bool" where
  "fixed_numeric n \<longleftrightarrow> (\<forall>m \<in> set (postorder n). \<forall>v amount. fixed_argument m = Some (v, amount) \<longrightarrow> (\<exists>k. v = NumberLit k))"

lemma fixed_numeric_child: "fixed_numeric n \<Longrightarrow> c \<in> set (children n) \<Longrightarrow> fixed_numeric c"
  using postorder_child [of c n] unfolding fixed_numeric_def by blast

lemma label_patch_same: "label_patch src label (Literal (StringLit label) b i j) = (Literal (StringLit label) b i j, node_text src (Literal (StringLit label) b i j))"
  by (simp add: label_patch_def)

lemma read_prices_list: "read_prices ts ps = Some qs \<Longrightarrow> \<exists>new. qs = ps @ new \<and> list_all2 (\<lambda>t p. read_price t = Some p) ts new"
proof (induction ts arbitrary: ps)
  case (Cons t ts)
  from Cons.prems obtain p where p: "read_price t = Some p" "read_prices ts (ps @ [p]) = Some qs" by (auto split: option.splits if_splits)
  from Cons.IH [OF p(2)] p(1) show ?case by auto
qed simp

lemma read_price_shape:
  assumes "read_price t = Some p"
  obtains op x i j k b i' j' s e where "t = Binary op (Variable x i j) (Literal (NumberLit k) b i' j') s e"
    "vp_value p = js_String k" "vp_origin p = Some t"
  using assms
proof (cases t rule: read_price.cases)
  case (1 op x i j k b i' j' s e)
  with assms have "p = \<lparr>vp_variable = x, vp_value = js_String k, vp_origin = Some t\<rparr>"
    by (simp split: if_splits)
  then show ?thesis using that [OF 1] by simp
qed simp_all

lemma read_price_patch:
  assumes "read_price t = Some p" "tree_ok t"
  shows "vp_origin p = Some t \<and> (\<exists>lit. price_patch src p = Some (lit, node_text src lit) \<and>
    node_start t \<le> node_start lit \<and> node_start lit < node_end lit \<and> node_end lit \<le> node_end t)"
proof -
  from assms(1) obtain op x i j k b i' j' s e where t: "t = Binary op (Variable x i j) (Literal (NumberLit k) b i' j') s e"
    and p: "vp_value p = js_String k" "vp_origin p = Some t"
    by (rule read_price_shape)
  let ?r = "Literal (NumberLit k) b i' j'"
  have r: "tree_ok ?r" "node_start t \<le> node_start ?r" "node_end ?r \<le> node_end t" "syntax_ok ?r"
    using tree_ok_child [OF assms(2), of ?r] t by auto
  have "price_patch src p = Some (?r, node_text src ?r)"
    using p t value_text_same [OF r(4)] by (simp add: price_patch_def)
  with r p(2) tree_ok_span [OF r(1)] show ?thesis by blast
qed

lemma inner_patches:
  assumes "list_all2 (\<lambda>p q. node_start p \<le> node_start (fst q) \<and> node_start (fst q) < node_end (fst q) \<and> node_end (fst q) \<le> node_end p) ps qs"
    "patches_between i (zip ps ts) j" "length ts = length ps"
  shows "patches_between i qs j"
  using assms
proof (induction arbitrary: i ts rule: list_all2_induct)
  case (Cons p ps q qs)
  then obtain t ts' where ts: "ts = t # ts'" by (cases ts) auto
  with Cons.prems have "i \<le> node_start p" "patches_between (node_end p) (zip ps ts') j" "length ts' = length ps" by auto
  moreover from this(2) have "patches_between (node_end (fst q)) (zip ps ts') j"
    by (rule patches_between_mono) (use Cons.hyps in auto)
  ultimately show ?case using Cons.hyps Cons.IH [of "node_end (fst q)" ts'] by (cases q) auto
qed simp

lemma tier_between:
  assumes "tree_ok (Call f (l # body # as) i j)" "patches_between (node_start body) ps (node_end body)"
  shows "patches_between i ((l, t) # ps) j"
proof -
  have "i \<le> node_start l" "node_end l \<le> node_start body" "node_end body \<le> j" "tree_ok l"
    using assms(1) by (auto simp: tree_ok_children [of "Call f (l # body # as) i j"] span_ok_def)
  with patches_between_mono [OF assms(2)] tree_ok_span show ?thesis by simp
qed

lemma read_tier_shape:
  assumes "read_tier n = Some v"
  obtains (Fixed) label b i j body as s e k amount where
      "n = Call (js ''tier'') (Literal (StringLit label) b i j # body # as) s e"
      "fixed_argument body = Some (k, amount)"
      "v = V_tier (span_id ''pricing-'' n) (Some n) label [] Unit_request (js_String_literal k)"
    | (Tokens) label b i j body as s e prices where
      "n = Call (js ''tier'') (Literal (StringLit label) b i j # body # as) s e"
      "read_prices (flattenBinary body (js ''+'')) [] = Some prices"
      "v = V_tier (span_id ''pricing-'' n) (Some n) label prices Unit_token []"
  using assms
proof (cases n rule: read_tier.cases)
  case (1 f label b i j body as s e)
  with assms have f: "f = js ''tier''" by (simp split: if_splits)
  show ?thesis
  proof (cases "fixed_argument body")
    case None
    with assms 1 f obtain prices where "read_prices (flattenBinary body (js ''+'')) [] = Some prices"
      "v = V_tier (span_id ''pricing-'' n) (Some n) label prices Unit_token []" by (auto simp: Let_def)
    with 1 f show ?thesis by (intro Tokens) simp_all
  next
    case (Some p)
    obtain k amount where p: "p = (k, amount)" by (cases p)
    have "v = V_tier (span_id ''pricing-'' n) (Some n) label [] Unit_request (js_String_literal k)"
      using assms 1 f Some p by (simp add: Let_def)
    with 1 f Some p show ?thesis by (intro Fixed) simp_all
  qed
qed simp_all

lemma fixed_argument_shape:
  assumes "fixed_argument n = Some (k, amount)"
  obtains b i j as s e where "n = Call (js ''fixed'') (amount # as) s e" "amount = Literal k b i j"
  using assms
proof (cases n rule: fixed_argument.cases)
  case (1 f v b i j as s e)
  with assms have "f = js ''fixed''" "v = k" "amount = Literal k b i j" by (auto split: if_splits)
  with 1 show ?thesis by (intro that) simp_all
qed simp_all

lemma fixed_source_same:
  assumes "tree_ok n" "n = Call (js ''tier'') (Literal (StringLit label) b i j # body # as) s e" "node_end n \<le> length src"
    "fixed_argument body = Some (NumberLit k, amount)"
  shows "fixed_source src (Some n) label (js_String k) (parseNonNegativeNumber (js_String k)) = node_text src n"
proof -
  let ?l = "Literal (StringLit label) b i j"
  have body: "tree_ok body" "node_end body \<le> length src"
    using tree_ok_child [OF assms(1), of body] assms(2,3) by auto
  from assms(4) obtain b' i' j' as' s' e' where bd: "body = Call (js ''fixed'') (amount # as') s' e'" "amount = Literal (NumberLit k) b' i' j'"
    by (rule fixed_argument_shape)
  have am: "tree_ok amount" "s' \<le> node_start amount" "node_end amount \<le> e'" "syntax_ok amount"
    using tree_ok_child [OF body(1), of amount] bd by auto
  have "patches_between (node_start body) [(amount, node_text src amount)] (node_end body)"
    using am tree_ok_span [OF am(1)] bd(1) by simp
  then have inner: "patchSource src body [(amount, node_text src amount)] = node_text src body"
    using body(2) by (rule patchSource_faithful) (simp add: faithful_def)
  have "patches_between (node_start n) [(?l, node_text src ?l), (body, node_text src body)] (node_end n)"
    using tier_between [of "js ''tier''" ?l body as s e "[(body, node_text src body)]"] assms(1,2) tree_ok_span [OF body(1)] by simp
  then have outer: "patchSource src n [(?l, node_text src ?l), (body, node_text src body)] = node_text src n"
    using assms(3) by (rule patchSource_faithful) (simp add: faithful_def)
  have "value_text src (parseNonNegativeNumber (js_String k)) (js_String k) amount = node_text src amount"
    using value_text_same [of k b' i' j'] am(4) bd(2) by simp
  then show ?thesis using outer inner assms(2,4) by (simp add: fixed_source_def label_patch_same)
qed

lemma tokens_source_same:
  assumes "tree_ok n" "n = Call (js ''tier'') (Literal (StringLit label) b i j # body # as) s e" "node_end n \<le> length src"
    "read_prices (flattenBinary body (js ''+'')) [] = Some prices"
  shows "tokens_source src (Some n) label prices = node_text src n"
proof -
  let ?l = "Literal (StringLit label) b i j" and ?ts = "flattenBinary body (js ''+'')"
  have body: "tree_ok body" using tree_ok_child [OF assms(1), of body] assms(2) by auto
  from read_prices_list [OF assms(4)] have l2: "list_all2 (\<lambda>t p. read_price t = Some p) ?ts prices" by simp
  have l3: "list_all2 (\<lambda>t p. vp_origin p = Some t \<and> (\<exists>lit. price_patch src p = Some (lit, node_text src lit) \<and>
      node_start t \<le> node_start lit \<and> node_start lit < node_end lit \<and> node_end lit \<le> node_end t)) ?ts prices"
    by (rule list_all2_mono' [OF l2]) (use read_price_patch flatten_tree_ok [OF body] in blast)
  have "list_all2 (\<lambda>t p. vp_origin p = Some t) ?ts prices" by (rule list_all2_mono [OF l3]) simp
  then have origins: "map vp_origin prices = map Some ?ts" by (rule list_all2_origins)
  let ?qs = "List.map_filter (price_patch src) prices"
  have l4: "list_all2 (\<lambda>p q. node_start p \<le> node_start (fst q) \<and> node_start (fst q) < node_end (fst q) \<and> node_end (fst q) \<le> node_end p) ?ts ?qs"
    and fq: "faithful src ?qs"
    using l3 by (induction rule: list_all2_induct) (auto simp: map_filter_simps faithful_def)
  have "patches_between (node_start body) ?qs (node_end body)"
    using inner_patches [OF l4 flatten_between [OF body, of "map (\<lambda>_. []) ?ts"]] by simp
  then have "patches_between (node_start n) ((?l, node_text src ?l) # ?qs) (node_end n)"
    using tier_between [of "js ''tier''" ?l body as s e ?qs] assms(1,2) by simp
  then have "patchSource src n ((?l, node_text src ?l) # ?qs) = node_text src n"
    using assms(3) by (rule patchSource_faithful) (use fq in \<open>simp add: faithful_def\<close>)
  then show ?thesis using assms(2) origins by (simp add: tokens_source_def label_patch_same)
qed

lemma read_tier_write:
  assumes "read_tier n = Some v" "tree_ok n" "node_end n \<le> length src" "fixed_numeric n"
  shows "fst (writeVisualPricing pf src v issues) = node_text src n"
  using assms(1)
proof (cases rule: read_tier_shape)
  case (Fixed label b i j body as s e k amount)
  have "body \<in> set (postorder n)" using Fixed(1) postorder_child [of body n] postorder_children [of body] by auto
  with assms(4) Fixed(2) obtain k' where "k = NumberLit k'" unfolding fixed_numeric_def by blast
  with fixed_source_same [OF assms(2) Fixed(1) assms(3), of k' amount] Fixed(2,3) show ?thesis by simp
next
  case (Tokens label b i j body as s e prices)
  with tokens_source_same [OF assms(2) Tokens(1) assms(3) Tokens(2)] show ?thesis by simp
qed

theorem readVisualPricing_write:
  assumes "readVisualPricing n = Some v" "tree_ok n" "node_end n \<le> length src" "fixed_numeric n"
  shows "fst (writeVisualPricing pf src v issues) = node_text src n"
  using assms
proof (induction n arbitrary: v issues rule: readVisualPricing.induct)
  case (1 c y no i j)
  let ?n = "Conditional c y no i j"
  from "1.prems"(1) obtain cv yv nv where r: "readVisualCondition c = Some cv" "readVisualPricing y = Some yv" "readVisualPricing no = Some nv"
    "v = V_branch (span_id ''pricing-'' ?n) (Some ?n) cv yv nv" by (auto split: option.splits)
  have ok: "tree_ok c" "tree_ok y" "tree_ok no" and sp: "i \<le> node_start c" "node_end c \<le> node_start y" "node_end y \<le> node_start no" "node_end no \<le> j"
    using "1.prems"(2) by (auto simp: tree_ok_children [of ?n] span_ok_def)
  have le: "node_end c \<le> length src" "node_end y \<le> length src" "node_end no \<le> length src"
    using sp tree_ok_span [OF ok(2)] tree_ok_span [OF ok(3)] "1.prems"(3) by auto
  have fx: "fixed_numeric y" "fixed_numeric no" using fixed_numeric_child [OF "1.prems"(4)] by auto
  have "fst (writeVisualCondition pf src cv is) = node_text src c" "fst (writeVisualPricing pf src yv is) = node_text src y"
    "fst (writeVisualPricing pf src nv is) = node_text src no" for "is"
    using readVisualCondition_write [OF r(1) ok(1) le(1)] "1.IH"(1) [OF r(2) ok(2) le(2) fx(1)] "1.IH"(2) [OF r(3) ok(3) le(3) fx(2)] by auto
  moreover have "patchSource src ?n [(c, node_text src c), (y, node_text src y), (no, node_text src no)] = node_text src ?n"
    using sp tree_ok_span [OF ok(1)] tree_ok_span [OF ok(2)] tree_ok_span [OF ok(3)] "1.prems"(3)
    by (intro patchSource_faithful) (auto simp: faithful_def)
  ultimately show ?case using r(4) by (simp add: split_beta Let_def branch_source_def)
qed (auto intro: read_tier_write)

section \<open>Documents\<close>

lemma typed_child: "typed n t \<Longrightarrow> c \<in> set (children n) \<Longrightarrow> \<exists>u. typed c u"
  by (cases rule: typed.cases) (auto, blast)

lemma typed_subnode: "typed n t \<Longrightarrow> m \<in> set (postorder n) \<Longrightarrow> \<exists>u. typed m u"
proof (induction "node_count n" arbitrary: n t rule: less_induct)
  case less
  show ?case
  proof (cases "m = n")
    case False
    with less.prems(2) obtain c where c: "c \<in> set (children n)" "m \<in> set (postorder c)"
      by (subst (asm) postorder_children) auto
    with typed_child [OF less.prems(1)] obtain u where "typed c u" by blast
    from less.hyps [OF node_count_child [OF c(1)] this c(2)] show ?thesis .
  qed (use less.prems in blast)
qed

lemma typed_fixed_numeric:
  assumes "typed n t"
  shows "fixed_numeric n"
  unfolding fixed_numeric_def
proof (intro ballI allI impI)
  fix m v amount assume m: "m \<in> set (postorder n)" and a: "fixed_argument m = Some (v, amount)"
  from a obtain b i j as s e where f: "m = Call (js ''fixed'') (amount # as) s e" "amount = Literal v b i j"
    by (rule fixed_argument_shape)
  from typed_subnode [OF assms m] obtain u where u: "typed m u" ..
  have "\<exists>t. typed (Literal v b i j) t \<and> fits t T_number"
    using u unfolding f by (rule typed_CallE) (auto simp: TIME_FUNCTIONS_def)
  then have "fits (literal_type v) T_number" by (auto elim: typed_LiteralE)
  then show "\<exists>k. v = NumberLit k" by (cases v) (auto simp: fits_def)
qed

lemma compile_result_ready:
  assumes "compile_result src = Ready c"
  shows "tree_ok (ast c)" "node_end (ast c) \<le> length src" "fixed_numeric (ast c)"
proof -
  from assms have cs: "compile_source src = Inr c" by (simp add: compile_result_def split: sum.splits)
  then obtain n where n: "parse src = Inr n" by (auto simp: compile_source_def rbind_eq_Inr)
  with cs have c: "compilable src n" "ast c = n" by (simp_all add: compile_source_iff)
  show "tree_ok (ast c)" "node_end (ast c) \<le> length src" using parse_tree_ok [OF n] c(2) by auto
  show "fixed_numeric (ast c)" using c typed_fixed_numeric by (auto simp: compilable_def)
qed

lemma serialize_unedited:
  assumes "compile_result src = Ready c" "readVisualPricing (ast c) = Some v" "cache_consistent cache"
    "serializeVisualBillingDocument pf \<lparr>doc_source = src, doc_root = v\<rparr> cache = (s, cache')"
  shows "s = (let issues = snd (writeVisualPricing pf src v []) in if issues = [] then Serialized src else Issues issues)"
    "cache_consistent cache'"
proof -
  note ok = compile_result_ready [OF assms(1)]
  have w: "fst (writeVisualPricing pf src v []) = node_text src (ast c)" using readVisualPricing_write [OF assms(2) ok] .
  have same: "take (node_start (ast c)) src @ node_text src (ast c) @ drop (node_end (ast c)) src = src"
    using slice_append [of 0 "node_start (ast c)" "node_end (ast c)" src] tree_ok_span [OF ok(1)]
    by (simp add: node_text_def slice_def flip: append.assoc)
  obtain r1 c1 where r1: "compileBillingExpression src cache = (r1, c1)" by fastforce
  note c1 = compile_cached [OF assms(3) r1]
  obtain r2 c2 where r2: "compileBillingExpression src c1 = (r2, c2)" by fastforce
  note c2 = compile_cached [OF c1(2) r2]
  have "serializeVisualBillingDocument pf \<lparr>doc_source = src, doc_root = v\<rparr> cache =
      (let issues = snd (writeVisualPricing pf src v []) in if issues = [] then (Serialized src, c2) else (Issues issues, cache))"
    using w same r1 r2 c1(1) c2(1) assms(1)
    by (simp add: serializeVisualBillingDocument_def is_ready_def split_beta Let_def)
  with assms(3,4) c2(2) show "s = (let issues = snd (writeVisualPricing pf src v []) in if issues = [] then Serialized src else Issues issues)"
    "cache_consistent cache'" by (auto simp: Let_def split: if_splits)
qed

theorem unedited_document:
  assumes "cache_consistent cache" "parseVisualBillingDocument pf src cache = (Some doc, cache')"
  shows "cache_consistent cache'" "doc_source doc = src"
    "cache_consistent other \<Longrightarrow> fst (serializeVisualBillingDocument pf doc other) = Serialized src"
proof -
  obtain r c1 where r: "compileBillingExpression src cache = (r, c1)" by fastforce
  note c1 = compile_cached [OF assms(1) r]
  from assms(2) r obtain c where c: "r = Ready c" by (cases r) (auto simp: parseVisualBillingDocument_def)
  with assms(2) r obtain v where v: "readVisualPricing (ast c) = Some v"
    by (auto simp: parseVisualBillingDocument_def split: option.splits)
  let ?doc = "\<lparr>doc_source = src, doc_root = v\<rparr>"
  obtain s c2 where s: "serializeVisualBillingDocument pf ?doc c1 = (s, c2)" by fastforce
  with assms(2) r c v obtain out where out: "s = Serialized out" "doc = ?doc" "c2 = cache'"
    by (auto simp: parseVisualBillingDocument_def split: serialization.splits)
  show "doc_source doc = src" using out by simp
  have ready: "compile_result src = Ready c" using c c1(1) by simp
  note first = serialize_unedited [OF ready v c1(2) s]
  show "cache_consistent cache'" using first(2) out(3) by simp
  have none: "snd (writeVisualPricing pf src v []) = []" using first(1) out(1) by (simp add: Let_def split: if_splits)
  show "fst (serializeVisualBillingDocument pf doc other) = Serialized src" if "cache_consistent other"
  proof -
    obtain s' c' where s': "serializeVisualBillingDocument pf ?doc other = (s', c')" by fastforce
    with serialize_unedited(1) [OF ready v that s'] none out(2) show ?thesis by simp
  qed
qed

end
