(* ===== verification/Structure.thy ===== *)
theory Structure
  imports Prelude
begin

text \<open>
  The lossless text helpers (\<open>billing-expression/structure.ts\<close>), which work on any text, in
  or out of the grammar.  The index loop of the source is a recursion over the text that is
  left; \<open>cur\<close> is the slice from \<open>start\<close> to the index.
\<close>

section \<open>Splitting at an operator\<close>

definition is_quote :: "code_unit \<Rightarrow> bool" where
  "is_quote c \<longleftrightarrow> c = 34 \<or> c = 39"

definition bracket_delta :: "code_unit \<Rightarrow> int" where
  "bracket_delta c =
     (if c = 40 \<or> c = 91 \<or> c = 123 then 1 else if c = 41 \<or> c = 93 \<or> c = 125 then - 1 else 0)"

text \<open>
  \<open>None\<close> stands for a loop that does not end: an empty operator matches at the first unit
  outside brackets and leaves the index where it is.
\<close>

function split_loop ::
    "jsstring \<Rightarrow> jsstring \<Rightarrow> jsstring \<Rightarrow> jsstring \<Rightarrow> int \<Rightarrow> code_unit option \<Rightarrow> jsstring list \<Rightarrow> jsstring list option" where
  "split_loop op src [] cur d q parts = Some (filter (\<lambda>p. p \<noteq> []) (parts @ [trim cur]))"
| "split_loop op src (c # r) cur d q parts =
     (case q of
        Some quote \<Rightarrow>
          if c = 92 then split_loop op src (tl r) (cur @ c # take 1 r) d q parts
          else split_loop op src r (cur @ [c]) d (if c = quote then None else q) parts
      | None \<Rightarrow>
          if is_quote c then split_loop op src r (cur @ [c]) d (Some c) parts
          else let d' = d + bracket_delta c in
            if d' \<noteq> 0 then split_loop op src r (cur @ [c]) d' None parts
            else if c = 63 then Some [trim src]
            else if starts_with (c # r) op then
              (if op = [] then None
               else split_loop op src (drop (length op) (c # r)) [] d' None (parts @ [trim cur]))
            else split_loop op src r (cur @ [c]) d' None parts)"
  by pat_completeness auto
termination
  by (relation "measure (\<lambda>(op, src, rest, cur, d, q, parts). length rest)") auto

declare split_loop.simps [simp del]

definition splitExpressionAtTopLevel :: "jsstring \<Rightarrow> jsstring \<Rightarrow> jsstring list option" where
  "splitExpressionAtTopLevel src op = split_loop op src src [] 0 None []"

section \<open>Removing parentheses\<close>

text \<open>The text after the first unit at which the bracket count is zero; \<open>None\<close> if there is none.\<close>

function scan_close :: "jsstring \<Rightarrow> int \<Rightarrow> code_unit option \<Rightarrow> jsstring option" where
  "scan_close [] d q = None"
| "scan_close (c # r) d q =
     (case q of
        Some quote \<Rightarrow> if c = 92 then scan_close (tl r) d q else scan_close r d (if c = quote then None else q)
      | None \<Rightarrow>
          if is_quote c then scan_close r d (Some c)
          else let d' = (if c = 40 then d + 1 else if c = 41 then d - 1 else d)
               in if d' = 0 then Some r else scan_close r d' None)"
  by pat_completeness auto
termination
  by (relation "measure (\<lambda>(s, d, q). length s)") auto

declare scan_close.simps [simp del]

definition closes_at_end :: "jsstring \<Rightarrow> bool" where
  "closes_at_end s \<longleftrightarrow> scan_close s 0 None = Some []"

definition in_parens :: "jsstring \<Rightarrow> bool" where
  "in_parens s \<longleftrightarrow> s \<noteq> [] \<and> hd s = 40 \<and> last s = 41"

definition inner_text :: "jsstring \<Rightarrow> jsstring" where
  "inner_text s = butlast (tl s)"

lemma length_trim: "length (trim s) \<le> length s"
  using length_dropWhile_le [of is_space s] length_dropWhile_le [of is_space "rev (dropWhile is_space s)"]
  by (simp add: trim_def trim_start_def trim_end_def)

lemma in_parens_length: "in_parens s \<Longrightarrow> 2 \<le> length s"
  by (cases s rule: remdups_adj.cases) (auto simp: in_parens_def)

function unwrap_loop :: "jsstring \<Rightarrow> jsstring" where
  "unwrap_loop s = (if in_parens s \<and> closes_at_end s then unwrap_loop (trim (inner_text s)) else s)"
  by auto
termination
proof (relation "measure length", goal_cases)
  case (2 s)
  then have "2 \<le> length s" by (simp add: in_parens_length)
  moreover have "length (trim (inner_text s)) \<le> length s - 2" using length_trim [of "inner_text s"] by (simp add: inner_text_def)
  ultimately show ?case by simp
qed simp

declare unwrap_loop.simps [simp del]

definition unwrapExpressionParens :: "jsstring \<Rightarrow> jsstring" where
  "unwrapExpressionParens src = unwrap_loop (trim src)"

section \<open>Nothing is lost\<close>

text \<open>The parts of a split are the trimmed pieces of a text cut at the operator.\<close>

lemma join_snoc: "ps \<noteq> [] \<Longrightarrow> join op (ps @ [p]) = join op ps @ op @ p"
  by (induction op ps rule: join.induct) auto

lemma join_last_append: "join op (ws @ [w @ x]) = join op (ws @ [w]) @ x"
  by (cases "ws = []") (simp_all add: join_snoc)

lemma split_loop_lossless:
  "op \<noteq> [] \<Longrightarrow> parts = map trim ws \<Longrightarrow> join op (ws @ [cur]) @ rest = src \<Longrightarrow>
     \<exists>ps. split_loop op src rest cur d q parts = Some ps \<and>
       (ps = [trim src] \<or> (\<exists>raw. join op raw = src \<and> ps = filter (\<lambda>p. p \<noteq> []) (map trim raw)))"
proof (induction op src rest cur d q parts arbitrary: ws rule: split_loop.induct)
  case (1 op src cur d q parts)
  then show ?case by (auto simp: split_loop.simps intro!: exI [of _ "ws @ [cur]"])
next
  case (2 op src c r cur d q parts)
  have step: "join op (ws @ [cur @ x]) @ y = src" if "x @ y = c # r" for x y
    using "2.prems"(3) that by (simp add: join_last_append)
  have cut: "join op ((ws @ [cur]) @ [[]]) @ drop (length op) (c # r) = src" if "starts_with (c # r) op"
  proof -
    have "op @ drop (length op) (c # r) = c # r" using that by (auto simp: starts_with_iff prefix_def)
    moreover have "join op ((ws @ [cur]) @ [[]]) = join op (ws @ [cur]) @ op" by (subst join_snoc) simp_all
    ultimately show ?thesis using "2.prems"(3) by (simp del: append_assoc add: append_assoc [symmetric]) simp
  qed
  show ?case
  proof (cases q)
    case (Some quote)
    show ?thesis
    proof (cases "c = 92")
      case True
      have "take 1 r @ tl r = r" by (cases r) auto
      then show ?thesis using "2.IH"(5) [OF Some True "2.prems"(1,2)] step [of "c # take 1 r" "tl r"] Some True
        by (simp add: split_loop.simps)
    next
      case False
      then show ?thesis using "2.IH"(6) [OF Some False "2.prems"(1,2)] step [of "[c]" r] Some
        by (subst split_loop.simps) (simp split del: if_split)
    qed
  next
    case None
    show ?thesis
    proof (cases "is_quote c")
      case True
      then show ?thesis using "2.IH"(1) [OF None True "2.prems"(1,2)] step [of "[c]" r] None
        by (simp add: split_loop.simps)
    next
      case q: False
      show ?thesis
      proof (cases "d + bracket_delta c \<noteq> 0")
        case True
        then show ?thesis using "2.IH"(2) [OF None q refl True "2.prems"(1,2)] step [of "[c]" r] None q
          by (simp add: split_loop.simps)
      next
        case d: False
        consider "c = 63" | "c \<noteq> 63" "starts_with (c # r) op" | "c \<noteq> 63" "\<not> starts_with (c # r) op" by blast
        then show ?thesis
        proof cases
          case 1
          with None q d show ?thesis by (simp add: split_loop.simps)
        next
          case 2
          show ?thesis
            using "2.IH"(3) [OF None q refl d 2 "2.prems"(1) "2.prems"(1), of "ws @ [cur]"] cut [OF 2(2)] None q d 2 "2.prems"
            by (simp add: split_loop.simps)
        next
          case 3
          show ?thesis using "2.IH"(4) [OF None q refl d 3 "2.prems"(1,2)] step [of "[c]" r] None q d 3
            by (simp add: split_loop.simps)
        qed
      qed
    qed
  qed
qed

lemma split_lossless:
  assumes "op \<noteq> []"
  shows "\<exists>ps. splitExpressionAtTopLevel src op = Some ps \<and>
    (ps = [trim src] \<or> (\<exists>raw. join op raw = src \<and> ps = filter (\<lambda>p. p \<noteq> []) (map trim raw)))"
  unfolding splitExpressionAtTopLevel_def by (rule split_loop_lossless [where ws = "[]"]) (use assms in simp_all)

text \<open>Unwrapping only removes pairs of parentheses and the white space around them.\<close>

inductive wrapped :: "jsstring \<Rightarrow> jsstring \<Rightarrow> bool" where
  wrapped_trim: "trim s = t \<Longrightarrow> wrapped s t"
| wrapped_parens: "trim s = 40 # u @ [41] \<Longrightarrow> wrapped u t \<Longrightarrow> wrapped s t"

lemma wrapped_untrimmed: "wrapped (trim u) t \<Longrightarrow> wrapped u t"
  by (induction "trim u" t rule: wrapped.induct) (auto intro: wrapped.intros)

lemma in_parens_inner: "in_parens s \<Longrightarrow> s = 40 # inner_text s @ [41]"
proof -
  assume p: "in_parens s"
  then obtain c t where s: "s = c # t" "c = 40" "t \<noteq> []"
    using in_parens_length [OF p] by (cases s) (auto simp: in_parens_def split: if_splits)
  then have "last t = 41" using p by (simp add: in_parens_def)
  with s show ?thesis using append_butlast_last_id [of t] by (simp add: inner_text_def)
qed

lemma unwrap_loop_props:
  "trim s = s \<Longrightarrow> wrapped s (unwrap_loop s) \<and> trim (unwrap_loop s) = unwrap_loop s \<and>
     \<not> (in_parens (unwrap_loop s) \<and> closes_at_end (unwrap_loop s))"
proof (induction s rule: unwrap_loop.induct)
  case (1 s)
  show ?case
  proof (cases "in_parens s \<and> closes_at_end s")
    case True
    have IH: "wrapped (trim (inner_text s)) (unwrap_loop (trim (inner_text s))) \<and>
        trim (unwrap_loop (trim (inner_text s))) = unwrap_loop (trim (inner_text s)) \<and>
        \<not> (in_parens (unwrap_loop (trim (inner_text s))) \<and> closes_at_end (unwrap_loop (trim (inner_text s))))"
      using "1.IH" [OF True] by simp
    have "trim s = 40 # inner_text s @ [41]" using in_parens_inner True "1.prems" by simp
    with IH wrapped_untrimmed have "wrapped s (unwrap_loop (trim (inner_text s)))" by (blast intro: wrapped_parens)
    with IH True show ?thesis by (simp add: unwrap_loop.simps [of s])
  next
    case False
    with "1.prems" show ?thesis by (auto simp: unwrap_loop.simps [of s] intro: wrapped_trim)
  qed
qed

lemma unwrap_props:
  "wrapped s (unwrapExpressionParens s)" "trim (unwrapExpressionParens s) = unwrapExpressionParens s"
  "unwrapExpressionParens (unwrapExpressionParens s) = unwrapExpressionParens s"
proof -
  have p: "wrapped (trim s) (unwrap_loop (trim s)) \<and> trim (unwrap_loop (trim s)) = unwrap_loop (trim s) \<and>
     \<not> (in_parens (unwrap_loop (trim s)) \<and> closes_at_end (unwrap_loop (trim s)))"
    by (rule unwrap_loop_props) simp
  from p wrapped_untrimmed show "wrapped s (unwrapExpressionParens s)" by (simp add: unwrapExpressionParens_def)
  from p show t: "trim (unwrapExpressionParens s) = unwrapExpressionParens s" by (simp add: unwrapExpressionParens_def)
  from p have "unwrap_loop (unwrapExpressionParens s) = unwrapExpressionParens s"
    by (subst unwrap_loop.simps) (auto simp: unwrapExpressionParens_def)
  with t show "unwrapExpressionParens (unwrapExpressionParens s) = unwrapExpressionParens s"
    by (simp add: unwrapExpressionParens_def)
qed

end
