(* ===== verification/RequestRules.thy ===== *)
theory RequestRules
  imports Display Structure JsJson
begin

text \<open>
  The request rules of the pricing editor (the second half of \<open>pricing/lib/billing-expr.ts\<close>):
  conditions on the request or the clock, their printing as factors of a billing expression,
  and the recognition of such factors by regular expressions.  A condition of the editor may
  lack properties, which is what \<open>partial_condition\<close> is for.  A function that may throw
  returns a sum.
\<close>

section \<open>Conditions\<close>

definition SOURCE_PARAM :: jsstring where "SOURCE_PARAM = js ''param''"
definition SOURCE_HEADER :: jsstring where "SOURCE_HEADER = js ''header''"
definition SOURCE_TIME :: jsstring where "SOURCE_TIME = js ''time''"
definition MATCH_EQ :: jsstring where "MATCH_EQ = js ''eq''"
definition MATCH_CONTAINS :: jsstring where "MATCH_CONTAINS = js ''contains''"
definition MATCH_GT :: jsstring where "MATCH_GT = js ''gt''"
definition MATCH_GTE :: jsstring where "MATCH_GTE = js ''gte''"
definition MATCH_LT :: jsstring where "MATCH_LT = js ''lt''"
definition MATCH_LTE :: jsstring where "MATCH_LTE = js ''lte''"
definition MATCH_EXISTS :: jsstring where "MATCH_EXISTS = js ''exists''"
definition MATCH_RANGE :: jsstring where "MATCH_RANGE = js ''range''"

lemmas match_modes = MATCH_EQ_def MATCH_CONTAINS_def MATCH_GT_def MATCH_GTE_def MATCH_LT_def MATCH_LTE_def
  MATCH_EXISTS_def MATCH_RANGE_def

definition TIME_FUNCS :: "jsstring list" where
  "TIME_FUNCS = map js [''hour'', ''minute'', ''weekday'', ''month'', ''day'']"

definition COMMON_TIMEZONES :: "(jsstring \<times> jsstring) list" where
  "COMMON_TIMEZONES = map (\<lambda>(v, l). (js v, js l))
     [(''Asia/Shanghai'', ''UTC+8 Shanghai (Asia/Shanghai)''), (''UTC'', ''UTC''),
      (''America/New_York'', ''UTC-5 New York (America/New_York)''),
      (''America/Los_Angeles'', ''UTC-8 Los Angeles (America/Los_Angeles)''),
      (''America/Chicago'', ''UTC-6 Chicago (America/Chicago)''), (''Europe/London'', ''UTC+0 London (Europe/London)''),
      (''Europe/Berlin'', ''UTC+1 Berlin (Europe/Berlin)''), (''Asia/Tokyo'', ''UTC+9 Tokyo (Asia/Tokyo)''),
      (''Asia/Singapore'', ''UTC+8 Singapore (Asia/Singapore)''), (''Asia/Seoul'', ''UTC+9 Seoul (Asia/Seoul)''),
      (''Australia/Sydney'', ''UTC+10 Sydney (Australia/Sydney)'')]"

datatype value_source = From_param | From_header

record time_condition =
  rc_func :: jsstring
  rc_zone :: jsstring
  rc_mode :: jsstring
  rc_value :: jsstring
  rc_start :: jsstring
  rc_end :: jsstring

record value_condition =
  vc_source :: value_source
  vc_path :: jsstring
  vc_mode :: jsstring
  vc_value :: jsstring

datatype request_condition = Time_condition time_condition | Value_condition value_condition

record rule_group =
  rg_conditions :: "request_condition list"
  rg_multiplier :: jsstring
  rg_conditionText :: "jsstring option"
  rg_matched :: "bool option"

record rule_trace =
  rt_cond :: jsstring
  rt_multiplier :: js_number
  rt_matched :: bool

section \<open>Patterns\<close>

definition is_number_unit :: "code_unit \<Rightarrow> bool" where
  "is_number_unit c \<longleftrightarrow> is_digit c \<or> c \<in> {46, 101, 69, 43, 45}"

definition NUMERIC_LITERAL_REGEX :: regex where
  "NUMERIC_LITERAL_REGEX =
     R_seq [R_opt (R_text (js ''-'')),
            R_alt (R_seq [R_plus (R_class is_digit), R_opt (R_text (js ''.'')), R_many (R_class is_digit)])
                  (R_cat (R_text (js ''.'')) (R_plus (R_class is_digit))),
            R_opt (R_seq [R_class (\<lambda>c. c = 101 \<or> c = 69), R_opt (R_class (\<lambda>c. c = 43 \<or> c = 45)), R_plus (R_class is_digit)]),
            R_end]"

definition is_numeric :: "jsstring \<Rightarrow> bool" where
  "is_numeric s \<longleftrightarrow> exec NUMERIC_LITERAL_REGEX s \<noteq> None"

text \<open>The parts that the patterns of the conditions share.\<close>

definition R_time_func :: regex where
  "R_time_func = R_group 1 (R_any (map R_text TIME_FUNCS))"

definition R_numbers :: "nat \<Rightarrow> regex" where
  "R_numbers n = R_group n (R_plus (R_class is_number_unit))"

definition R_unquoted :: "nat \<Rightarrow> regex" where
  "R_unquoted n = R_group n (R_plus (R_class (\<lambda>c. c \<noteq> 34)))"

definition R_quoted :: "nat \<Rightarrow> regex" where
  "R_quoted n =
     R_group n (R_seq [R_text [34],
       R_many (R_alt (R_class (\<lambda>c. c \<noteq> 34 \<and> c \<noteq> 92)) (R_cat (R_text [92]) (R_class (\<lambda>c. c \<notin> {10, 13, 8232, 8233})))),
       R_text [34]])"

definition time_range_body :: "regex \<Rightarrow> regex" where
  "time_range_body tail =
     R_seq [R_time_func, R_text (js ''('' @ [34]), R_unquoted 2, R_text ([34] @ js '') >= ''), R_numbers 3, R_text (js '' ''),
            R_alt (R_text (js ''&&'')) (R_text (js ''||'')), R_text (js '' ''), R_backref 1, R_text (js ''('' @ [34]), R_backref 2,
            R_text ([34] @ js '') < ''), R_numbers 4, tail]"

definition time_range_pattern :: regex where
  "time_range_pattern = time_range_body R_end"

definition wrapped_time_range_pattern :: regex where
  "wrapped_time_range_pattern = R_cat (R_text (js ''('')) (time_range_body (R_cat (R_text (js '')'')) R_end))"

definition time_scalar_pattern :: regex where
  "time_scalar_pattern =
     R_seq [R_time_func, R_text (js ''('' @ [34]), R_unquoted 2, R_text ([34] @ js '') ''),
            R_group 3 (R_any [R_text (js ''==''), R_text (js ''>=''), R_text (js ''<'')]), R_text (js '' ''), R_numbers 4, R_end]"

section \<open>Recognising conditions\<close>

definition splitTopLevelMultiply :: "jsstring \<Rightarrow> jsstring list" where
  "splitTopLevelMultiply expr = (case splitExpressionAtTopLevel expr (js ''*'') of Some ps \<Rightarrow> ps | None \<Rightarrow> [])"

definition splitTopLevelAnd :: "jsstring \<Rightarrow> jsstring list" where
  "splitTopLevelAnd expr = (case splitExpressionAtTopLevel expr (js ''&&'') of Some ps \<Rightarrow> ps | None \<Rightarrow> [])"

text \<open>\<open>null\<close> stands for a text that is no literal, as it does in the source.\<close>

definition parseExprLiteral :: "jsstring \<Rightarrow> json" where
  "parseExprLiteral raw =
     (let text' = trim raw in
      if text' = js ''true'' \<or> text' = js ''false'' then J_string text'
      else if is_numeric text' then J_string text'
      else case json_parse text' of Some v \<Rightarrow> v | None \<Rightarrow> J_null)"

definition TIME_FUNC_RANGES :: "(jsstring \<times> int \<times> int) list" where
  "TIME_FUNC_RANGES = [(js ''hour'', 0, 23), (js ''minute'', 0, 59), (js ''weekday'', 0, 6), (js ''month'', 1, 12), (js ''day'', 1, 31)]"

definition isTimeValueInRange :: "jsstring \<Rightarrow> jsstring \<Rightarrow> bool" where
  "isTimeValueInRange timeFunc text' \<longleftrightarrow>
     is_numeric text' \<and>
     (let value = js_Number text' in
      is_integer value \<and>
      (case map_of TIME_FUNC_RANGES timeFunc of
         Some (lo, hi) \<Rightarrow> js_le (num lo) value \<and> js_le value (num hi)
       | None \<Rightarrow> False))"

definition scalar_modes :: "(jsstring \<times> jsstring) list" where
  "scalar_modes = [(js ''=='', MATCH_EQ), (js ''>='', MATCH_GTE), (js ''<'', MATCH_LT)]"

definition tryParseTimeCondition :: "jsstring \<Rightarrow> time_condition option" where
  "tryParseTimeCondition expr =
     (let range = (case exec time_range_pattern expr of None \<Rightarrow> exec wrapped_time_range_pattern expr | Some m \<Rightarrow> Some m) in
      case range of
        Some m \<Rightarrow>
          if \<not> isTimeValueInRange (capture m 1) (capture m 3) \<or> \<not> isTimeValueInRange (capture m 1) (capture m 4) then None
          else Some \<lparr>rc_func = capture m 1, rc_zone = capture m 2, rc_mode = MATCH_RANGE, rc_value = [],
                     rc_start = capture m 3, rc_end = capture m 4\<rparr>
      | None \<Rightarrow>
          (case exec time_scalar_pattern expr of
             None \<Rightarrow> None
           | Some m \<Rightarrow>
               if \<not> isTimeValueInRange (capture m 1) (capture m 4) then None
               else Some \<lparr>rc_func = capture m 1, rc_zone = capture m 2,
                          rc_mode = (case map_of scalar_modes (capture m 3) of Some v \<Rightarrow> v | None \<Rightarrow> MATCH_EQ),
                          rc_value = capture m 4, rc_start = [], rc_end = []\<rparr>))"

definition header_exists_pattern :: regex where
  "header_exists_pattern = R_seq [R_text (js ''header('' @ [34]), R_unquoted 1, R_text ([34] @ js '') != '' @ [34, 34]), R_end]"

definition param_exists_pattern :: regex where
  "param_exists_pattern = R_seq [R_text (js ''param('' @ [34]), R_unquoted 1, R_text ([34] @ js '') != nil''), R_end]"

definition header_contains_pattern :: regex where
  "header_contains_pattern =
     R_seq [R_text (js ''has(header('' @ [34]), R_unquoted 1, R_text ([34] @ js ''), ''), R_quoted 2, R_text (js '')''), R_end]"

definition param_contains_pattern :: regex where
  "param_contains_pattern =
     R_seq [R_text (js ''param('' @ [34]), R_unquoted 1, R_text ([34] @ js '') != nil && has(param('' @ [34]), R_unquoted 2,
            R_text ([34] @ js ''), ''), R_quoted 3, R_text (js '')''), R_end]"

definition param_compare_pattern :: regex where
  "param_compare_pattern =
     R_seq [R_text (js ''param('' @ [34]), R_unquoted 1, R_text ([34] @ js '') != nil && param('' @ [34]), R_unquoted 2,
            R_text ([34] @ js '') ''), R_group 3 (R_any (map (\<lambda>op. R_text (js op)) [''>'', ''>='', ''<'', ''<=''])),
            R_text (js '' ''), R_numbers 4, R_end]"

definition equals_pattern :: regex where
  "equals_pattern =
     R_seq [R_group 1 (R_alt (R_text SOURCE_PARAM) (R_text SOURCE_HEADER)), R_text (js ''('' @ [34]), R_unquoted 2,
            R_text ([34] @ js '') == ''), R_group 3 (R_plus (R_class (\<lambda>c. c \<notin> {10, 13, 8232, 8233}))), R_end]"

definition compare_modes :: "(jsstring \<times> jsstring) list" where
  "compare_modes = [(js ''>'', MATCH_GT), (js ''>='', MATCH_GTE), (js ''<'', MATCH_LT), (js ''<='', MATCH_LTE)]"

definition json_error :: thrown where
  "json_error = OtherError (js ''JSON.parse'')"

text \<open>\<open>JSON.parse\<close> of a matched string literal, which throws for an escape that JSON does not have.\<close>

definition contains_condition :: "value_source \<Rightarrow> jsstring \<Rightarrow> jsstring \<Rightarrow> thrown + request_condition option" where
  "contains_condition src path literal =
     (case json_parse literal of
        Some (J_string v) \<Rightarrow>
          Inr (Some (Value_condition \<lparr>vc_source = src, vc_path = path, vc_mode = MATCH_CONTAINS, vc_value = v\<rparr>))
      | _ \<Rightarrow> Inl json_error)"

definition parse_equals :: "jsstring \<Rightarrow> thrown + request_condition option" where
  "parse_equals expr =
     (case exec equals_pattern expr of
        None \<Rightarrow> Inr None
      | Some m \<Rightarrow>
          let v = parseExprLiteral (capture m 3) in
          if v = J_null then Inr None
          else Inr (Some (Value_condition
                 \<lparr>vc_source = (if capture m 1 = SOURCE_PARAM then From_param else From_header), vc_path = capture m 2,
                  vc_mode = MATCH_EQ, vc_value = js_String_json v\<rparr>)))"

definition parse_compare :: "jsstring \<Rightarrow> thrown + request_condition option" where
  "parse_compare expr =
     (case exec param_compare_pattern expr of
        Some m \<Rightarrow>
          if capture m 1 = capture m 2 then
            Inr (Some (Value_condition \<lparr>vc_source = From_param, vc_path = capture m 1,
              vc_mode = (case map_of compare_modes (capture m 3) of Some v \<Rightarrow> v | None \<Rightarrow> []), vc_value = capture m 4\<rparr>))
          else parse_equals expr
      | None \<Rightarrow> parse_equals expr)"

definition tryParseRequestCondition :: "jsstring \<Rightarrow> thrown + request_condition option" where
  "tryParseRequestCondition expr =
     (case tryParseTimeCondition expr of
        Some t \<Rightarrow> Inr (Some (Time_condition t))
      | None \<Rightarrow>
     (case exec header_exists_pattern expr of
        Some m \<Rightarrow> Inr (Some (Value_condition
          \<lparr>vc_source = From_header, vc_path = capture m 1, vc_mode = MATCH_EXISTS, vc_value = []\<rparr>))
      | None \<Rightarrow>
     (case exec param_exists_pattern expr of
        Some m \<Rightarrow> Inr (Some (Value_condition
          \<lparr>vc_source = From_param, vc_path = capture m 1, vc_mode = MATCH_EXISTS, vc_value = []\<rparr>))
      | None \<Rightarrow>
     (case exec header_contains_pattern expr of
        Some m \<Rightarrow> contains_condition From_header (capture m 1) (capture m 2)
      | None \<Rightarrow>
     (case exec param_contains_pattern expr of
        Some m \<Rightarrow>
          if capture m 1 = capture m 2 then contains_condition From_param (capture m 1) (capture m 3) else parse_compare expr
      | None \<Rightarrow> parse_compare expr)))))"

definition tryParseTimeRangePair :: "jsstring \<Rightarrow> jsstring \<Rightarrow> time_condition option" where
  "tryParseTimeRangePair lower upper =
     (case (tryParseTimeCondition lower, tryParseTimeCondition upper) of
        (Some a, Some b) \<Rightarrow>
          if rc_func a \<noteq> rc_func b \<or> rc_zone a \<noteq> rc_zone b then None
          else if rc_mode a \<noteq> MATCH_GTE \<or> rc_mode b \<noteq> MATCH_LT then None
          else Some \<lparr>rc_func = rc_func a, rc_zone = rc_zone a, rc_mode = MATCH_RANGE, rc_value = [],
                     rc_start = rc_value a, rc_end = rc_value b\<rparr>
      | _ \<Rightarrow> None)"

fun parse_and_parts :: "jsstring list \<Rightarrow> request_condition list \<Rightarrow> thrown + request_condition list option" where
  "parse_and_parts [] conditions = Inr (if conditions = [] then None else Some conditions)"
| "parse_and_parts (p # ps) conditions =
     (let part = trim p;
          next = (case ps of q # _ \<Rightarrow> trim q | [] \<Rightarrow> []);
          merged = (if next \<noteq> [] then tryParseTimeRangePair part next else None)
      in case merged of
           Some c \<Rightarrow> parse_and_parts (tl ps) (conditions @ [Time_condition c])
         | None \<Rightarrow>
             rbind (tryParseRequestCondition part) (\<lambda>r.
               case r of None \<Rightarrow> Inr None | Some c \<Rightarrow> parse_and_parts ps (conditions @ [c])))"

definition tryParseRequestConditions :: "jsstring \<Rightarrow> thrown + request_condition list option" where
  "tryParseRequestConditions conditionStr =
     (case tryParseTimeCondition (trim conditionStr) of
        Some c \<Rightarrow> Inr (Some [Time_condition c])
      | None \<Rightarrow> parse_and_parts (splitTopLevelAnd conditionStr) [])"

definition rule_factor_pattern :: regex where
  "rule_factor_pattern =
     R_seq [R_text (js ''(''), R_group 1 (R_plus (R_class (\<lambda>_. True))), R_text (js '' ? ''), R_numbers 2, R_text (js '' : 1)''), R_end]"

definition tryParseRuleGroupFactor :: "jsstring \<Rightarrow> thrown + rule_group option" where
  "tryParseRuleGroupFactor part =
     (case exec rule_factor_pattern part of
        None \<Rightarrow> Inr None
      | Some m \<Rightarrow>
          rbind (tryParseRequestConditions (capture m 1)) (\<lambda>r.
            Inr (map_option (\<lambda>cs. \<lparr>rg_conditions = cs, rg_multiplier = capture m 2, rg_conditionText = None, rg_matched = None\<rparr>) r)))"

definition requestRuleGroupsFromTrace :: "rule_trace list \<Rightarrow> thrown + rule_group list" where
  "requestRuleGroupsFromTrace rules =
     rmap (\<lambda>rule.
       let conditionText = trim (rt_cond rule) in
       rbind (tryParseRequestConditions conditionText) (\<lambda>r.
         Inr \<lparr>rg_conditions = (case r of Some cs \<Rightarrow> cs | None \<Rightarrow> []), rg_multiplier = js_String (rt_multiplier rule),
              rg_conditionText = Some conditionText, rg_matched = Some (rt_matched rule)\<rparr>)) rules"

fun parse_factors :: "jsstring list \<Rightarrow> rule_group list \<Rightarrow> thrown + rule_group list option" where
  "parse_factors [] groups = Inr (Some groups)"
| "parse_factors (p # ps) groups =
     rbind (tryParseRuleGroupFactor p) (\<lambda>r.
       case r of None \<Rightarrow> Inr None | Some g \<Rightarrow> parse_factors ps (groups @ [g]))"

definition tryParseRequestRuleExpr :: "jsstring \<Rightarrow> thrown + rule_group list option" where
  "tryParseRequestRuleExpr expr =
     (let trimmed = trim expr in
      if trimmed = [] then Inr (Some []) else parse_factors (splitTopLevelMultiply trimmed) [])"

section \<open>Splitting off and putting back the rules\<close>

text \<open>The parts of a product: those that are rules and the others, with the cache of the compiler.\<close>

fun sort_parts :: "jsstring list \<Rightarrow> jsstring list \<Rightarrow> jsstring list \<Rightarrow> compile_cache
    \<Rightarrow> (thrown + jsstring list \<times> jsstring list) \<times> compile_cache" where
  "sort_parts [] ruleParts baseParts cache = (Inr (ruleParts, baseParts), cache)"
| "sort_parts (p # ps) ruleParts baseParts cache =
     (case tryParseRequestRuleExpr p of
        Inl e \<Rightarrow> (Inl e, cache)
      | Inr parsed \<Rightarrow>
          let (r, cache') = compileBillingExpression p cache;
              traced = (case r of Ready c \<Rightarrow> \<exists>rule \<in> set (requestRules c). rule_node rule = ast c | Failed _ \<Rightarrow> False);
              is_rule = (case parsed of Some gs \<Rightarrow> gs \<noteq> [] | None \<Rightarrow> False)
          in if is_rule \<or> traced then sort_parts ps (ruleParts @ [p]) baseParts cache'
             else sort_parts ps ruleParts (baseParts @ [p]) cache')"

definition unwrapOuterParens :: "jsstring \<Rightarrow> jsstring" where
  "unwrapOuterParens expr = unwrapExpressionParens expr"

text \<open>The billing expression and the request rules.\<close>

definition splitBillingExprAndRequestRules ::
    "jsstring \<Rightarrow> compile_cache \<Rightarrow> (thrown + jsstring \<times> jsstring) \<times> compile_cache" where
  "splitBillingExprAndRequestRules expr cache =
     (let trimmed = trim expr in
      if trimmed = [] then (Inr ([], []), cache)
      else
        let parts = splitTopLevelMultiply trimmed in
        if length parts \<le> 1 then (Inr (trimmed, []), cache)
        else
          case sort_parts parts [] [] cache of
            (Inl e, cache') \<Rightarrow> (Inl e, cache')
          | (Inr (ruleParts, baseParts), cache') \<Rightarrow>
              let quantityParts = filter (\<lambda>part. unwrapOuterParens part = js ''image_count'') baseParts in
              (Inr (if ruleParts = [] \<or> int (length baseParts) - int (length quantityParts) \<noteq> 1 then (trimmed, [])
                    else (join (js '' * '') (map unwrapOuterParens baseParts), join (js '' * '') ruleParts)), cache'))"

definition combineBillingExpr :: "jsstring \<Rightarrow> jsstring \<Rightarrow> jsstring" where
  "combineBillingExpr baseExpr requestRuleExpr =
     (let base = trim baseExpr; rules = trim requestRuleExpr in
      if base = [] then [] else if rules = [] then base else js ''('' @ base @ js '') * '' @ rules)"

section \<open>Conditions of the editor\<close>

definition createEmptyCondition :: value_condition where
  "createEmptyCondition = \<lparr>vc_source = From_param, vc_path = [], vc_mode = MATCH_EQ, vc_value = []\<rparr>"

definition createEmptyTimeCondition :: time_condition where
  "createEmptyTimeCondition =
     \<lparr>rc_func = js ''hour'', rc_zone = js ''Asia/Shanghai'', rc_mode = MATCH_GTE, rc_value = [], rc_start = [], rc_end = []\<rparr>"

definition createEmptyRuleGroup :: rule_group where
  "createEmptyRuleGroup =
     \<lparr>rg_conditions = [Value_condition createEmptyCondition], rg_multiplier = [], rg_conditionText = None, rg_matched = None\<rparr>"

definition createEmptyTimeRuleGroup :: rule_group where
  "createEmptyTimeRuleGroup =
     \<lparr>rg_conditions = [Time_condition createEmptyTimeCondition], rg_multiplier = [], rg_conditionText = None, rg_matched = None\<rparr>"

definition getRequestRuleMatchOptions :: "jsstring \<Rightarrow> (jsstring \<times> jsstring) list" where
  "getRequestRuleMatchOptions src =
     (if src = SOURCE_TIME then
        [(MATCH_EQ, js ''Equals''), (MATCH_GTE, js ''Greater than or equal''), (MATCH_LT, js ''Less than''),
         (MATCH_RANGE, js ''Overnight range'')]
      else
        let base = [(MATCH_EQ, js ''Equals''), (MATCH_CONTAINS, js ''Contains''), (MATCH_EXISTS, js ''Exists'')] in
        if src = SOURCE_HEADER then base
        else base @ [(MATCH_GT, js ''Greater than''), (MATCH_GTE, js ''Greater than or equal''), (MATCH_LT, js ''Less than''),
                     (MATCH_LTE, js ''Less than or equal'')])"

definition isTimeFunc :: "jsstring option \<Rightarrow> bool" where
  "isTimeFunc v \<longleftrightarrow> (case v of Some f \<Rightarrow> f \<in> set TIME_FUNCS | None \<Rightarrow> False)"

record partial_condition =
  pc_source :: "jsstring option"
  pc_timeFunc :: "jsstring option"
  pc_timezone :: "jsstring option"
  pc_path :: "jsstring option"
  pc_mode :: "jsstring option"
  pc_value :: "jsstring option"
  pc_rangeStart :: "jsstring option"
  pc_rangeEnd :: "jsstring option"

definition or_empty :: "jsstring option \<Rightarrow> jsstring" where
  "or_empty v = (case v of Some s \<Rightarrow> s | None \<Rightarrow> [])"

definition allowed_mode :: "jsstring \<Rightarrow> jsstring option \<Rightarrow> jsstring \<Rightarrow> jsstring" where
  "allowed_mode src mode fallback =
     (case mode of
        Some m \<Rightarrow> if m \<in> fst ` set (getRequestRuleMatchOptions src) then m else fallback
      | None \<Rightarrow> fallback)"

definition normalizeCondition :: "partial_condition \<Rightarrow> request_condition" where
  "normalizeCondition c =
     (if pc_source c = Some SOURCE_TIME then
        Time_condition
          \<lparr>rc_func = (if isTimeFunc (pc_timeFunc c) then or_empty (pc_timeFunc c) else js ''hour''),
           rc_zone = (if or_empty (pc_timezone c) = [] then js ''Asia/Shanghai'' else or_empty (pc_timezone c)),
           rc_mode = allowed_mode SOURCE_TIME (pc_mode c) MATCH_GTE,
           rc_value = or_empty (pc_value c), rc_start = or_empty (pc_rangeStart c), rc_end = or_empty (pc_rangeEnd c)\<rparr>
      else
        let header = (pc_source c = Some SOURCE_HEADER) in
        Value_condition
          \<lparr>vc_source = (if header then From_header else From_param), vc_path = or_empty (pc_path c),
           vc_mode = allowed_mode (if header then SOURCE_HEADER else SOURCE_PARAM) (pc_mode c) MATCH_EQ,
           vc_value = or_empty (pc_value c)\<rparr>)"

text \<open>A complete condition as the argument of \<open>normalizeCondition\<close>.\<close>

definition partial_time :: "time_condition \<Rightarrow> partial_condition" where
  "partial_time c =
     \<lparr>pc_source = Some SOURCE_TIME, pc_timeFunc = Some (rc_func c), pc_timezone = Some (rc_zone c), pc_path = None,
      pc_mode = Some (rc_mode c), pc_value = Some (rc_value c), pc_rangeStart = Some (rc_start c),
      pc_rangeEnd = Some (rc_end c)\<rparr>"

definition source_name :: "value_source \<Rightarrow> jsstring" where
  "source_name src = (case src of From_param \<Rightarrow> SOURCE_PARAM | From_header \<Rightarrow> SOURCE_HEADER)"

definition partial_value :: "value_condition \<Rightarrow> partial_condition" where
  "partial_value c =
     \<lparr>pc_source = Some (source_name (vc_source c)), pc_timeFunc = None, pc_timezone = None, pc_path = Some (vc_path c),
      pc_mode = Some (vc_mode c), pc_value = Some (vc_value c), pc_rangeStart = None, pc_rangeEnd = None\<rparr>"

section \<open>Printing conditions\<close>

definition buildExprLiteral :: "jsstring \<Rightarrow> jsstring \<Rightarrow> jsstring" where
  "buildExprLiteral mode value =
     (let text' = trim value in
      if mode = MATCH_CONTAINS then json_stringify text'
      else if text' = js ''true'' \<or> text' = js ''false'' then text'
      else if is_numeric text' then text'
      else json_stringify text')"

definition scalar_operators :: "(jsstring \<times> jsstring) list" where
  "scalar_operators = [(MATCH_EQ, js ''==''), (MATCH_GTE, js ''>=''), (MATCH_LT, js ''<'')]"

definition time_call :: "time_condition \<Rightarrow> jsstring" where
  "time_call c = rc_func c @ js ''('' @ json_stringify (rc_zone c) @ js '')''"

definition build_time :: "time_condition \<Rightarrow> jsstring" where
  "build_time c =
     (let fn = time_call c in
      if rc_mode c = MATCH_RANGE then
        let s = trim (rc_start c); e = trim (rc_end c) in
        if \<not> isTimeValueInRange (rc_func c) s \<or> \<not> isTimeValueInRange (rc_func c) e then []
        else if js_less (js_Number e) (js_Number s) then
          fn @ js '' >= '' @ s @ js '' || '' @ fn @ js '' < '' @ e
        else fn @ js '' >= '' @ s @ js '' && '' @ fn @ js '' < '' @ e
      else
        let v = trim (rc_value c) in
        if \<not> isTimeValueInRange (rc_func c) v then []
        else fn @ js '' '' @ (case map_of scalar_operators (rc_mode c) of Some op \<Rightarrow> op | None \<Rightarrow> js ''=='') @ js '' '' @ v)"

definition buildTimeConditionExpr :: "time_condition \<Rightarrow> jsstring" where
  "buildTimeConditionExpr c =
     (case normalizeCondition (partial_time c) of Time_condition t \<Rightarrow> build_time t | Value_condition _ \<Rightarrow> [])"

definition compare_operators :: "(jsstring \<times> jsstring) list" where
  "compare_operators = [(MATCH_GT, js ''>''), (MATCH_GTE, js ''>=''), (MATCH_LT, js ''<''), (MATCH_LTE, js ''<='')]"

definition source_call :: "value_source \<Rightarrow> jsstring \<Rightarrow> jsstring" where
  "source_call src path = source_name src @ js ''('' @ json_stringify path @ js '')''"

definition build_value :: "value_condition \<Rightarrow> jsstring" where
  "build_value c =
     (let path = trim (vc_path c); sourceExpr = source_call (vc_source c) path; mode = vc_mode c;
          header = (vc_source c = From_header) in
      if path = [] then []
      else if mode = MATCH_EXISTS then
        (if header then sourceExpr @ js '' != '' @ [34, 34] else sourceExpr @ js '' != nil'')
      else if mode = MATCH_CONTAINS then
        (if header then js ''has('' @ sourceExpr @ js '', '' @ buildExprLiteral mode (vc_value c) @ js '')''
         else sourceExpr @ js '' != nil && has('' @ sourceExpr @ js '', '' @ buildExprLiteral mode (vc_value c) @ js '')'')
      else case map_of compare_operators mode of
        Some op \<Rightarrow>
          let numText = trim (vc_value c) in
          if \<not> is_numeric numText then []
          else sourceExpr @ js '' != nil && '' @ sourceExpr @ js '' '' @ op @ js '' '' @ numText
      | None \<Rightarrow> sourceExpr @ js '' == '' @ buildExprLiteral mode (vc_value c))"

definition buildRequestConditionExpr :: "request_condition \<Rightarrow> jsstring" where
  "buildRequestConditionExpr c =
     (case c of
        Time_condition t \<Rightarrow> buildTimeConditionExpr t
      | Value_condition v \<Rightarrow>
          (case normalizeCondition (partial_value v) of Value_condition n \<Rightarrow> build_value n | Time_condition _ \<Rightarrow> []))"

definition buildRuleGroupFactor :: "rule_group \<Rightarrow> jsstring" where
  "buildRuleGroupFactor grp =
     (let multiplier = trim (rg_multiplier grp) in
      if \<not> is_numeric multiplier then []
      else
        let condExprs = filter (\<lambda>e. e \<noteq> []) (map buildRequestConditionExpr (rg_conditions grp)) in
        if condExprs = [] then []
        else
          let combined =
            (if length condExprs = 1 then hd condExprs
             else join (js '' && '') (map (\<lambda>e. if str_includes e (js '' || '') then js ''('' @ e @ js '')'' else e) condExprs))
          in js ''('' @ combined @ js '' ? '' @ multiplier @ js '' : 1)'')"

definition buildRequestRuleExpr :: "rule_group list \<Rightarrow> jsstring" where
  "buildRequestRuleExpr groups = join (js '' * '') (filter (\<lambda>e. e \<noteq> []) (map buildRuleGroupFactor groups))"

end
