(* ===== verification/PricingTiers.thy ===== *)
theory PricingTiers
  imports RequestRules
begin

text \<open>
  The registry of billing variables and the tiers of the pricing pages (the first half of
  \<open>pricing/lib/billing-expr.ts\<close>).  The price fields of a parsed tier are an association
  list from the name of the field.
\<close>

section \<open>Billing variables\<close>

record billing_var =
  bv_key :: jsstring
  bv_field :: "jsstring option"
  bv_tierField :: "jsstring option"
  bv_label :: jsstring
  bv_shortLabel :: jsstring
  bv_side :: jsstring
  bv_isBase :: bool
  bv_isConditionOnly :: bool
  bv_group :: "jsstring option"

definition price_var :: "string \<Rightarrow> string \<Rightarrow> string \<Rightarrow> string \<Rightarrow> string \<Rightarrow> string \<Rightarrow> bool \<Rightarrow> string option \<Rightarrow> billing_var" where
  "price_var key field tierField label short side isBase grp =
     \<lparr>bv_key = js key, bv_field = Some (js field), bv_tierField = Some (js tierField), bv_label = js label, bv_shortLabel = js short,
      bv_side = js side, bv_isBase = isBase, bv_isConditionOnly = False, bv_group = map_option js grp\<rparr>"

definition BILLING_VARS :: "billing_var list" where
  "BILLING_VARS =
     [price_var ''p'' ''inputPrice'' ''input_unit_cost'' ''Input price'' ''Input'' ''input'' True None,
      price_var ''c'' ''outputPrice'' ''output_unit_cost'' ''Completion price'' ''Output'' ''output'' True None,
      \<lparr>bv_key = js ''len'', bv_field = None, bv_tierField = None, bv_label = js ''Input length'', bv_shortLabel = js ''Length'',
       bv_side = js ''condition'', bv_isBase = False, bv_isConditionOnly = True, bv_group = None\<rparr>,
      price_var ''cr'' ''cacheReadPrice'' ''cache_read_unit_cost'' ''Cache read price'' ''Cache Read'' ''input'' False (Some ''cache''),
      price_var ''cc'' ''cacheCreatePrice'' ''cache_create_unit_cost'' ''Cache create price'' ''Cache Write'' ''input'' False (Some ''cache''),
      price_var ''img_cr'' ''imageCachePrice'' ''image_cache_unit_cost'' ''Image cache input price'' ''Image Cache'' ''input'' False (Some ''cache''),
      price_var ''cc1h'' ''cacheCreate1hPrice'' ''cache_create_1h_unit_cost'' ''Cache create (1h) price'' ''Cache Write (1h)'' ''input'' False (Some ''cache''),
      price_var ''img'' ''imagePrice'' ''image_unit_cost'' ''Image input price'' ''Image In'' ''input'' False (Some ''media''),
      price_var ''img_o'' ''imageOutputPrice'' ''image_output_unit_cost'' ''Image output price'' ''Image Out'' ''output'' False (Some ''media''),
      price_var ''ai'' ''audioInputPrice'' ''audio_input_unit_cost'' ''Audio input price'' ''Audio In'' ''input'' False (Some ''media''),
      price_var ''ao'' ''audioOutputPrice'' ''audio_output_unit_cost'' ''Audio output price'' ''Audio Out'' ''output'' False (Some ''media'')]"

definition BILLING_PRICING_VARS :: "billing_var list" where
  "BILLING_PRICING_VARS = filter (\<lambda>v. \<not> bv_isConditionOnly v) BILLING_VARS"

definition BILLING_CONDITION_VARS :: "jsstring list" where
  "BILLING_CONDITION_VARS = map bv_key (filter (\<lambda>v. bv_isBase v \<or> bv_isConditionOnly v) BILLING_VARS)"

definition BILLING_VAR_KEY_TO_FIELD :: "(jsstring \<times> jsstring) list" where
  "BILLING_VAR_KEY_TO_FIELD =
     map (\<lambda>v. (bv_key v, case bv_field v of Some f \<Rightarrow> f | None \<Rightarrow> js ''null'')) BILLING_PRICING_VARS"

definition BILLING_EXTRA_VARS :: "billing_var list" where
  "BILLING_EXTRA_VARS = filter (\<lambda>v. \<not> bv_isBase v \<and> \<not> bv_isConditionOnly v) BILLING_VARS"

text \<open>The tier field and the variable of an extra price.\<close>

definition BILLING_CACHE_VAR_MAP :: "(jsstring \<times> jsstring) list" where
  "BILLING_CACHE_VAR_MAP = map (\<lambda>v. (case bv_tierField v of Some f \<Rightarrow> f | None \<Rightarrow> js ''null'', bv_key v)) BILLING_EXTRA_VARS"

section \<open>Parsed tiers\<close>

record parsed_tier =
  pt_billingUnit :: "billing_unit option"
  pt_fixedPrice :: "js_number option"
  pt_conditionText :: "jsstring option"
  pt_imageCount :: bool
  pt_label :: jsstring
  pt_conditions :: "token_condition list"
  pt_fields :: price_table

text \<open>A variable without a field is filed under the text \<open>undefined\<close>, as an object would file it.\<close>

definition price_field :: "jsstring \<Rightarrow> jsstring" where
  "price_field key = (case map_of BILLING_VAR_KEY_TO_FIELD key of Some f \<Rightarrow> f | None \<Rightarrow> js ''undefined'')"

definition mapTokenTier :: "'a token_tier_scheme \<Rightarrow> parsed_tier" where
  "mapTokenTier t =
     (let request = (tt_billingUnit t = Some Unit_request) in
      \<lparr>pt_billingUnit = (if request then Some Unit_request else None),
       pt_fixedPrice = (if request then tt_fixedPrice t else None),
       pt_conditionText = (case tt_conditionText t of Some s \<Rightarrow> if s = [] then None else Some s | None \<Rightarrow> None),
       pt_imageCount = tt_imageCount t, pt_label = tt_label t, pt_conditions = tt_conditions t,
       pt_fields = fold (\<lambda>(k, price). om_set (price_field k) price) (tt_prices t) []\<rparr>)"

definition parseTiersFromExpr :: "platform \<Rightarrow> jsstring \<Rightarrow> compile_cache \<Rightarrow> (thrown + parsed_tier list) \<times> compile_cache" where
  "parseTiersFromExpr pf expr cache =
     (if expr = [] then (Inr [], cache)
      else
        let (r, cache') = compileBillingExpression expr cache in
        case r of
          Failed _ \<Rightarrow> (Inr [], cache')
        | Ready c \<Rightarrow>
            (case readTokenTierChain (ast c) of
               Some ts \<Rightarrow> (Inr (map mapTokenTier ts), cache')
             | None \<Rightarrow>
                 let (t, cache'') = readTimeTokenPricing pf expr None cache' in
                 (rbind t (\<lambda>p. Inr (case p of Some tp \<Rightarrow> map mapTokenTier (tp_tiers tp) | None \<Rightarrow> [])), cache'')))"

definition getCurrentTimePricingTiers ::
    "platform \<Rightarrow> jsstring \<Rightarrow> date \<Rightarrow> compile_cache \<Rightarrow> (thrown + parsed_tier list option) \<times> compile_cache" where
  "getCurrentTimePricingTiers pf expr now cache =
     (let (t, cache') = readTimeTokenPricing pf expr (Some now) cache in
      (rbind t (\<lambda>p. Inr (map_option (\<lambda>tp. map mapTokenTier (tp_currentTiers tp)) p)), cache'))"

definition parseTaskTiersFromExpr ::
    "jsstring \<Rightarrow> usage_schema option \<Rightarrow> bool \<Rightarrow> compile_cache \<Rightarrow> (thrown + task_tier list) \<times> compile_cache" where
  "parseTaskTiersFromExpr expr schema includeBoolean cache =
     (case schema of
        None \<Rightarrow> (Inr [], cache)
      | Some fs \<Rightarrow>
          if expr = [] \<or> fs = [] then (Inr [], cache)
          else
            case splitBillingExprAndRequestRules expr cache of
              (Inl e, cache') \<Rightarrow> (Inl e, cache')
            | (Inr (billingExpr, _), cache') \<Rightarrow>
                let (r, cache'') = compileBillingExpression billingExpr cache' in
                (Inr (case r of
                        Failed _ \<Rightarrow> []
                      | Ready c \<Rightarrow> (case readTaskTierChain (ast c) fs includeBoolean of Some ts \<Rightarrow> ts | None \<Rightarrow> [])), cache''))"

section \<open>Labels\<close>

definition less_pattern :: regex where
  "less_pattern =
     R_any [R_cat (R_text (js ''<'')) (R_opt (R_class (\<lambda>c. c = 61 \<or> c = 65309))), R_text [8804],
            R_cat (R_text [65308]) (R_opt (R_class (\<lambda>c. c = 61 \<or> c = 65309)))]"

definition greater_pattern :: regex where
  "greater_pattern =
     R_any [R_cat (R_text (js ''>'')) (R_opt (R_class (\<lambda>c. c = 61 \<or> c = 65309))), R_text [8805],
            R_cat (R_text [65310]) (R_opt (R_class (\<lambda>c. c = 61 \<or> c = 65309)))]"

definition normalizeTierLabel :: "platform \<Rightarrow> jsstring option \<Rightarrow> jsstring" where
  "normalizeTierLabel pf label =
     (case label of
        None \<Rightarrow> []
      | Some s \<Rightarrow>
          if s = [] then []
          else toLowerCase pf
            (replace_all (R_plus (R_class is_space)) []
              (replace_all greater_pattern (js ''>'') (replace_all less_pattern (js ''<'') s))))"

end
