(* ===== verification/RequestFacts.thy ===== *)
theory RequestFacts
  imports RequestRules
begin

text \<open>
  The conditions that the editor prints are recognised again.  The patterns are deterministic
  on printed conditions: every run of a class is followed by a unit outside the class.
\<close>

named_theorems regex_simps \<open>rewrite rules for matching a sequence\<close>

section \<open>Matching a sequence\<close>

lemma matches_cat_text [regex_simps]:
  "matches (R_cat (R_text w) b) s c = (if starts_with s w then matches b (drop (length w) s) c else [])"
  by simp

lemma matches_cat_backref [regex_simps]:
  "matches (R_cat (R_backref n) b) s c =
     (let w = capture c n in if starts_with s w then matches b (drop (length w) s) c else [])"
  by (simp add: capture_def Let_def)

lemma matches_cat_alt [regex_simps]:
  "matches (R_cat (R_alt a a') b) s c = matches (R_cat a b) s c @ matches (R_cat a' b) s c"
  by simp

lemma concat_map_concat: "concat (map f (concat xss)) = concat (map (\<lambda>xs. concat (map f xs)) xss)"
  by (induction xss) auto

lemma matches_cat_cat [regex_simps]: "matches (R_cat (R_cat a a') b) s c = matches (R_cat a (R_cat a' b)) s c"
  by (simp add: concat_map_concat comp_def case_prod_unfold)

lemma capture_Cons [simp]: "capture ((n, w) # c) m = (if n = m then w else capture c m)"
  by (simp add: capture_def)

lemma capture_group_text: "length s - length (drop n s) = min n (length s)"
  by simp

lemma matches_group_text [regex_simps]:
  "matches (R_cat (R_group n (R_text w)) b) s c = (if starts_with s w then matches b (drop (length w) s) ((n, w) # c) else [])"
proof (cases "starts_with s w")
  case True
  then obtain t where "s = w @ t" by (auto simp: starts_with_iff prefix_def)
  then show ?thesis by simp
qed simp

lemma matches_group_alt [regex_simps]:
  "matches (R_cat (R_group n (R_alt a a')) b) s c = matches (R_cat (R_group n a) b) s c @ matches (R_cat (R_group n a') b) s c"
  by simp

lemma matches_end [regex_simps]: "matches R_end s c = (if s = [] then [(s, c)] else [])"
  by simp

fun only :: "(code_unit \<Rightarrow> bool) \<Rightarrow> regex \<Rightarrow> bool" where
  "only P (R_text w) \<longleftrightarrow> list_all P w"
| "only P (R_class Q) \<longleftrightarrow> (\<forall>x. Q x \<longrightarrow> P x)"
| "only P (R_cat a b) \<longleftrightarrow> only P a \<and> only P b"
| "only P (R_alt a b) \<longleftrightarrow> only P a \<and> only P b"
| "only P (R_opt a) \<longleftrightarrow> only P a"
| "only P (R_many a) \<longleftrightarrow> only P a"
| "only P (R_group n a) \<longleftrightarrow> only P a"
| "only P (R_backref n) \<longleftrightarrow> False"
| "only P R_end \<longleftrightarrow> True"

text \<open>A pattern consumes only units that its classes and texts allow.\<close>

lemma matches_only:
  "p \<in> set (matches r s c) \<Longrightarrow> only P r \<Longrightarrow> \<exists>w. s = w @ fst p \<and> list_all P w"
proof (induction r s c arbitrary: p rule: matches.induct)
  case (1 w s c)
  then show ?case by (auto simp: starts_with_iff prefix_def split: if_splits)
next
  case (2 Q s c)
  then show ?case by (cases s) (auto split: if_splits intro!: exI [of _ "[_]"])
next
  case (3 a b s c)
  then obtain t d where t: "(t, d) \<in> set (matches a s c)" "p \<in> set (matches b t d)" by auto
  from "3.IH"(1) [OF t(1)] "3.IH"(2) [OF t(1) refl t(2)] "3.prems"(2) obtain v w where "s = v @ t" "list_all P v" "t = w @ fst p" "list_all P w"
    by auto
  then show ?case by (intro exI [of _ "v @ w"]) simp
next
  case (6 a s c)
  show ?case
  proof (cases "p = (s, c)")
    case False
    with "6.prems" obtain t d where t: "(t, d) \<in> set (matches a s c)" "length t < length s" "p \<in> set (matches (R_many a) t d)"
      by (auto simp: matches_many [of a s] split: if_splits)
    from "6.IH"(1) [OF t(1)] "6.IH"(2) [OF t(1) refl t(2,3)] "6.prems"(2) obtain v w where "s = v @ t" "list_all P v" "t = w @ fst p" "list_all P w"
      by auto
    then show ?thesis by (intro exI [of _ "v @ w"]) simp
  qed simp
next
  case (7 n a s c)
  then show ?case by auto
qed (auto split: if_splits)

section \<open>Number texts\<close>

lemma numeric_units:
  assumes "is_numeric s"
  shows "s \<noteq> []" "\<forall>c \<in> set s. is_number_unit c"
proof -
  from assms obtain p where p: "p \<in> set (matches NUMERIC_LITERAL_REGEX s [])"
    by (auto simp: is_numeric_def exec_def split: list.splits)
  then have e: "fst p = []"
    unfolding NUMERIC_LITERAL_REGEX_def by (auto split: if_splits)
  have "only is_number_unit NUMERIC_LITERAL_REGEX"
    by (auto simp: NUMERIC_LITERAL_REGEX_def is_number_unit_def R_plus_def js_def is_digit_def)
  from matches_only [OF p this] e show "\<forall>c \<in> set s. is_number_unit c" by (auto simp: list_all_iff)
  show "s \<noteq> []"
  proof
    assume "s = []"
    with p show False by (simp add: NUMERIC_LITERAL_REGEX_def R_plus_def js_def)
  qed
qed

lemma number_unit_facts:
  assumes "is_number_unit c"
  shows "\<not> is_space c" "c \<noteq> 32" "c \<noteq> 34" "c \<noteq> 41" "c \<noteq> 92"
  using assms by (auto simp: is_number_unit_def is_digit_def is_space_def)

lemma trim_numeric [simp]: "is_numeric s \<Longrightarrow> trim s = s"
  using numeric_units [of s] number_unit_facts(1) by (intro trim_no_space) blast

lemma numeric_run:
  assumes "is_numeric v" "r = [] \<or> \<not> is_number_unit (hd r)"
  shows "takeWhile is_number_unit (v @ r) = v" "dropWhile is_number_unit (v @ r) = r"
  using numeric_units [OF assms(1)] assms(2) by (cases r; simp)+

section \<open>Time conditions\<close>

definition plain_text :: "jsstring \<Rightarrow> bool" where
  "plain_text s \<longleftrightarrow> s \<noteq> [] \<and> (\<forall>c \<in> set s. 32 \<le> c \<and> c \<noteq> 34 \<and> c \<noteq> 92 \<and> \<not> is_high c \<and> \<not> is_low c)"

lemma json_body_plain: "\<forall>c \<in> set s. 32 \<le> c \<and> c \<noteq> 34 \<and> c \<noteq> 92 \<and> \<not> is_high c \<and> \<not> is_low c \<Longrightarrow> json_body s = s"
  by (induction s) (auto simp: json_unit_def short_escapes_def)

lemma json_stringify_plain: "plain_text s \<Longrightarrow> json_stringify s = 34 # s @ [34]"
  by (simp add: json_stringify_def plain_text_def json_body_plain)

lemma plain_run:
  assumes "plain_text z"
  shows "takeWhile (\<lambda>c. c \<noteq> 34) (z @ 34 # r) = z" "dropWhile (\<lambda>c. c \<noteq> 34) (z @ 34 # r) = 34 # r"
  using assms by (auto simp: plain_text_def)

lemma matches_unquoted:
  assumes "plain_text z" "rejects (\<lambda>c. c \<noteq> 34) b"
  shows "matches (R_cat (R_unquoted n) b) (z @ 34 # r) c = matches b (34 # r) ((n, z) # c)"
  using assms(1) by (simp add: R_unquoted_def matches_group_run [OF assms(2)] plain_run plain_text_def del: matches.simps)

lemma matches_numbers:
  assumes "is_numeric v" "rejects is_number_unit b" "r = [] \<or> \<not> is_number_unit (hd r)"
  shows "matches (R_cat (R_numbers n) b) (v @ r) c = matches b r ((n, v) # c)"
  using numeric_units(1) [OF assms(1)]
  by (simp add: R_numbers_def matches_group_run [OF assms(2)] numeric_run [OF assms(1,3)] del: matches.simps)

lemma matches_numbers_end:
  assumes "is_numeric v" "rejects is_number_unit b"
  shows "matches (R_cat (R_numbers n) b) v c = matches b [] ((n, v) # c)"
  using matches_numbers [OF assms, of "[]"] by simp

lemma matches_time_func:
  assumes "f \<in> set TIME_FUNCS"
  shows "matches (R_cat R_time_func b) (f @ 40 # r) c = matches b (40 # r) ((1, f) # c)"
  using assms by (auto simp: TIME_FUNCS_def R_time_func_def regex_simps js_def simp del: matches.simps)

lemma matches_time_func_other:
  assumes "\<forall>f \<in> set TIME_FUNCS. \<not> starts_with s f"
  shows "matches (R_cat R_time_func b) s c = []"
  using assms by (simp add: R_time_func_def TIME_FUNCS_def regex_simps del: matches.simps)

definition spaced :: "jsstring \<Rightarrow> jsstring \<Rightarrow> jsstring \<Rightarrow> jsstring" where
  "spaced f z rest = f @ 40 # 34 # z @ 34 # 41 # rest"

lemma not_number_units [simp]: "\<not> is_number_unit 32" "\<not> is_number_unit 41"
  by (simp_all add: is_number_unit_def is_digit_def)

lemma exec_time_range:
  assumes "f \<in> set TIME_FUNCS" "plain_text z" "is_numeric s" "is_numeric e" "op = js ''&&'' \<or> op = js ''||''"
  shows "exec time_range_pattern (spaced f z (js '' >= '' @ s @ js '' '' @ op @ js '' '' @ spaced f z (js '' < '' @ e))) =
    Some [(4, e), (3, s), (2, z), (1, f)]"
proof -
  note steps = matches_time_func [OF assms(1)] matches_unquoted [OF assms(2)] matches_numbers [OF assms(3)]
    matches_numbers_end [OF assms(4)] regex_simps
  show ?thesis using assms(5)
  proof
    assume "op = js ''&&''"
    then show ?thesis
      by (simp add: exec_def time_range_pattern_def time_range_body_def spaced_def steps js_def del: matches.simps(3) drop_drop)
  next
    assume "op = js ''||''"
    then show ?thesis
      by (simp add: exec_def time_range_pattern_def time_range_body_def spaced_def steps js_def del: matches.simps(3) drop_drop)
  qed
qed

lemmas time_texts = exec_def time_range_pattern_def wrapped_time_range_pattern_def time_scalar_pattern_def time_range_body_def spaced_def

lemma time_func_start:
  assumes "f \<in> set TIME_FUNCS"
  shows "\<not> starts_with (f @ r) [40]"
  using assms by (auto simp: TIME_FUNCS_def js_def)

lemma exec_wrapped_range:
  assumes "f \<in> set TIME_FUNCS" "plain_text z" "is_numeric s" "is_numeric e"
  shows "exec wrapped_time_range_pattern (40 # spaced f z (js '' >= '' @ s @ js '' || '' @ spaced f z (js '' < '' @ e @ js '')''))) =
    Some [(4, e), (3, s), (2, z), (1, f)]"
proof -
  note steps = matches_time_func [OF assms(1)] matches_unquoted [OF assms(2)] matches_numbers [OF assms(3)]
    matches_numbers [OF assms(4)] regex_simps
  show ?thesis by (simp add: time_texts steps js_def del: matches.simps(3) drop_drop)
qed

lemma exec_range_parenthesis: "exec time_range_pattern (40 # r) = None"
  by (simp add: time_texts matches_time_func_other TIME_FUNCS_def js_def del: matches.simps(3))

lemma exec_scalar:
  assumes "f \<in> set TIME_FUNCS" "plain_text z" "is_numeric v" "op = js ''=='' \<or> op = js ''>='' \<or> op = js ''<''"
  shows "exec time_range_pattern (spaced f z (js '' '' @ op @ js '' '' @ v)) = None"
    and "exec wrapped_time_range_pattern (spaced f z (js '' '' @ op @ js '' '' @ v)) = None"
    and "exec time_scalar_pattern (spaced f z (js '' '' @ op @ js '' '' @ v)) = Some [(4, v), (3, op), (2, z), (1, f)]"
proof -
  note steps = matches_time_func [OF assms(1)] matches_unquoted [OF assms(2)] matches_numbers_end [OF assms(3)] regex_simps
  show "exec wrapped_time_range_pattern (spaced f z (js '' '' @ op @ js '' '' @ v)) = None"
    using time_func_start [OF assms(1)] by (simp add: time_texts steps js_def del: matches.simps(3))
  show "exec time_range_pattern (spaced f z (js '' '' @ op @ js '' '' @ v)) = None"
    using assms(4) by (elim disjE) (simp_all add: time_texts steps js_def del: matches.simps(3) drop_drop)
  show "exec time_scalar_pattern (spaced f z (js '' '' @ op @ js '' '' @ v)) = Some [(4, v), (3, op), (2, z), (1, f)]"
    using assms(4) by (elim disjE) (simp_all add: time_texts steps js_def del: matches.simps(3) drop_drop)
qed

text \<open>The conditions that a text can express and the editor prints.\<close>

definition readable_time :: "time_condition \<Rightarrow> bool" where
  "readable_time c \<longleftrightarrow> rc_func c \<in> set TIME_FUNCS \<and> plain_text (rc_zone c) \<and>
     (if rc_mode c = MATCH_RANGE
      then rc_value c = [] \<and> isTimeValueInRange (rc_func c) (rc_start c) \<and> isTimeValueInRange (rc_func c) (rc_end c)
      else rc_mode c \<in> {MATCH_EQ, MATCH_GTE, MATCH_LT} \<and> isTimeValueInRange (rc_func c) (rc_value c) \<and> rc_start c = [] \<and> rc_end c = [])"

lemma normalize_readable: "readable_time c \<Longrightarrow> normalizeCondition (partial_time c) = Time_condition c"
  by (cases c) (auto simp: readable_time_def normalizeCondition_def partial_time_def or_empty_def isTimeFunc_def allowed_mode_def
      getRequestRuleMatchOptions_def plain_text_def split: if_splits)

lemma time_call_spaced: "plain_text (rc_zone c) \<Longrightarrow> time_call c @ r = spaced (rc_func c) (rc_zone c) r"
  by (simp add: time_call_def spaced_def json_stringify_plain js_def)

lemma time_call_nested:
  "plain_text (rc_zone c) \<Longrightarrow> time_call c = spaced (rc_func c) (rc_zone c) []"
  using time_call_spaced [of c "[]"] by simp

lemma spaced_append: "spaced f z r @ t = spaced f z (r @ t)"
  by (simp add: spaced_def)

theorem time_condition_roundtrip:
  assumes "readable_time c"
  shows "tryParseTimeCondition (buildTimeConditionExpr c) = Some c"
proof -
  have f: "rc_func c \<in> set TIME_FUNCS" and z: "plain_text (rc_zone c)" using assms by (auto simp: readable_time_def)
  have build: "buildTimeConditionExpr c = build_time c" by (simp add: buildTimeConditionExpr_def normalize_readable [OF assms])
  note call = time_call_spaced [OF z]
  show ?thesis
  proof (cases "rc_mode c = MATCH_RANGE")
    case True
    with assms have v: "rc_value c = []" "isTimeValueInRange (rc_func c) (rc_start c)" "isTimeValueInRange (rc_func c) (rc_end c)"
      by (auto simp: readable_time_def)
    then have n: "is_numeric (rc_start c)" "is_numeric (rc_end c)" by (auto simp: isTimeValueInRange_def)
    define op where "op = (if js_less (js_Number (rc_end c)) (js_Number (rc_start c)) then js ''||'' else js ''&&'')"
    have op: "op = js ''&&'' \<or> op = js ''||''" by (simp add: op_def)
    have text': "build_time c = spaced (rc_func c) (rc_zone c) (js '' >= '' @ rc_start c @ js '' '' @ op @ js '' '' @ spaced (rc_func c) (rc_zone c) (js '' < '' @ rc_end c))"
      using True v n by (simp add: build_time_def op_def call js_def)
    have "tryParseTimeCondition (build_time c) = Some \<lparr>rc_func = rc_func c, rc_zone = rc_zone c, rc_mode = MATCH_RANGE, rc_value = [],
        rc_start = rc_start c, rc_end = rc_end c\<rparr>"
      using exec_time_range [OF f z n op] v by (simp add: text' tryParseTimeCondition_def)
    then show ?thesis unfolding build using True v(1) by (cases c) simp
  next
    case False
    with assms have m: "rc_mode c \<in> {MATCH_EQ, MATCH_GTE, MATCH_LT}" and v: "isTimeValueInRange (rc_func c) (rc_value c)" "rc_start c = []" "rc_end c = []"
      by (auto simp: readable_time_def)
    then have n: "is_numeric (rc_value c)" by (auto simp: isTimeValueInRange_def)
    define op where "op = (case map_of scalar_operators (rc_mode c) of Some op \<Rightarrow> op | None \<Rightarrow> js ''=='')"
    have op: "op = js ''=='' \<or> op = js ''>='' \<or> op = js ''<''" and ret: "map_of scalar_modes op = Some (rc_mode c)"
      using m by (auto simp: op_def scalar_operators_def scalar_modes_def match_modes)
    have text': "build_time c = spaced (rc_func c) (rc_zone c) (js '' '' @ op @ js '' '' @ rc_value c)"
      using False v n by (simp add: build_time_def op_def call)
    have "tryParseTimeCondition (build_time c) = Some \<lparr>rc_func = rc_func c, rc_zone = rc_zone c, rc_mode = rc_mode c, rc_value = rc_value c,
        rc_start = [], rc_end = []\<rparr>"
      using exec_scalar [OF f z n op] v ret by (simp add: text' tryParseTimeCondition_def)
    then show ?thesis unfolding build using v(2,3) by (cases c) simp
  qed
qed

end
