(* ===== verification/RequestReading.thy ===== *)
theory RequestReading
  imports RequestFacts
begin

text \<open>
  The request rules read back by the editor: the conditions that \<open>buildRequestConditionExpr\<close> prints and
  \<open>tryParseRequestCondition\<close> recognises, and the texts that it does not.
\<close>

section \<open>Conditions on the request\<close>

definition line_units :: "code_unit set" where
  "line_units = {10, 13, 8232, 8233}"

text \<open>A text made of the units and escapes that a quoted literal may hold.\<close>

inductive quoted_text :: "jsstring \<Rightarrow> bool" where
  quoted_Nil: "quoted_text []"
| quoted_unit: "c \<noteq> 34 \<Longrightarrow> c \<noteq> 92 \<Longrightarrow> quoted_text s \<Longrightarrow> quoted_text (c # s)"
| quoted_escape: "e \<notin> line_units \<Longrightarrow> quoted_text s \<Longrightarrow> quoted_text (92 # e # s)"

lemma quoted_units: "\<forall>c \<in> set w. c \<noteq> 34 \<and> c \<noteq> 92 \<Longrightarrow> quoted_text s \<Longrightarrow> quoted_text (w @ s)"
  by (induction w) (auto intro: quoted_text.intros)

lemma hex_digit_plain: "hex_digit (d mod 16) \<noteq> 34 \<and> hex_digit (d mod 16) \<noteq> 92"
proof -
  have "is_hex (hex_digit (d mod 16))" by (simp add: hex_digit_value)
  then show ?thesis by (auto simp: is_hex_def is_digit_def)
qed

lemma quoted_unicode: "quoted_text s \<Longrightarrow> quoted_text (unicode_escape c @ s)"
  unfolding unicode_escape_def
  using quoted_escape [OF _ quoted_units, of 117 "map hex_digit [c div 4096 mod 16, c div 256 mod 16, c div 16 mod 16, c mod 16]" s] hex_digit_plain
  by (simp add: line_units_def)

lemma quoted_json_unit: "quoted_text s \<Longrightarrow> quoted_text (json_unit c @ s)"
proof (cases "map_of short_escapes c")
  case None
  assume s: "quoted_text s"
  from None have "c \<noteq> 34" "c \<noteq> 92" by (auto simp: short_escapes_def split: if_splits)
  then show ?thesis using s None quoted_unicode by (auto simp: json_unit_def intro: quoted_unit)
next
  case (Some e)
  assume s: "quoted_text s"
  from Some have "e \<notin> line_units" by (auto simp: short_escapes_def line_units_def split: if_splits)
  then show ?thesis using s Some by (auto simp: json_unit_def intro: quoted_escape)
qed

lemma quoted_json_body: "quoted_text (json_body s)"
proof (induction s rule: json_body.induct)
  case (2 c s)
  have nil: "s = [] \<Longrightarrow> json_body s = []" by simp
  have plain: "\<not> is_high 34" "\<not> is_low 34" "\<not> is_high 92" "\<not> is_low 92" by (simp_all add: is_high_def is_low_def)
  from 2 show ?case
    unfolding json_body.simps(2) [of c s]
    by (auto simp del: json_body.simps(2) simp: nil plain split: list.split
        intro!: quoted_unicode quoted_json_unit quoted_unit
        intro: quoted_Nil quoted_unicode [OF quoted_Nil, simplified] quoted_json_unit [OF quoted_Nil, simplified])
qed (simp add: quoted_Nil)

definition R_quoted_unit :: regex where
  "R_quoted_unit = R_alt (R_class (\<lambda>c. c \<noteq> 34 \<and> c \<noteq> 92)) (R_cat (R_text [92]) (R_class (\<lambda>c. c \<notin> {10, 13, 8232, 8233})))"

lemma matches_quoted_text:
  "quoted_text s \<Longrightarrow> matches (R_cat (R_many R_quoted_unit) (R_text [34])) (s @ 34 # r) c = [(r, c)]"
proof (induction rule: quoted_text.induct)
  case quoted_Nil
  then show ?case by (simp add: matches_many R_quoted_unit_def)
next
  case (quoted_unit x s)
  have "matches R_quoted_unit (x # s @ 34 # r) c = [(s @ 34 # r, c)]" using quoted_unit by (simp add: R_quoted_unit_def)
  with quoted_unit show ?case by (simp add: matches_many [of _ "x # s @ 34 # r"])
next
  case (quoted_escape e s)
  have "matches R_quoted_unit (92 # e # s @ 34 # r) c = [(s @ 34 # r, c)]" using quoted_escape by (auto simp: R_quoted_unit_def line_units_def)
  with quoted_escape show ?case by (simp add: matches_many [of _ "92 # e # s @ 34 # r"])
qed

lemma matches_quoted:
  "matches (R_cat (R_quoted n) b) (json_stringify v @ r) c = matches b r ((n, json_stringify v) # c)"
proof -
  have q: "matches (R_seq [R_text [34], R_many R_quoted_unit, R_text [34]]) (json_stringify v @ r) c = [(r, c)]"
    using matches_quoted_text [OF quoted_json_body, of v r c] by (simp add: json_stringify_def)
  show ?thesis unfolding R_quoted_def R_quoted_unit_def [symmetric] by (simp add: q del: R_seq.simps)
qed

section \<open>Literals\<close>

lemma trim_quotes: "trim (34 # s @ [34]) = 34 # s @ [34]"
proof -
  have "\<not> is_space 34" by (simp add: is_space_def)
  then show ?thesis by (simp add: trim_def trim_start_def trim_end_def)
qed

lemma stringify_literal:
  "trim (json_stringify v) = json_stringify v" "\<not> is_numeric (json_stringify v)"
  "json_stringify v \<noteq> js ''true''" "json_stringify v \<noteq> js ''false''"
proof -
  show "trim (json_stringify v) = json_stringify v" using trim_quotes by (simp add: json_stringify_def)
  have "\<not> is_number_unit 34" by (simp add: is_number_unit_def is_digit_def)
  then show "\<not> is_numeric (json_stringify v)" using numeric_units(2) [of "json_stringify v"] by (auto simp: json_stringify_def)
  show "json_stringify v \<noteq> js ''true''" "json_stringify v \<noteq> js ''false''" by (simp_all add: json_stringify_def js_def)
qed

lemma set_trim: "set (trim s) \<subseteq> set s"
  unfolding trim_def trim_start_def trim_end_def
  by (metis set_dropWhileD set_rev subsetI)

theorem literal_roundtrip:
  assumes "code_units value"
  shows "parseExprLiteral (buildExprLiteral mode value) = J_string (trim value)"
proof -
  have "code_units (trim value)" using assms set_trim by (auto simp: code_units_def)
  then have "parseExprLiteral (json_stringify (trim value)) = J_string (trim value)"
    by (simp add: parseExprLiteral_def stringify_literal json_parse_stringify)
  moreover have "parseExprLiteral t = J_string t" if "trim t = t" "t = js ''true'' \<or> t = js ''false'' \<or> is_numeric t" for t
    using that by (auto simp: parseExprLiteral_def)
  ultimately show ?thesis by (simp add: buildExprLiteral_def Let_def del: json_parse_stringify) (metis trim_idem)
qed

section \<open>Reading a condition back\<close>

lemma not_time_condition:
  assumes "\<forall>f \<in> set TIME_FUNCS. \<not> starts_with s f" "\<not> starts_with s [40]"
  shows "tryParseTimeCondition s = None"
  using assms(2) by (simp add: tryParseTimeCondition_def time_texts matches_time_func_other [OF assms(1)] regex_simps js_def del: matches.simps(3))

text \<open>The conditions on a field that a text can express and the editor prints, but for those of the modes that
  compare a parameter, which are joined with \<open>&&\<close>.\<close>

definition readable_value :: "value_condition \<Rightarrow> bool" where
  "readable_value c \<longleftrightarrow> plain_text (vc_path c) \<and> trim (vc_path c) = vc_path c \<and>
     code_units (vc_value c) \<and> trim (vc_value c) = vc_value c \<and>
     (if vc_mode c = MATCH_EXISTS then vc_value c = []
      else if vc_mode c = MATCH_CONTAINS then vc_source c = From_header
      else vc_mode c = MATCH_EQ \<and> 8232 \<notin> set (vc_value c) \<and> 8233 \<notin> set (vc_value c))"

lemma normalize_value: "readable_value c \<Longrightarrow> normalizeCondition (partial_value c) = Value_condition c"
  by (cases c) (auto simp: readable_value_def normalizeCondition_def partial_value_def or_empty_def allowed_mode_def
      getRequestRuleMatchOptions_def source_name_def SOURCE_TIME_def SOURCE_PARAM_def SOURCE_HEADER_def js_def
      split: value_source.split if_splits)

lemma source_call_spaced: "plain_text p \<Longrightarrow> source_call src p @ r = spaced (source_name src) p r"
  by (simp add: source_call_def json_stringify_plain spaced_def js_def)

lemmas value_texts = exec_def header_exists_pattern_def param_exists_pattern_def header_contains_pattern_def param_contains_pattern_def
  param_compare_pattern_def equals_pattern_def spaced_def SOURCE_PARAM_def SOURCE_HEADER_def

lemma source_not_time: "tryParseTimeCondition (spaced (source_name src) p r) = None" "tryParseTimeCondition (js ''has('' @ r) = None"
proof -
  show "tryParseTimeCondition (spaced (source_name src) p r) = None"
    by (rule not_time_condition; cases src) (simp_all add: source_name_def value_texts TIME_FUNCS_def js_def)
  show "tryParseTimeCondition (js ''has('' @ r) = None"
    by (rule not_time_condition) (simp_all add: TIME_FUNCS_def js_def)
qed

lemma exists_condition:
  assumes "plain_text p"
  shows "tryParseRequestCondition (spaced (js ''header'') p (js '' != '' @ [34, 34])) =
      Inr (Some (Value_condition \<lparr>vc_source = From_header, vc_path = p, vc_mode = MATCH_EXISTS, vc_value = []\<rparr>))"
    and "tryParseRequestCondition (spaced (js ''param'') p (js '' != nil'')) =
      Inr (Some (Value_condition \<lparr>vc_source = From_param, vc_path = p, vc_mode = MATCH_EXISTS, vc_value = []\<rparr>))"
proof -
  note steps = matches_unquoted [OF assms] regex_simps
  have "tryParseTimeCondition (spaced (js ''header'') p (js '' != '' @ [34, 34])) = None"
    using source_not_time(1) [of From_header] by (simp add: source_name_def SOURCE_HEADER_def)
  moreover have "exec header_exists_pattern (spaced (js ''header'') p (js '' != '' @ [34, 34])) = Some [(1, p)]"
    by (simp add: value_texts steps js_def del: matches.simps(3) drop_drop)
  ultimately show "tryParseRequestCondition (spaced (js ''header'') p (js '' != '' @ [34, 34])) =
      Inr (Some (Value_condition \<lparr>vc_source = From_header, vc_path = p, vc_mode = MATCH_EXISTS, vc_value = []\<rparr>))"
    by (simp add: tryParseRequestCondition_def)
  have "tryParseTimeCondition (spaced (js ''param'') p (js '' != nil'')) = None"
    using source_not_time(1) [of From_param] by (simp add: source_name_def SOURCE_PARAM_def)
  moreover have "exec header_exists_pattern (spaced (js ''param'') p (js '' != nil'')) = None"
    by (simp add: value_texts steps js_def del: matches.simps(3) drop_drop)
  moreover have "exec param_exists_pattern (spaced (js ''param'') p (js '' != nil'')) = Some [(1, p)]"
    by (simp add: value_texts steps js_def del: matches.simps(3) drop_drop)
  ultimately show "tryParseRequestCondition (spaced (js ''param'') p (js '' != nil'')) =
      Inr (Some (Value_condition \<lparr>vc_source = From_param, vc_path = p, vc_mode = MATCH_EXISTS, vc_value = []\<rparr>))"
    by (simp add: tryParseRequestCondition_def)
qed

lemma contains_condition_read:
  assumes "plain_text p" "code_units v"
  shows "tryParseRequestCondition (js ''has('' @ spaced (js ''header'') p (js '', '' @ json_stringify v @ js '')'')) =
      Inr (Some (Value_condition \<lparr>vc_source = From_header, vc_path = p, vc_mode = MATCH_CONTAINS, vc_value = v\<rparr>))"
proof -
  let ?t = "js ''has('' @ spaced (js ''header'') p (js '', '' @ json_stringify v @ js '')'')"
  note steps = matches_unquoted [OF assms(1)] matches_quoted regex_simps
  have "exec header_exists_pattern ?t = None" "exec param_exists_pattern ?t = None"
    by (simp_all add: value_texts steps js_def del: matches.simps(3) drop_drop)
  moreover have "exec header_contains_pattern ?t = Some [(2, json_stringify v), (1, p)]"
    by (simp add: value_texts steps js_def del: matches.simps(3) drop_drop)
  ultimately show ?thesis
    by (simp add: tryParseRequestCondition_def source_not_time contains_condition_def json_parse_stringify [OF assms(2)])
qed

definition one_line :: "jsstring \<Rightarrow> bool" where
  "one_line s \<longleftrightarrow> set s \<inter> line_units = {}"

lemma one_line_append [simp]: "one_line (s @ t) \<longleftrightarrow> one_line s \<and> one_line t"
  by (auto simp: one_line_def)

lemma one_line_Nil [simp]: "one_line []"
  by (simp add: one_line_def)

lemma one_line_Cons [simp]: "one_line (c # s) \<longleftrightarrow> c \<notin> line_units \<and> one_line s"
  by (auto simp: one_line_def)

lemma one_line_digit: "hex_digit (d mod 16) \<notin> line_units"
  using hex_digit_value [of "d mod 16"] by (auto simp: is_hex_def is_digit_def line_units_def)

lemma one_line_escape [simp]: "one_line (unicode_escape d)"
  by (simp add: unicode_escape_def one_line_digit) (simp add: line_units_def)

lemma one_line_unit: "d \<notin> {8232, 8233} \<Longrightarrow> one_line (json_unit d)"
  by (auto simp: json_unit_def short_escapes_def line_units_def)

lemma one_line_body: "set s \<inter> {8232, 8233} = {} \<Longrightarrow> one_line (json_body s)"
proof (induction s rule: json_body.induct)
  case (2 c s)
  have "is_high c \<or> is_low c \<Longrightarrow> c \<notin> {8232, 8233} \<Longrightarrow> c \<notin> line_units" for c by (auto simp: is_high_def is_low_def line_units_def)
  with 2 show ?case unfolding json_body.simps(2) [of c s]
    by (auto simp del: json_body.simps(2) simp: one_line_unit split: list.split)
qed simp

lemma one_line_numeric: "is_numeric v \<Longrightarrow> one_line v"
  using numeric_units(2) [of v] by (auto simp: one_line_def line_units_def is_number_unit_def is_digit_def)

lemma literal_line: "set v \<inter> {8232, 8233} = {} \<Longrightarrow> trim v = v \<Longrightarrow> one_line (buildExprLiteral mode v)"
  by (simp add: buildExprLiteral_def json_stringify_def one_line_body one_line_numeric) (simp add: line_units_def js_def)

lemma literal_not_empty: "buildExprLiteral mode v \<noteq> []"
  using numeric_units(1) [of "trim v"] by (auto simp: buildExprLiteral_def json_stringify_def js_def Let_def)

lemma matches_line:
  assumes "one_line w" "w \<noteq> []"
  shows "matches (R_cat (R_group n (R_plus (R_class (\<lambda>c. c \<noteq> 10 \<and> c \<noteq> 13 \<and> c \<noteq> 8232 \<and> c \<noteq> 8233)))) R_end) w c = [([], (n, w) # c)]"
proof -
  have "rejects (\<lambda>c. c \<noteq> 10 \<and> c \<noteq> 13 \<and> c \<noteq> 8232 \<and> c \<noteq> 8233) R_end" by (simp add: rejects_def)
  moreover have "\<forall>c \<in> set w. c \<noteq> 10 \<and> c \<noteq> 13 \<and> c \<noteq> 8232 \<and> c \<noteq> 8233" using assms(1) by (auto simp: one_line_def line_units_def)
  ultimately show ?thesis using assms(2) by (simp add: matches_group_run takeWhile_eq_all_conv [THEN iffD2] dropWhile_eq_Nil_conv [THEN iffD2] regex_simps del: matches.simps(3))
qed

lemma equals_read:
  assumes "plain_text p" "code_units v" "trim v = v" "set v \<inter> {8232, 8233} = {}"
  shows "tryParseRequestCondition (spaced (source_name src) p (js '' == '' @ buildExprLiteral MATCH_EQ v)) =
      Inr (Some (Value_condition \<lparr>vc_source = src, vc_path = p, vc_mode = MATCH_EQ, vc_value = v\<rparr>))"
proof -
  define lit where "lit = buildExprLiteral MATCH_EQ v"
  have lit: "one_line lit" "lit \<noteq> []" "parseExprLiteral lit = J_string v"
    using literal_line [OF assms(4,3)] literal_not_empty literal_roundtrip [OF assms(2)] by (simp_all add: lit_def assms(3))
  let ?t = "spaced (source_name src) p (js '' == '' @ lit)"
  note steps = matches_unquoted [OF assms(1)] regex_simps
  have others: "exec header_exists_pattern ?t = None" "exec param_exists_pattern ?t = None" "exec header_contains_pattern ?t = None"
      "exec param_contains_pattern ?t = None" "exec param_compare_pattern ?t = None"
    by (cases src; simp add: source_name_def value_texts steps js_def del: matches.simps(3) drop_drop)+
  have "exec equals_pattern ?t = Some [(3, lit), (2, p), (1, source_name src)]"
    by (cases src; simp add: source_name_def value_texts steps matches_line [OF lit(1,2)] js_def del: matches.simps(3) drop_drop)
  then have "parse_equals ?t = Inr (Some (Value_condition \<lparr>vc_source = src, vc_path = p, vc_mode = MATCH_EQ, vc_value = v\<rparr>))"
    by (cases src) (simp_all add: parse_equals_def lit(3) source_name_def SOURCE_PARAM_def SOURCE_HEADER_def js_def)
  then show ?thesis unfolding lit_def [symmetric]
    by (simp add: tryParseRequestCondition_def parse_compare_def source_not_time others)
qed

theorem value_condition_roundtrip:
  assumes "readable_value c"
  shows "tryParseRequestCondition (buildRequestConditionExpr (Value_condition c)) = Inr (Some (Value_condition c))"
proof -
  obtain src p m v where c: "c = \<lparr>vc_source = src, vc_path = p, vc_mode = m, vc_value = v\<rparr>" by (cases c)
  have p: "plain_text p" "trim p = p" and v: "code_units v" "trim v = v"
    using assms by (auto simp: c readable_value_def)
  have ne: "p \<noteq> []" using p(1) by (simp add: plain_text_def)
  have build: "buildRequestConditionExpr (Value_condition c) = build_value c"
    by (simp add: buildRequestConditionExpr_def normalize_value [OF assms])
  have modes: "map_of compare_operators MATCH_EQ = None" "MATCH_EQ \<noteq> MATCH_EXISTS" "MATCH_EQ \<noteq> MATCH_CONTAINS" "MATCH_CONTAINS \<noteq> MATCH_EXISTS"
    by (simp_all add: compare_operators_def match_modes js_def)
  note texts = build_value_def Let_def source_call_spaced [OF p(1)] source_name_def SOURCE_PARAM_def SOURCE_HEADER_def modes ne p(2)
  consider "m = MATCH_EXISTS" "v = []" | "m = MATCH_CONTAINS" "src = From_header" | "m = MATCH_EQ" "set v \<inter> {8232, 8233} = {}"
    using assms by (auto simp: c readable_value_def split: if_splits)
  then show ?thesis
  proof cases
    case 1
    then show ?thesis unfolding build unfolding c using exists_condition [OF p(1)] by (cases src) (simp_all add: texts)
  next
    case 2
    then have "buildExprLiteral m v = json_stringify v" by (simp add: buildExprLiteral_def v)
    with 2 show ?thesis unfolding build unfolding c using contains_condition_read [OF p(1) v(1)] by (simp add: texts)
  next
    case 3
    show ?thesis unfolding build unfolding c using 3 equals_read [OF p(1) v 3(2)] by (simp add: texts)
  qed
qed

section \<open>Texts that are not read back\<close>

text \<open>The operator of a range is not kept: this condition holds at every hour, and the one written in its place from nine to twelve.\<close>

lemma range_operator_not_kept:
  "map_option buildTimeConditionExpr
     (tryParseTimeCondition (js ''hour('' @ [34] @ js ''UTC'' @ [34] @ js '') >= 9 || hour('' @ [34] @ js ''UTC'' @ [34] @ js '') < 12'')) =
   Some (js ''hour('' @ [34] @ js ''UTC'' @ [34] @ js '') >= 9 && hour('' @ [34] @ js ''UTC'' @ [34] @ js '') < 12'')"
  by code_simp

text \<open>The comparison of a parameter is split at its own \<open>&&\<close> before its pattern is tried.\<close>

lemma param_comparison_not_read:
  "tryParseRequestConditions (buildRequestConditionExpr
     (Value_condition \<lparr>vc_source = From_param, vc_path = js ''n'', vc_mode = MATCH_GT, vc_value = js ''5''\<rparr>)) = Inr None"
  by code_simp

lemma param_containment_not_read:
  "tryParseRequestConditions (buildRequestConditionExpr
     (Value_condition \<lparr>vc_source = From_param, vc_path = js ''n'', vc_mode = MATCH_CONTAINS, vc_value = js ''5''\<rparr>)) = Inr None"
  by code_simp

text \<open>An escape that the expression language has and JSON does not makes the editor throw.\<close>

lemma escape_makes_reader_throw:
  "tryParseRequestRuleExpr (js ''(has(header('' @ [34] @ js ''x'' @ [34] @ js ''), '' @ [34, 92] @ js ''x41'' @ [34] @ js '') ? 2 : 1)'') =
   Inl json_error"
  by code_simp

end
