(* ===== verification/RuleReading.thy ===== *)
theory RuleReading
  imports RequestReading
begin

text \<open>
  The rules that \<open>buildRequestRuleExpr\<close> prints are read back by \<open>tryParseRequestRuleExpr\<close>: the
  splitter cuts the text at the operators that joined it and nowhere else, the two halves of a
  range within a day are merged again, and every factor is recognised.  The contract of the
  splitter is a locale over its operator, with the conjunction and the product as instances.
\<close>

section \<open>Texts that the splitter passes over\<close>

text \<open>The loop that splits at \<open>op\<close> goes over \<open>s\<close> without a cut, from bracket depth \<open>d\<close> to \<open>e\<close>.\<close>

definition passes :: "jsstring \<Rightarrow> int \<Rightarrow> int \<Rightarrow> jsstring \<Rightarrow> bool" where
  "passes op d e s \<longleftrightarrow>
     (\<forall>src r cur parts. split_loop op src (s @ r) cur d None parts = split_loop op src r (cur @ s) e None parts)"

lemma passesD: "passes op d e s \<Longrightarrow> split_loop op src (s @ r) cur d None parts = split_loop op src r (cur @ s) e None parts"
  by (simp add: passes_def)

lemma passes_Nil: "passes op d d []"
  by (simp add: passes_def)

lemma passes_append: "passes op d e s \<Longrightarrow> passes op e f t \<Longrightarrow> passes op d f (s @ t)"
  by (simp add: passes_def)

lemma passes_Cons: "passes op d e [c] \<Longrightarrow> passes op e f t \<Longrightarrow> passes op d f (c # t)"
  using passes_append [of op d e "[c]" f t] by simp

definition quiet :: "jsstring \<Rightarrow> int \<Rightarrow> code_unit \<Rightarrow> bool" where
  "quiet op d c \<longleftrightarrow> d \<noteq> 0 \<or> (op \<noteq> [] \<and> c \<noteq> 63 \<and> c \<noteq> hd op)"

lemma passes_unit:
  assumes "\<not> is_quote c" "d + bracket_delta c = e" "quiet op e c"
  shows "passes op d e [c]"
  using assms by (cases op) (auto simp: passes_def split_loop.simps quiet_def)

lemma passes_plain:
  assumes "\<forall>c \<in> set s. \<not> is_quote c \<and> bracket_delta c = 0 \<and> quiet op d c"
  shows "passes op d d s"
  using assms
proof (induction s)
  case (Cons c s)
  then have "passes op d d [c]" by (intro passes_unit) simp_all
  with Cons show ?case by (auto intro: passes_Cons)
qed (rule passes_Nil)

lemma passes_string:
  assumes "quoted_text s"
  shows "split_loop op src (s @ 34 # r) cur d (Some 34) parts = split_loop op src r (cur @ s @ [34]) d None parts"
  using assms by (induction arbitrary: cur) (simp_all add: split_loop.simps)

lemma passes_quoted:
  assumes "quoted_text s"
  shows "passes op d d (34 # s @ [34])"
  using passes_string [OF assms] by (simp add: passes_def split_loop.simps(2) [of _ _ 34] is_quote_def)

lemma plain_quoted: "plain_text z \<Longrightarrow> quoted_text z"
  using quoted_units [OF _ quoted_Nil, of z] by (simp add: plain_text_def)

lemma passes_spaced:
  assumes "passes op d d f" "plain_text z" "passes op d d r" "0 \<le> d" "quiet op d 41"
  shows "passes op d d (spaced f z r)"
proof -
  have o: "passes op d (d + 1) [40]" "passes op (d + 1) d [41]"
    using assms(4,5) by (auto intro!: passes_unit simp: is_quote_def bracket_delta_def quiet_def)
  have "passes op d d (f @ [40] @ (34 # z @ [34]) @ [41] @ r)"
    using passes_append [OF assms(1) passes_append [OF o(1) passes_append [OF passes_quoted [OF plain_quoted [OF assms(2)]]
        passes_append [OF o(2) assms(3)]]]] .
  then show ?thesis by (simp add: spaced_def)
qed

text \<open>Where no text of a condition is cut: inside brackets, and at the top for the splitter at \<open>&&\<close>.\<close>

definition inner :: "jsstring \<Rightarrow> int \<Rightarrow> bool" where
  "inner op d \<longleftrightarrow> 0 \<le> d \<and> (0 < d \<or> op = js ''&&'')"

lemma inner_quiet: "inner op d \<Longrightarrow> c \<noteq> 38 \<Longrightarrow> c \<noteq> 63 \<Longrightarrow> quiet op d c"
  by (auto simp: inner_def quiet_def js_def)

lemma passes_inner:
  "inner op d \<Longrightarrow> \<forall>c \<in> set s. c \<notin> {34, 38, 39, 40, 41, 63, 91, 93, 123, 125} \<Longrightarrow> passes op d d s"
  by (rule passes_plain) (auto simp: inner_quiet is_quote_def bracket_delta_def)

lemma passes_numeric: "inner op d \<Longrightarrow> is_numeric v \<Longrightarrow> passes op d d v"
  by (rule passes_inner) (use numeric_units(2) [of v] in \<open>auto simp: is_number_unit_def is_digit_def\<close>)

lemma passes_call: "inner op d \<Longrightarrow> passes op d d f \<Longrightarrow> plain_text z \<Longrightarrow> passes op d d r \<Longrightarrow> passes op d d (spaced f z r)"
  by (rule passes_spaced) (auto simp: inner_quiet inner_def)

section \<open>Splitting what was joined\<close>

lemma trim_space: "trim (32 # s) = trim s" "trim (s @ [32]) = trim s"
proof -
  have sp: "is_space 32" by (simp add: is_space_def)
  then show "trim (32 # s) = trim s" by (simp add: trim_def trim_start_def)
  show "trim (s @ [32]) = trim s"
  proof (cases "\<forall>c \<in> set s. is_space c")
    case True
    then have e: "dropWhile is_space s = []" "dropWhile is_space (s @ [32]) = []" using sp by auto
    show ?thesis unfolding trim_def trim_start_def e ..
  next
    case False
    then have "dropWhile is_space (s @ [32]) = dropWhile is_space s @ [32]" by (induction s) auto
    then show ?thesis using sp by (simp add: trim_def trim_start_def trim_end_def)
  qed
qed

definition good_part :: "jsstring \<Rightarrow> jsstring \<Rightarrow> bool" where
  "good_part op p \<longleftrightarrow> passes op 0 0 p \<and> trim p = p \<and> p \<noteq> []"

locale splitter =
  fixes op :: jsstring
  assumes op_units: "\<forall>c \<in> set op. \<not> is_quote c \<and> bracket_delta c = 0 \<and> c \<noteq> 63 \<and> c \<noteq> 32" and op_some: "op \<noteq> []"
begin

lemma passes_blank: "passes op 0 0 [32]"
  using op_some op_units by (intro passes_unit) (auto simp: is_quote_def bracket_delta_def quiet_def)

lemma cut: "split_loop op src (op @ r) cur 0 None parts = split_loop op src r [] 0 None (parts @ [trim cur])"
proof -
  obtain c w where w: "op = c # w" using op_some by (cases op) auto
  then have "starts_with (c # w @ r) op" by (simp add: starts_with_iff)
  with w op_units show ?thesis by (simp add: split_loop.simps(2))
qed

lemma split_loop_joined:
  "\<forall>p \<in> set (p # ps). good_part op p \<Longrightarrow> cur = [] \<or> cur = [32] \<Longrightarrow>
    split_loop op src (join ([32] @ op @ [32]) (p # ps)) cur 0 None parts = Some (filter (\<lambda>p. p \<noteq> []) parts @ p # ps)"
proof (induction ps arbitrary: p cur parts)
  case Nil
  then have p: "passes op 0 0 p" "trim (cur @ p) = p" "p \<noteq> []" by (auto simp: good_part_def trim_space)
  show ?case using passesD [OF p(1), of src "[]"] by (simp add: split_loop.simps(1) p)
next
  case (Cons q qs)
  let ?r = "join ([32] @ op @ [32]) (q # qs)"
  have p: "passes op 0 0 p" "trim (cur @ p @ [32]) = p" "p \<noteq> []"
    using Cons.prems trim_space(2) [of p] trim_space(2) [of "32 # p"] by (auto simp: good_part_def trim_space)
  have "split_loop op src (p @ [32] @ op @ [32] @ ?r) cur 0 None parts = split_loop op src (op @ [32] @ ?r) (cur @ p @ [32]) 0 None parts"
    unfolding passesD [OF p(1)] passesD [OF passes_blank] by simp
  also have "\<dots> = split_loop op src ?r [32] 0 None (parts @ [p])"
    unfolding cut passesD [OF passes_blank] p(2) by simp
  also have "\<dots> = Some (filter (\<lambda>p. p \<noteq> []) (parts @ [p]) @ q # qs)"
    using Cons.prems by (intro Cons.IH) auto
  finally show ?case using p(3) by simp
qed

lemma split_joined:
  "ps \<noteq> [] \<Longrightarrow> \<forall>p \<in> set ps. good_part op p \<Longrightarrow> splitExpressionAtTopLevel (join ([32] @ op @ [32]) ps) op = Some ps"
  using split_loop_joined [of "hd ps" "tl ps" "[]" _ "[]"] by (simp add: splitExpressionAtTopLevel_def)

end

interpretation split_and: splitter "js ''&&''"
  by unfold_locales (simp_all add: js_def is_quote_def bracket_delta_def)

interpretation split_multiply: splitter "js ''*''"
  by unfold_locales (simp_all add: js_def is_quote_def bracket_delta_def)

lemma split_and_joined: "ps \<noteq> [] \<Longrightarrow> \<forall>p \<in> set ps. good_part (js ''&&'') p \<Longrightarrow> splitTopLevelAnd (join (js '' && '') ps) = ps"
  using split_and.split_joined [of ps] by (simp add: splitTopLevelAnd_def js_def)

lemma split_multiply_joined: "ps \<noteq> [] \<Longrightarrow> \<forall>p \<in> set ps. good_part (js ''*'') p \<Longrightarrow> splitTopLevelMultiply (join (js '' * '') ps) = ps"
  using split_multiply.split_joined [of ps] by (simp add: splitTopLevelMultiply_def js_def)

section \<open>The parts of a condition\<close>

lemma trim_ends: "s \<noteq> [] \<Longrightarrow> \<not> is_space (hd s) \<Longrightarrow> \<not> is_space (last s) \<Longrightarrow> trim s = s"
  by (simp add: trim_def trim_start_def trim_end_def dropWhile_id hd_rev)

definition readable :: "request_condition \<Rightarrow> bool" where
  "readable c \<longleftrightarrow> (case c of Time_condition t \<Rightarrow> readable_time t | Value_condition v \<Rightarrow> readable_value v)"

definition overnight :: "time_condition \<Rightarrow> bool" where
  "overnight t \<longleftrightarrow> rc_mode t = MATCH_RANGE \<and> js_less (js_Number (rc_end t)) (js_Number (rc_start t))"

definition daytime :: "time_condition \<Rightarrow> bool" where
  "daytime t \<longleftrightarrow> rc_mode t = MATCH_RANGE \<and> \<not> js_less (js_Number (rc_end t)) (js_Number (rc_start t))"

text \<open>The two comparisons of a range.\<close>

definition lower_bound :: "time_condition \<Rightarrow> time_condition" where
  "lower_bound t = \<lparr>rc_func = rc_func t, rc_zone = rc_zone t, rc_mode = MATCH_GTE, rc_value = rc_start t, rc_start = [], rc_end = []\<rparr>"

definition upper_bound :: "time_condition \<Rightarrow> time_condition" where
  "upper_bound t = \<lparr>rc_func = rc_func t, rc_zone = rc_zone t, rc_mode = MATCH_LT, rc_value = rc_end t, rc_start = [], rc_end = []\<rparr>"

definition scalar_text :: "time_condition \<Rightarrow> jsstring" where
  "scalar_text t = spaced (rc_func t) (rc_zone t)
     (js '' '' @ (case map_of scalar_operators (rc_mode t) of Some op \<Rightarrow> op | None \<Rightarrow> js ''=='') @ js '' '' @ rc_value t)"

definition scalar_time :: "time_condition \<Rightarrow> bool" where
  "scalar_time t \<longleftrightarrow> readable_time t \<and> rc_mode t \<noteq> MATCH_RANGE"

lemma scalar_bounds:
  assumes "readable_time t" "rc_mode t = MATCH_RANGE"
  shows "scalar_time (lower_bound t)" "scalar_time (upper_bound t)"
  using assms by (auto simp: scalar_time_def readable_time_def lower_bound_def upper_bound_def match_modes js_def)

lemma build_scalar: "scalar_time t \<Longrightarrow> buildTimeConditionExpr t = scalar_text t"
  by (auto simp: scalar_time_def buildTimeConditionExpr_def normalize_readable build_time_def scalar_text_def readable_time_def
      isTimeValueInRange_def Let_def time_call_spaced)

lemma build_range:
  assumes "readable_time t" "rc_mode t = MATCH_RANGE"
  shows "buildTimeConditionExpr t =
    scalar_text (lower_bound t) @ (if overnight t then js '' || '' else js '' && '') @ scalar_text (upper_bound t)"
  using assms by (auto simp: buildTimeConditionExpr_def normalize_readable build_time_def scalar_text_def readable_time_def
      isTimeValueInRange_def Let_def time_call_spaced overnight_def lower_bound_def upper_bound_def scalar_operators_def match_modes
      spaced_append js_def)

text \<open>A text that no splitter cuts and no trimming changes.\<close>

definition sound_part :: "jsstring \<Rightarrow> bool" where
  "sound_part p \<longleftrightarrow> trim p = p \<and> p \<noteq> [] \<and> (\<forall>op d. inner op d \<longrightarrow> passes op d d p)"

lemma sound_good: "sound_part p \<Longrightarrow> good_part (js ''&&'') p"
  by (simp add: sound_part_def good_part_def inner_def)

lemma sound_partI:
  "p \<noteq> [] \<Longrightarrow> \<not> is_space (hd p) \<Longrightarrow> \<not> is_space (last p) \<Longrightarrow> (\<And>op d. inner op d \<Longrightarrow> passes op d d p) \<Longrightarrow> sound_part p"
  by (simp add: sound_part_def trim_ends)

lemma passes_paren:
  assumes "inner op d" "\<And>op d. inner op d \<Longrightarrow> passes op d d s"
  shows "passes op d d (40 # s @ [41])"
proof -
  have o: "passes op d (d + 1) [40]" "passes op (d + 1) d [41]"
    using assms(1) by (auto intro!: passes_unit inner_quiet simp: is_quote_def bracket_delta_def inner_def quiet_def)
  have "inner op (d + 1)" using assms(1) by (auto simp: inner_def)
  then show ?thesis using passes_append [OF o(1) passes_append [OF assms(2) o(2)]] by simp
qed

lemma passes_func: "inner op d \<Longrightarrow> f \<in> set TIME_FUNCS \<or> f = js ''header'' \<or> f = js ''param'' \<Longrightarrow> passes op d d f"
  by (rule passes_inner) (auto simp: TIME_FUNCS_def js_def)

lemma scalar_passes:
  assumes "scalar_time t" "inner op d"
  shows "passes op d d (scalar_text t)"
proof -
  have t: "rc_func t \<in> set TIME_FUNCS" "plain_text (rc_zone t)" "is_numeric (rc_value t)"
      "rc_mode t \<in> {MATCH_EQ, MATCH_GTE, MATCH_LT}"
    using assms(1) by (auto simp: scalar_time_def readable_time_def isTimeValueInRange_def)
  have "passes op d d (js '' '' @ (case map_of scalar_operators (rc_mode t) of Some op \<Rightarrow> op | None \<Rightarrow> js ''=='') @ js '' '')"
    using t(4) by (intro passes_inner [OF assms(2)]) (auto simp: scalar_operators_def match_modes js_def)
  from passes_append [OF this passes_numeric [OF assms(2) t(3)]]
  have "passes op d d (js '' '' @ (case map_of scalar_operators (rc_mode t) of Some op \<Rightarrow> op | None \<Rightarrow> js ''=='') @ js '' '' @ rc_value t)"
    by simp
  from passes_call [OF assms(2) passes_func [OF assms(2)] t(2) this] t(1) show ?thesis unfolding scalar_text_def by blast
qed

lemma func_start: "f \<in> set TIME_FUNCS \<or> f = js ''header'' \<or> f = js ''param'' \<Longrightarrow> f \<noteq> [] \<and> \<not> is_space (hd f)"
  by (auto simp: TIME_FUNCS_def js_def is_space_def)

lemma scalar_ends:
  assumes "scalar_time t"
  shows "scalar_text t \<noteq> []" "\<not> is_space (hd (scalar_text t))" "\<not> is_space (last (scalar_text t))"
proof -
  have t: "rc_func t \<in> set TIME_FUNCS" "is_numeric (rc_value t)"
    using assms by (auto simp: scalar_time_def readable_time_def isTimeValueInRange_def)
  then have "rc_value t \<noteq> []" "\<not> is_space (last (rc_value t))" using numeric_units [of "rc_value t"] number_unit_facts(1) last_in_set by blast+
  then show "scalar_text t \<noteq> []" "\<not> is_space (hd (scalar_text t))" "\<not> is_space (last (scalar_text t))"
    using func_start [of "rc_func t"] t(1) by (simp_all add: scalar_text_def spaced_def)
qed

lemma scalar_sound: "scalar_time t \<Longrightarrow> sound_part (scalar_text t)"
  by (intro sound_partI scalar_ends scalar_passes)

lemma range_passes:
  assumes "readable_time t" "rc_mode t = MATCH_RANGE" "inner op d" "overnight t \<or> 0 < d"
  shows "passes op d d (buildTimeConditionExpr t)"
proof -
  have "passes op d d (if overnight t then js '' || '' else js '' && '')"
    using assms(3,4) by (intro passes_plain) (auto simp: js_def is_quote_def bracket_delta_def quiet_def inner_def)
  then show ?thesis unfolding build_range [OF assms(1,2)]
    by (intro passes_append [where e = d] scalar_passes scalar_bounds assms)
qed

lemma passes_literal:
  assumes "inner op d"
  shows "passes op d d (buildExprLiteral mode v)"
proof -
  have "passes op d d (json_stringify w)" for w
    using passes_quoted [OF quoted_json_body, of op d w] by (simp add: json_stringify_def)
  moreover have "passes op d d (js ''true'')" "passes op d d (js ''false'')"
    by (auto intro!: passes_inner [OF assms] simp: js_def)
  ultimately show ?thesis using passes_numeric [OF assms] by (simp add: buildExprLiteral_def Let_def)
qed

lemma literal_last: "\<not> is_space (last (buildExprLiteral mode v))"
proof -
  have n: "is_numeric w \<Longrightarrow> \<not> is_space (last w)" for w
    using numeric_units [of w] number_unit_facts(1) last_in_set by blast
  have t: "\<not> is_space (last (js ''true''))" "\<not> is_space (last (js ''false''))" "\<not> is_space (last (json_stringify w))" for w
    by (simp_all add: js_def json_stringify_def is_space_def)
  show ?thesis unfolding buildExprLiteral_def Let_def using n t by presburger
qed

text \<open>The text of a condition on a field, by mode.\<close>

lemma build_value_cases:
  assumes "readable_value c"
  obtains (exists_header) p where "plain_text p" "buildRequestConditionExpr (Value_condition c) = spaced (js ''header'') p (js '' != '' @ [34, 34])"
  | (exists_param) p where "plain_text p" "buildRequestConditionExpr (Value_condition c) = spaced (js ''param'') p (js '' != nil'')"
  | (contains) p v where "plain_text p" "buildRequestConditionExpr (Value_condition c) =
      js ''has('' @ spaced (js ''header'') p (js '', '' @ json_stringify v @ js '')'')"
  | (equals) src p v where "plain_text p" "buildRequestConditionExpr (Value_condition c) =
      spaced (source_name src) p (js '' == '' @ buildExprLiteral MATCH_EQ v)"
proof -
  obtain src p m v where c: "c = \<lparr>vc_source = src, vc_path = p, vc_mode = m, vc_value = v\<rparr>" by (cases c)
  have p: "plain_text p" "trim p = p" and v: "trim v = v" using assms by (auto simp: c readable_value_def)
  have ne: "p \<noteq> []" using p(1) by (simp add: plain_text_def)
  have build: "buildRequestConditionExpr (Value_condition c) = build_value c"
    by (simp add: buildRequestConditionExpr_def normalize_value [OF assms])
  have modes: "map_of compare_operators MATCH_EQ = None" "MATCH_EQ \<noteq> MATCH_EXISTS" "MATCH_EQ \<noteq> MATCH_CONTAINS" "MATCH_CONTAINS \<noteq> MATCH_EXISTS"
    by (simp_all add: compare_operators_def match_modes js_def)
  note texts = build_value_def Let_def source_call_spaced [OF p(1)] source_name_def SOURCE_PARAM_def SOURCE_HEADER_def modes ne p(2)
  consider "m = MATCH_EXISTS" | "m = MATCH_CONTAINS" "src = From_header" | "m = MATCH_EQ"
    using assms by (auto simp: c readable_value_def split: if_splits)
  then show thesis
  proof cases
    case 1
    then show thesis using exists_header [OF p(1)] exists_param [OF p(1)] unfolding build unfolding c
      by (cases src) (simp_all add: texts)
  next
    case 2
    then have "buildExprLiteral m v = json_stringify v" by (simp add: buildExprLiteral_def v)
    with 2 show thesis using contains [OF p(1), of v] unfolding build unfolding c by (simp add: texts)
  next
    case 3
    then show thesis using equals [OF p(1), of src v] unfolding build unfolding c by (simp add: texts)
  qed
qed

lemma passes_texts:
  assumes "inner op d"
  shows "passes op d d (js '' != nil'')" "passes op d d (js '' == '')" "passes op d d (js '', '')" "passes op d d (js ''has'')"
    "passes op d d (js '' != '')"
  by (auto intro!: passes_inner [OF assms] simp: js_def)

lemma passes_probe:
  assumes "inner op d" "f = js ''header'' \<or> f = js ''param''" "plain_text p" "passes op d d r"
  shows "passes op d d (spaced f p r)"
  by (rule passes_call [OF assms(1) passes_func [OF assms(1)] assms(3,4)]) (use assms(2) in blast)

lemma value_passes:
  assumes "readable_value c" "inner op d"
  shows "passes op d d (buildRequestConditionExpr (Value_condition c))"
  using assms(1)
proof (cases rule: build_value_cases)
  case (exists_header p)
  have "passes op d d (js '' != '' @ [34, 34])"
    using passes_append [OF passes_texts(5) [OF assms(2)] passes_quoted [OF quoted_Nil, of op d]] by simp
  then show ?thesis unfolding exists_header(2) by (intro passes_probe assms exists_header(1)) simp_all
next
  case (exists_param p)
  then show ?thesis by (auto intro!: passes_probe assms passes_texts)
next
  case (contains p v)
  have i: "inner op (d + 1)" using assms(2) by (auto simp: inner_def)
  have q: "passes op (d + 1) (d + 1) (json_stringify v)"
    using passes_quoted [OF quoted_json_body, of op "d + 1" v] by (simp add: json_stringify_def)
  have o: "passes op d (d + 1) [40]" "passes op (d + 1) d [41]"
    using assms(2) by (auto intro!: passes_unit inner_quiet simp: is_quote_def bracket_delta_def inner_def quiet_def)
  have "passes op (d + 1) (d + 1) (spaced (js ''header'') p (js '', '' @ json_stringify v))"
    by (rule passes_probe [OF i _ contains(1) passes_append [OF passes_texts(3) [OF i] q]]) simp
  from passes_append [OF passes_texts(4) [OF assms(2)] passes_append [OF o(1) passes_append [OF this o(2)]]]
  show ?thesis unfolding contains(2) by (simp add: spaced_append js_def)
next
  case (equals src p v)
  have "source_name src = js ''header'' \<or> source_name src = js ''param''"
    by (cases src) (simp_all add: source_name_def SOURCE_PARAM_def SOURCE_HEADER_def)
  then show ?thesis unfolding equals(2)
    by (rule passes_probe [OF assms(2) _ equals(1) passes_append [OF passes_texts(2) [OF assms(2)] passes_literal [OF assms(2)]]])
qed

lemma value_ends:
  assumes "readable_value c"
  defines "t \<equiv> buildRequestConditionExpr (Value_condition c)"
  shows "t \<noteq> []" "\<not> is_space (hd t)" "\<not> is_space (last t)"
proof -
  have spaced_ends: "spaced f p r \<noteq> [] \<and> \<not> is_space (hd (spaced f p r)) \<and> \<not> is_space (last (spaced f p r))"
    if "f = js ''header'' \<or> f = js ''param''" "r \<noteq> []" "\<not> is_space (last r)" for f p r
    using that(1)
  proof -
    have "f \<noteq> [] \<and> \<not> is_space (hd f)" by (rule func_start) (use that(1) in blast)
    moreover have "last (spaced f p r) = last r" using that(2) by (simp add: spaced_def)
    ultimately show ?thesis using that(3) by (simp add: spaced_def)
  qed
  have src: "source_name src = js ''header'' \<or> source_name src = js ''param''" for src
    by (cases src) (simp_all add: source_name_def SOURCE_PARAM_def SOURCE_HEADER_def)
  have "t \<noteq> [] \<and> \<not> is_space (hd t) \<and> \<not> is_space (last t)"
    using assms(1)
  proof (cases rule: build_value_cases)
    case (exists_header p)
    show ?thesis unfolding t_def exists_header(2) by (rule spaced_ends) (simp_all add: js_def is_space_def)
  next
    case (exists_param p)
    show ?thesis unfolding t_def exists_param(2) by (rule spaced_ends) (simp_all add: js_def is_space_def)
  next
    case (contains p v)
    show ?thesis unfolding t_def contains(2) by (simp add: spaced_def js_def is_space_def)
  next
    case (equals src p v)
    show ?thesis unfolding t_def equals(2)
      by (rule spaced_ends [OF src]) (simp_all add: literal_last literal_not_empty)
  qed
  then show "t \<noteq> []" "\<not> is_space (hd t)" "\<not> is_space (last t)" by blast+
qed

lemma value_sound: "readable_value c \<Longrightarrow> sound_part (buildRequestConditionExpr (Value_condition c))"
  by (intro sound_partI value_ends value_passes)

lemma value_not_time: "readable_value c \<Longrightarrow> tryParseTimeCondition (buildRequestConditionExpr (Value_condition c) @ r) = None"
  using source_not_time(1) [of From_header, unfolded source_name_def SOURCE_HEADER_def, simplified]
    source_not_time(1) [of From_param, unfolded source_name_def SOURCE_PARAM_def, simplified]
  by (erule_tac build_value_cases) (simp_all add: spaced_append source_not_time)

section \<open>Groups of conditions\<close>

text \<open>The parts at \<open>&&\<close> that a condition is printed as: a range within a day is two of them, and a condition with
  \<open>||\<close> is put in parentheses.\<close>

definition wrap_or :: "jsstring \<Rightarrow> jsstring" where
  "wrap_or e = (if str_includes e (js '' || '') then js ''('' @ e @ js '')'' else e)"

definition condition_parts :: "request_condition \<Rightarrow> jsstring list" where
  "condition_parts c =
     (case c of
        Time_condition t \<Rightarrow>
          if daytime t then [scalar_text (lower_bound t), scalar_text (upper_bound t)] else [wrap_or (buildTimeConditionExpr t)]
      | Value_condition v \<Rightarrow> [buildRequestConditionExpr c])"

text \<open>Only the two halves of an overnight range are joined by \<open>||\<close>.\<close>

definition plain_or :: "request_condition \<Rightarrow> bool" where
  "plain_or c \<longleftrightarrow> str_includes (buildRequestConditionExpr c) (js '' || '') = (case c of Time_condition t \<Rightarrow> overnight t | _ \<Rightarrow> False)"

lemma join_append: "xs \<noteq> [] \<Longrightarrow> ys \<noteq> [] \<Longrightarrow> join sep (xs @ ys) = join sep xs @ sep @ join sep ys"
  by (induction sep xs rule: join.induct) (auto simp: neq_Nil_conv)

lemma condition_parts_ne: "condition_parts c \<noteq> []"
  by (simp add: condition_parts_def split: request_condition.split)

lemma join_parts: "join sep (map (join sep \<circ> f) xs) = join sep (concat (map f xs))" if "\<And>x. f x \<noteq> []"
proof (induction xs)
  case (Cons x xs)
  then show ?case using that by (cases xs) (simp_all add: join_append)
qed simp

lemma readable_range: "readable_time t \<Longrightarrow> daytime t \<or> overnight t \<or> scalar_time t"
  by (auto simp: daytime_def overnight_def scalar_time_def)

lemma wrapped_text:
  assumes "readable c" "plain_or c"
  shows "wrap_or (buildRequestConditionExpr c) = join (js '' && '') (condition_parts c)"
  using assms
  by (auto simp: readable_def plain_or_def condition_parts_def wrap_or_def buildRequestConditionExpr_def build_range daytime_def overnight_def
      split: request_condition.splits)

lemma overnight_sound:
  assumes "readable_time t" "overnight t"
  shows "sound_part (40 # buildTimeConditionExpr t @ [41])"
proof (rule sound_partI)
  fix op d assume "inner op d"
  then show "passes op d d (40 # buildTimeConditionExpr t @ [41])"
    by (rule passes_paren) (use assms range_passes in \<open>auto simp: overnight_def\<close>)
qed (simp_all add: is_space_def)

lemma parts_sound:
  assumes "readable c" "plain_or c" "p \<in> set (condition_parts c)"
  shows "sound_part p"
proof (cases c)
  case (Value_condition v)
  with assms value_sound show ?thesis by (simp add: condition_parts_def readable_def)
next
  case (Time_condition t)
  with assms have t: "readable_time t" and or: "str_includes (buildTimeConditionExpr t) (js '' || '') = overnight t"
    by (simp_all add: readable_def plain_or_def buildRequestConditionExpr_def)
  from readable_range [OF t] show ?thesis
  proof (elim disjE)
    assume "daytime t"
    with assms Time_condition scalar_bounds [OF t] scalar_sound show ?thesis by (auto simp: condition_parts_def daytime_def)
  next
    assume "overnight t"
    with assms Time_condition overnight_sound [OF t] or show ?thesis by (auto simp: condition_parts_def wrap_or_def overnight_def daytime_def js_def)
  next
    assume s: "scalar_time t"
    then have "\<not> overnight t" "\<not> daytime t" by (auto simp: scalar_time_def overnight_def daytime_def)
    with assms Time_condition scalar_sound [OF s] build_scalar [OF s] or show ?thesis by (auto simp: condition_parts_def wrap_or_def)
  qed
qed

definition group_text :: "request_condition list \<Rightarrow> jsstring" where
  "group_text cs = join (js '' && '') (map (\<lambda>c. wrap_or (buildRequestConditionExpr c)) cs)"

lemma group_text_parts:
  assumes "\<forall>c \<in> set cs. readable c \<and> plain_or c"
  shows "group_text cs = join (js '' && '') (concat (map condition_parts cs))"
proof -
  have "map (\<lambda>c. wrap_or (buildRequestConditionExpr c)) cs = map (join (js '' && '') \<circ> condition_parts) cs"
    using assms wrapped_text by simp
  then show ?thesis unfolding group_text_def using join_parts [of condition_parts, OF condition_parts_ne] by metis
qed

lemma split_group:
  assumes "\<forall>c \<in> set cs. readable c \<and> plain_or c" "cs \<noteq> []"
  shows "splitTopLevelAnd (group_text cs) = concat (map condition_parts cs)"
  unfolding group_text_parts [OF assms(1)]
proof (rule split_and_joined)
  show "concat (map condition_parts cs) \<noteq> []" using assms(2) condition_parts_ne by (auto simp: neq_Nil_conv)
  show "\<forall>p \<in> set (concat (map condition_parts cs)). good_part (js ''&&'') p"
    using assms(1) parts_sound sound_good by auto
qed

section \<open>Reading a group\<close>

definition mergeable :: "time_condition \<Rightarrow> time_condition \<Rightarrow> bool" where
  "mergeable a b \<longleftrightarrow> rc_func a = rc_func b \<and> rc_zone a = rc_zone b \<and> rc_mode a = MATCH_GTE \<and> rc_mode b = MATCH_LT"

text \<open>Two neighbours that are read as one range.\<close>

fun unmerged :: "request_condition list \<Rightarrow> bool" where
  "unmerged [] = True"
| "unmerged (c # cs) = (unmerged cs \<and>
     (case (c, cs) of (Time_condition a, Time_condition b # _) \<Rightarrow> \<not> mergeable a b | _ \<Rightarrow> True))"

definition part_time :: "request_condition \<Rightarrow> time_condition option" where
  "part_time c = (case c of Time_condition t \<Rightarrow> Some (if daytime t then lower_bound t else t) | Value_condition _ \<Rightarrow> None)"

lemma read_scalar: "scalar_time t \<Longrightarrow> tryParseTimeCondition (scalar_text t) = Some t"
  using time_condition_roundtrip [of t] by (simp add: build_scalar scalar_time_def)

lemma read_overnight:
  assumes "readable_time t" "overnight t"
  shows "tryParseTimeCondition (40 # buildTimeConditionExpr t @ [41]) = Some t"
proof -
  have f: "rc_func t \<in> set TIME_FUNCS" and z: "plain_text (rc_zone t)" and v: "rc_value t = []" "rc_mode t = MATCH_RANGE"
    and r: "isTimeValueInRange (rc_func t) (rc_start t)" "isTimeValueInRange (rc_func t) (rc_end t)"
    using assms by (auto simp: readable_time_def overnight_def)
  then have n: "is_numeric (rc_start t)" "is_numeric (rc_end t)" by (auto simp: isTimeValueInRange_def)
  have m: "map_of scalar_operators MATCH_GTE = Some (js ''>='')" "map_of scalar_operators MATCH_LT = Some (js ''<'')"
    by (simp_all add: scalar_operators_def match_modes js_def)
  have "40 # buildTimeConditionExpr t @ [41] = 40 # spaced (rc_func t) (rc_zone t) (js '' >= '' @ rc_start t @ js '' || '' @
      spaced (rc_func t) (rc_zone t) (js '' < '' @ rc_end t @ js '')''))"
    using build_range [OF assms(1) v(2)] assms(2) m by (simp add: scalar_text_def lower_bound_def upper_bound_def spaced_append js_def)
  then show ?thesis using exec_wrapped_range [OF f z n] r v
    by (cases t) (simp add: tryParseTimeCondition_def exec_range_parenthesis)
qed

lemma read_part:
  assumes "readable c" "plain_or c"
  shows "tryParseTimeCondition (hd (condition_parts c)) = part_time c"
proof (cases c)
  case (Value_condition v)
  with assms value_not_time [of v "[]"] show ?thesis by (simp add: condition_parts_def readable_def part_time_def)
next
  case (Time_condition t)
  with assms have t: "readable_time t" and or: "str_includes (buildTimeConditionExpr t) (js '' || '') = overnight t"
    by (simp_all add: readable_def plain_or_def buildRequestConditionExpr_def)
  from readable_range [OF t] show ?thesis
  proof (elim disjE)
    assume "daytime t"
    with Time_condition scalar_bounds(1) [OF t] read_scalar show ?thesis by (auto simp: condition_parts_def part_time_def daytime_def)
  next
    assume o: "overnight t"
    then have "\<not> daytime t" by (auto simp: overnight_def daytime_def)
    with Time_condition read_overnight [OF t o] o or show ?thesis by (simp add: condition_parts_def wrap_or_def part_time_def js_def)
  next
    assume s: "scalar_time t"
    then have "\<not> overnight t" "\<not> daytime t" by (auto simp: scalar_time_def overnight_def daytime_def)
    with Time_condition read_scalar [OF s] build_scalar [OF s] or show ?thesis by (auto simp: condition_parts_def wrap_or_def part_time_def)
  qed
qed

lemma pair_None:
  assumes "tryParseTimeCondition p = a" "tryParseTimeCondition q = b" "\<And>x y. a = Some x \<Longrightarrow> b = Some y \<Longrightarrow> \<not> mergeable x y"
  shows "tryParseTimeRangePair p q = None"
  using assms by (auto simp: tryParseTimeRangePair_def mergeable_def split: option.split)

lemma pair_daytime:
  assumes "readable_time t" "daytime t"
  shows "tryParseTimeRangePair (scalar_text (lower_bound t)) (scalar_text (upper_bound t)) = Some t"
proof -
  have "rc_mode t = MATCH_RANGE" "rc_value t = []" using assms by (auto simp: daytime_def readable_time_def)
  with scalar_bounds [OF assms(1)] read_scalar show ?thesis
    by (cases t) (simp add: tryParseTimeRangePair_def, simp add: lower_bound_def upper_bound_def)
qed

lemma single_part:
  assumes "readable c" "plain_or c" "\<nexists>t. c = Time_condition t \<and> daytime t"
  obtains p where "condition_parts c = [p]" "tryParseRequestCondition p = Inr (Some c)" "trim p = p" "p \<noteq> []"
    "tryParseTimeCondition p = (case c of Time_condition t \<Rightarrow> Some t | _ \<Rightarrow> None)"
proof -
  obtain p where p: "condition_parts c = [p]" using assms(3) by (cases c) (auto simp: condition_parts_def)
  have s: "trim p = p" "p \<noteq> []" using parts_sound [OF assms(1,2), of p] p by (auto simp: sound_part_def)
  have r: "tryParseTimeCondition p = (case c of Time_condition t \<Rightarrow> Some t | _ \<Rightarrow> None)"
    using read_part [OF assms(1,2)] p assms(3) by (auto simp: part_time_def split: request_condition.splits)
  have "tryParseRequestCondition p = Inr (Some c)"
  proof (cases c)
    case (Value_condition v)
    then show ?thesis using assms(1) p value_condition_roundtrip [of v] by (simp add: readable_def condition_parts_def)
  next
    case (Time_condition t)
    then show ?thesis using r by (simp add: tryParseRequestCondition_def)
  qed
  with that p s r show thesis by blast
qed

lemma read_condition:
  assumes "readable c" "plain_or c" "ps = [] \<or> trim (hd ps) = [] \<or> (\<forall>t y. c = Time_condition t \<longrightarrow> tryParseTimeCondition (trim (hd ps)) = Some y \<longrightarrow> \<not> mergeable t y)"
  shows "parse_and_parts (condition_parts c @ ps) acc = parse_and_parts ps (acc @ [c])"
proof (cases "\<exists>t. c = Time_condition t \<and> daytime t")
  case True
  then obtain t where t: "c = Time_condition t" "daytime t" by blast
  with assms have r: "readable_time t" by (simp add: readable_def)
  have s: "sound_part (scalar_text (lower_bound t))" "sound_part (scalar_text (upper_bound t))"
    using r t(2) scalar_bounds scalar_sound by (auto simp: daytime_def)
  then show ?thesis using t pair_daytime [OF r t(2)] by (simp add: condition_parts_def sound_part_def)
next
  case False
  with single_part [OF assms(1,2)] obtain p where p: "condition_parts c = [p]" "tryParseRequestCondition p = Inr (Some c)" "trim p = p"
    "tryParseTimeCondition p = (case c of Time_condition t \<Rightarrow> Some t | _ \<Rightarrow> None)" by metis
  have "tryParseTimeRangePair p (trim (hd ps)) = None" if "ps \<noteq> []" "trim (hd ps) \<noteq> []"
    by (rule pair_None [OF p(4) refl]) (use assms(3) that in \<open>auto split: request_condition.splits\<close>)
  then show ?thesis using p by (cases ps) (auto simp: Let_def)
qed

lemma read_group:
  assumes "\<forall>c \<in> set cs. readable c \<and> plain_or c" "unmerged cs"
  shows "parse_and_parts (concat (map condition_parts cs)) acc = Inr (if acc @ cs = [] then None else Some (acc @ cs))"
  using assms
proof (induction cs arbitrary: acc)
  case (Cons c cs)
  let ?ps = "concat (map condition_parts cs)"
  have "cs = [] \<or> (\<forall>t y. c = Time_condition t \<longrightarrow> tryParseTimeCondition (trim (hd ?ps)) = Some y \<longrightarrow> \<not> mergeable t y)"
  proof (cases cs)
    case (Cons d ds)
    have d: "readable d" "plain_or d" using Cons.prems(1) Cons by auto
    have h: "hd ?ps = hd (condition_parts d)" using condition_parts_ne Cons by simp
    have "trim (hd ?ps) = hd ?ps" using parts_sound [OF d] h condition_parts_ne by (simp add: sound_part_def)
    then have "tryParseTimeCondition (trim (hd ?ps)) = part_time d" using h read_part [OF d] by simp
    moreover have "rc_mode (lower_bound b) \<noteq> MATCH_LT" for b by (simp add: lower_bound_def match_modes js_def)
    ultimately show ?thesis using Cons.prems(2) Cons by (auto simp: part_time_def mergeable_def split: request_condition.splits if_splits)
  qed simp
  then have "parse_and_parts (condition_parts c @ ?ps) acc = parse_and_parts ?ps (acc @ [c])"
    using Cons.prems(1) by (intro read_condition) auto
  with Cons show ?case by simp
qed simp

lemma starts_func: "f \<in> set TIME_FUNCS \<Longrightarrow> g \<in> set TIME_FUNCS \<Longrightarrow> starts_with (spaced g z r) f \<longleftrightarrow> f = g"
  by (auto simp: TIME_FUNCS_def spaced_def js_def)

lemma starts_zone:
  assumes "plain_text z" "plain_text y" "starts_with (y @ 34 # r) z" "starts_with (drop (length z) (y @ 34 # r)) (34 # w)"
  shows "z = y"
proof -
  have q: "34 \<notin> set z" "34 \<notin> set y" using assms(1,2) by (auto simp: plain_text_def)
  from assms(3) obtain t where t: "y @ 34 # r = z @ t" by (auto simp: starts_with_iff prefix_def)
  with assms(4) obtain u where u: "t = 34 # u" by (cases t) auto
  with t have "takeWhile (\<lambda>c. c \<noteq> 34) (y @ 34 # r) = takeWhile (\<lambda>c. c \<noteq> 34) (z @ 34 # u)" by simp
  moreover have "takeWhile (\<lambda>c. c \<noteq> 34) (x @ 34 # v) = x" if "34 \<notin> set x" for x :: jsstring and v
    using that by (subst takeWhile_append2) auto
  ultimately show "z = y" using q by simp
qed

lemma starts_with_split: "starts_with s (u @ v) \<longleftrightarrow> starts_with s u \<and> starts_with (drop (length u) s) v"
  by (induction s u rule: starts_with.induct) auto

lemma starts_spaced:
  assumes "f \<in> set TIME_FUNCS" "plain_text z" "g \<in> set TIME_FUNCS" "plain_text y" "starts_with (spaced g y r) (spaced f z w)"
  shows "f = g \<and> z = y \<and> starts_with r w"
proof -
  have "starts_with (spaced g y r) f" using assms(5) by (simp add: spaced_def [of f] starts_with_split)
  then have f: "f = g" using starts_func [OF assms(1,3)] by simp
  with assms(5) have z: "starts_with (y @ 34 # 41 # r) z" "starts_with (drop (length z) (y @ 34 # 41 # r)) (34 # 41 # w)"
    by (simp_all add: spaced_def starts_with_split)
  then have "z = y" using starts_zone [OF assms(2,4)] by blast
  with f z show ?thesis by simp
qed

text \<open>The second half of a range pattern.\<close>

definition range_tail :: regex where
  "range_tail = R_seq [R_backref 1, R_text (js ''('' @ [34]), R_backref 2, R_text ([34] @ js '') < ''), R_numbers 4, R_end]"

lemma range_tail_other:
  assumes "\<not> starts_with rest (spaced f z (js '' < ''))"
  shows "matches range_tail rest [(3, s), (2, z), (1, f)] = []"
proof -
  have "spaced f z (js '' < '') = f @ [40, 34] @ z @ [34, 41, 32, 60, 32]" by (simp add: spaced_def js_def)
  with assms have "\<not> starts_with rest (f @ [40, 34] @ z @ [34, 41, 32, 60, 32])" by metis
  then have "\<not> (starts_with rest f \<and> starts_with (drop (length f) rest) [40, 34] \<and>
      starts_with (drop (Suc (Suc 0)) (drop (length f) rest)) z \<and> starts_with (drop (length z) (drop (Suc (Suc 0)) (drop (length f) rest))) [34, 41, 32, 60, 32])"
    unfolding starts_with_split by simp
  then show ?thesis by (simp add: range_tail_def regex_simps js_def del: matches.simps(3) drop_drop)
qed

lemma exec_range_first:
  assumes "f \<in> set TIME_FUNCS" "plain_text z" "is_numeric s"
  shows "exec time_range_pattern (spaced f z (js '' >= '' @ s @ js '' && '' @ rest)) =
    (case matches range_tail rest [(3, s), (2, z), (1, f)] of [] \<Rightarrow> None | (_, c) # _ \<Rightarrow> Some c)"
proof -
  note steps = matches_time_func [OF assms(1)] matches_unquoted [OF assms(2)] matches_numbers [OF assms(3)] regex_simps
  show ?thesis
    by (simp add: exec_def time_range_pattern_def time_range_body_def range_tail_def spaced_def steps js_def del: matches.simps(3) drop_drop)
qed

text \<open>A condition followed by \<open>&&\<close> and another text is no time condition as a whole.\<close>

lemma scalar_continued:
  assumes "scalar_time t" "rc_mode t = MATCH_GTE \<Longrightarrow> \<not> starts_with rest (spaced (rc_func t) (rc_zone t) (js '' < ''))"
  shows "tryParseTimeCondition (scalar_text t @ js '' && '' @ rest) = None"
proof -
  have f: "rc_func t \<in> set TIME_FUNCS" and z: "plain_text (rc_zone t)" and n: "is_numeric (rc_value t)"
      and m: "rc_mode t \<in> {MATCH_EQ, MATCH_GTE, MATCH_LT}"
    using assms(1) by (auto simp: scalar_time_def readable_time_def isTimeValueInRange_def)
  note steps = matches_time_func [OF f] matches_unquoted [OF z] matches_numbers [OF n] regex_simps
  let ?s = "scalar_text t @ js '' && '' @ rest"
  have op: "map_of scalar_operators (rc_mode t) \<in> {Some (js ''==''), Some (js ''>=''), Some (js ''<'')}"
    using m by (auto simp: scalar_operators_def match_modes js_def)
  have w: "exec wrapped_time_range_pattern ?s = None"
    using time_func_start [OF f] by (simp add: scalar_text_def time_texts steps js_def del: matches.simps(3))
  have sc: "exec time_scalar_pattern ?s = None"
    using op by (elim insertE emptyE) (simp_all add: scalar_text_def time_texts steps js_def del: matches.simps(3) drop_drop)
  have r: "exec time_range_pattern ?s = None"
  proof (cases "rc_mode t = MATCH_GTE")
    case True
    then have e: "?s = spaced (rc_func t) (rc_zone t) (js '' >= '' @ rc_value t @ js '' && '' @ rest)"
      by (simp add: scalar_text_def spaced_append scalar_operators_def match_modes js_def)
    show ?thesis unfolding e exec_range_first [OF f z n] using range_tail_other [OF assms(2) [OF True]] by simp
  next
    case False
    with m have "map_of scalar_operators (rc_mode t) \<in> {Some (js ''==''), Some (js ''<'')}"
      by (auto simp: scalar_operators_def match_modes js_def)
    then show ?thesis
      by (elim insertE emptyE) (simp_all add: scalar_text_def time_texts steps js_def del: matches.simps(3) drop_drop)
  qed
  show ?thesis by (simp add: tryParseTimeCondition_def w sc r)
qed

lemma daytime_continued:
  assumes "readable_time t" "rc_mode t = MATCH_RANGE"
  shows "tryParseTimeCondition (scalar_text (lower_bound t) @ js '' && '' @ scalar_text (upper_bound t) @ js '' && '' @ rest) = None"
proof -
  have f: "rc_func t \<in> set TIME_FUNCS" and z: "plain_text (rc_zone t)" and n: "is_numeric (rc_start t)" "is_numeric (rc_end t)"
    using assms by (auto simp: readable_time_def isTimeValueInRange_def)
  note steps = matches_time_func [OF f] matches_unquoted [OF z] matches_numbers [OF n(1)] matches_numbers [OF n(2)] regex_simps
  let ?s = "scalar_text (lower_bound t) @ js '' && '' @ scalar_text (upper_bound t) @ js '' && '' @ rest"
  note texts = scalar_text_def lower_bound_def upper_bound_def scalar_operators_def match_modes time_texts js_def
  have "exec time_range_pattern ?s = None" "exec time_scalar_pattern ?s = None"
    by (simp_all add: texts steps del: matches.simps(3) drop_drop)
  moreover have "exec wrapped_time_range_pattern ?s = None"
    using time_func_start [OF f] by (simp add: texts steps del: matches.simps(3))
  ultimately show ?thesis by (simp add: tryParseTimeCondition_def)
qed

lemma overnight_continued:
  assumes "readable_time t" "overnight t"
  shows "tryParseTimeCondition ((40 # buildTimeConditionExpr t @ [41]) @ js '' && '' @ rest) = None"
proof -
  have f: "rc_func t \<in> set TIME_FUNCS" and z: "plain_text (rc_zone t)" and n: "is_numeric (rc_start t)" "is_numeric (rc_end t)"
    and m: "rc_mode t = MATCH_RANGE"
    using assms by (auto simp: readable_time_def isTimeValueInRange_def overnight_def)
  note steps = matches_time_func [OF f] matches_unquoted [OF z] matches_numbers [OF n(1)] matches_numbers [OF n(2)] regex_simps
  note texts = build_range [OF assms(1) m] scalar_text_def lower_bound_def upper_bound_def scalar_operators_def match_modes time_texts js_def
  let ?s = "(40 # buildTimeConditionExpr t @ [41]) @ js '' && '' @ rest"
  have "exec wrapped_time_range_pattern ?s = None" using assms(2)
    by (simp add: texts steps del: matches.simps(3) drop_drop)
  moreover have "exec time_scalar_pattern ?s = None"
    by (simp add: time_scalar_pattern_def exec_def matches_time_func_other TIME_FUNCS_def js_def del: matches.simps(3))
  ultimately show ?thesis by (simp add: tryParseTimeCondition_def exec_range_parenthesis)
qed

lemma group_text_Cons: "group_text (c # cs) = wrap_or (buildRequestConditionExpr c) @ (if cs = [] then [] else js '' && '' @ group_text cs)"
  by (cases cs) (simp_all add: group_text_def)

lemma value_start:
  assumes "readable_value v" "f \<in> set TIME_FUNCS"
  shows "\<not> starts_with (buildRequestConditionExpr (Value_condition v) @ r) (f @ w)"
  using assms(1)
proof (cases rule: build_value_cases)
  case (equals src p v)
  show ?thesis unfolding equals(2) using assms(2)
    by (cases src) (auto simp: TIME_FUNCS_def spaced_def source_name_def SOURCE_PARAM_def SOURCE_HEADER_def js_def)
qed (use assms(2) in \<open>auto simp: TIME_FUNCS_def spaced_def js_def\<close>)

lemma wrap_cases:
  assumes "readable c" "plain_or c"
  obtains (val) v where "c = Value_condition v" "readable_value v" "wrap_or (buildRequestConditionExpr c) = buildRequestConditionExpr c"
  | (overnight) t where "c = Time_condition t" "readable_time t" "overnight t"
      "wrap_or (buildRequestConditionExpr c) = 40 # buildTimeConditionExpr t @ [41]"
  | (daytime) t where "c = Time_condition t" "readable_time t" "rc_mode t = MATCH_RANGE"
      "wrap_or (buildRequestConditionExpr c) = scalar_text (lower_bound t) @ js '' && '' @ scalar_text (upper_bound t)"
  | (scalar) t where "c = Time_condition t" "scalar_time t" "wrap_or (buildRequestConditionExpr c) = scalar_text t"
proof (cases c)
  case (Value_condition v)
  with assms val show thesis by (simp add: readable_def plain_or_def wrap_or_def)
next
  case (Time_condition t)
  with assms have t: "readable_time t" and or: "str_includes (buildTimeConditionExpr t) (js '' || '') = overnight t"
    by (simp_all add: readable_def plain_or_def buildRequestConditionExpr_def)
  have w: "wrap_or (buildRequestConditionExpr c) = (if overnight t then 40 # buildTimeConditionExpr t @ [41] else buildTimeConditionExpr t)"
    by (simp add: Time_condition or wrap_or_def buildRequestConditionExpr_def) (simp add: js_def)
  from readable_range [OF t] show thesis
  proof (elim disjE)
    assume d: "daytime t"
    then have "\<not> overnight t" "rc_mode t = MATCH_RANGE" by (auto simp: daytime_def overnight_def)
    then show thesis using daytime [OF Time_condition t] build_range [OF t] w by simp
  next
    assume "overnight t"
    then show thesis using overnight [OF Time_condition t] w by simp
  next
    assume s: "scalar_time t"
    then have "\<not> overnight t" by (auto simp: scalar_time_def overnight_def)
    then show thesis using scalar [OF Time_condition s] build_scalar [OF s] w by simp
  qed
qed

lemma scalar_start:
  assumes "scalar_time b" "f \<in> set TIME_FUNCS" "plain_text z" "starts_with (scalar_text b @ r) (spaced f z (js '' < ''))"
  shows "f = rc_func b \<and> z = rc_zone b \<and> rc_mode b = MATCH_LT"
proof -
  have b: "rc_func b \<in> set TIME_FUNCS" "plain_text (rc_zone b)" "rc_mode b \<in> {MATCH_EQ, MATCH_GTE, MATCH_LT}"
    using assms(1) by (auto simp: scalar_time_def readable_time_def)
  from assms(4) have "f = rc_func b \<and> z = rc_zone b \<and>
      starts_with ((js '' '' @ (case map_of scalar_operators (rc_mode b) of Some op \<Rightarrow> op | None \<Rightarrow> js ''=='') @ js '' '' @ rc_value b) @ r) (js '' < '')"
    unfolding scalar_text_def spaced_append by (rule starts_spaced [OF assms(2,3) b(1,2)])
  with b(3) show ?thesis by (auto simp: scalar_operators_def match_modes js_def)
qed

lemma group_start:
  assumes "readable d" "plain_or d" "f \<in> set TIME_FUNCS" "plain_text z"
    "starts_with (group_text (d # ds)) (spaced f z (js '' < ''))"
  obtains b where "d = Time_condition b" "rc_func b = f" "rc_zone b = z" "rc_mode b = MATCH_LT"
proof -
  define r where "r = (if ds = [] then [] else js '' && '' @ group_text ds)"
  have s: "starts_with (wrap_or (buildRequestConditionExpr d) @ r) (spaced f z (js '' < ''))"
    using assms(5) by (simp add: group_text_Cons r_def)
  from assms(1,2) show thesis
  proof (cases rule: wrap_cases)
    case (val v)
    then show thesis using s value_start [OF val(2) assms(3)] by (simp add: spaced_def [of f])
  next
    case (overnight t)
    then show thesis using s assms(3) by (auto simp: spaced_def [of f] TIME_FUNCS_def js_def)
  next
    case (daytime t)
    have "scalar_time (lower_bound t)" "rc_mode (lower_bound t) \<noteq> MATCH_LT"
      using scalar_bounds daytime by (auto simp: lower_bound_def match_modes js_def)
    then show thesis using s scalar_start [of "lower_bound t" f z] assms(3,4) daytime(4) by force
  next
    case (scalar t)
    then show thesis using s scalar_start [OF scalar(2) assms(3,4)] that by metis
  qed
qed

lemma group_not_time:
  assumes "\<forall>c \<in> set (c # d # ds). readable c \<and> plain_or c" "unmerged (c # d # ds)"
  shows "tryParseTimeCondition (group_text (c # d # ds)) = None"
proof -
  let ?r = "group_text (d # ds)"
  have g: "group_text (c # d # ds) = wrap_or (buildRequestConditionExpr c) @ js '' && '' @ ?r" by (simp add: group_text_Cons)
  have c: "readable c" "plain_or c" and d: "readable d" "plain_or d" using assms(1) by auto
  from c show ?thesis
  proof (cases rule: wrap_cases)
    case (val v)
    then show ?thesis unfolding g using value_not_time by simp
  next
    case (overnight t)
    then show ?thesis unfolding g using overnight_continued by simp
  next
    case (daytime t)
    then show ?thesis unfolding g using daytime_continued [OF daytime(2,3)] by simp
  next
    case (scalar t)
    have t: "rc_func t \<in> set TIME_FUNCS" "plain_text (rc_zone t)" using scalar(2) by (auto simp: scalar_time_def readable_time_def)
    have "\<not> starts_with ?r (spaced (rc_func t) (rc_zone t) (js '' < ''))" if "rc_mode t = MATCH_GTE"
    proof
      assume "starts_with ?r (spaced (rc_func t) (rc_zone t) (js '' < ''))"
      then obtain b where "d = Time_condition b" "rc_func b = rc_func t" "rc_zone b = rc_zone t" "rc_mode b = MATCH_LT"
        using group_start [OF d t] by blast
      with that assms(2) scalar(1) show False by (simp add: mergeable_def)
    qed
    then show ?thesis unfolding g using scalar_continued [OF scalar(2)] scalar(3) by simp
  qed
qed

section \<open>Rules\<close>

lemma concat_only:
  assumes "distinct ks" "k \<in> set ks" "\<And>j. j \<in> set ks \<Longrightarrow> j \<noteq> k \<Longrightarrow> g j = []"
  shows "concat (map g ks) = g k"
proof -
  obtain xs ys where ks: "ks = xs @ k # ys" using assms(2) by (auto simp: in_set_conv_decomp)
  with assms have "concat (map g xs) = []" "concat (map g ys) = []" by auto
  then show ?thesis unfolding ks map_append list.map concat_append concat.simps by (simp only: append_Nil append_Nil2)
qed

definition rule_tail :: regex where
  "rule_tail = R_seq [R_text (js '' ? ''), R_numbers 2, R_text (js '' : 1)''), R_end]"

lemma rule_tail_matches:
  "matches rule_tail t c \<noteq> [] \<Longrightarrow> \<exists>m. list_all is_number_unit m \<and> t = js '' ? '' @ m @ js '' : 1)''"
proof -
  assume a: "matches rule_tail t c \<noteq> []"
  define u where "u = drop (Suc (Suc (Suc 0))) t"
  have rej: "rejects is_number_unit (R_cat (R_text (js '' : 1)'')) R_end)" by (simp add: js_def)
  from a have s: "starts_with t (js '' ? '')" and m: "matches (R_cat (R_numbers 2) (R_cat (R_text (js '' : 1)'')) R_end)) u c \<noteq> []"
    by (auto simp: rule_tail_def regex_simps u_def js_def simp del: matches.simps(3) split: if_splits)
  from m have d: "starts_with (dropWhile is_number_unit u) (js '' : 1)'')" "drop (Suc (Suc (Suc (Suc (Suc 0))))) (dropWhile is_number_unit u) = []"
    unfolding R_numbers_def matches_group_run [OF rej]
    by (auto simp: regex_simps js_def simp del: matches.simps(3) split: if_splits)
  have "t = js '' ? '' @ u" using s by (auto simp: starts_with_iff prefix_def u_def js_def)
  moreover have "dropWhile is_number_unit u = js '' : 1)''" using d by (auto simp: starts_with_iff prefix_def js_def)
  moreover have "list_all is_number_unit (takeWhile is_number_unit u)" by (auto simp: list_all_iff dest: set_takeWhileD)
  ultimately show ?thesis by (metis takeWhile_dropWhile_id)
qed

lemma rule_tail_unique:
  assumes "list_all is_number_unit m" "list_all is_number_unit n" "w @ js '' ? '' @ m = v @ js '' ? '' @ n"
  shows "w = v"
proof -
  have "takeWhile is_number_unit (rev (w @ js '' ? '' @ m)) = rev m" if "list_all is_number_unit m" for w m
  proof -
    have "takeWhile is_number_unit (rev m @ 32 # 63 # 32 # rev w) = rev m @ takeWhile is_number_unit (32 # 63 # 32 # rev w)"
      by (rule takeWhile_append2) (use that in \<open>simp add: list_all_iff\<close>)
    then show ?thesis by (simp add: js_def)
  qed
  from this [OF assms(1), of w] this [OF assms(2), of v] have "rev m = rev n" by (simp only: assms(3))
  with assms(3) show ?thesis by simp
qed

lemma exec_rule_factor:
  assumes "w \<noteq> []" "is_numeric m"
  shows "exec rule_factor_pattern (js ''('' @ w @ js '' ? '' @ m @ js '' : 1)'') = Some [(2, m), (1, w)]"
proof -
  define s where "s = w @ js '' ? '' @ m @ js '' : 1)''"
  have m: "list_all is_number_unit m" using numeric_units(2) [OF assms(2)] by (simp add: list_all_iff)
  let ?g = "\<lambda>k. matches rule_tail (drop k s) [(1, take (length s - (length s - k)) s)]"
  have all: "takeWhile (\<lambda>_. True) s = s" by simp
  have "matches (R_cat (R_group 1 (R_plus (R_class (\<lambda>_. True)))) rule_tail) s [] = concat (map ?g (rev [1..<Suc (length s)]))"
    by (simp add: matches_plus_class all comp_def del: upt_Suc)
  also have "\<dots> = ?g (length w)"
  proof (rule concat_only)
    show "length w \<in> set (rev [1..<Suc (length s)])" using assms(1) by (auto simp: s_def Suc_le_eq)
    fix j assume j: "j \<in> set (rev [1..<Suc (length s)])" "j \<noteq> length w"
    show "?g j = []"
    proof (rule ccontr)
      assume "?g j \<noteq> []"
      then obtain n where n: "list_all is_number_unit n" "drop j s = js '' ? '' @ n @ js '' : 1)''" using rule_tail_matches by blast
      then have "take j s @ js '' ? '' @ n @ js '' : 1)'' = w @ js '' ? '' @ m @ js '' : 1)''"
        by (metis append_take_drop_id s_def)
      then have "take j s = w" using rule_tail_unique [OF n(1) m, of "take j s" w] by simp
      with j show False by auto
    qed
  qed simp
  also have "\<dots> = [([], [(2, m), (1, w)])]"
    by (simp add: s_def rule_tail_def regex_simps matches_numbers [OF assms(2)] js_def del: matches.simps(3))
  finally show ?thesis
    by (simp add: exec_def rule_factor_pattern_def s_def rule_tail_def regex_simps js_def del: matches.simps(3))
qed

lemma trimmed_ends:
  assumes "trim s = s" "s \<noteq> []"
  shows "\<not> is_space (hd s)" "\<not> is_space (last s)"
proof -
  have "hd (trim_end (trim_start s)) = hd (trim_start s)" using assms trim_end_hd [of "trim_start s"] by (simp add: trim_def)
  moreover have "trim_start s \<noteq> []" using assms by (auto simp: trim_def trim_end_def)
  then have "\<not> is_space (hd (trim_start s))" unfolding trim_start_def by (rule hd_dropWhile)
  ultimately show "\<not> is_space (hd s)" using assms by (simp add: trim_def)
  have e: "trim_end (trim_start s) = s" using assms(1) by (simp add: trim_def)
  then have "dropWhile is_space (rev (trim_start s)) \<noteq> []" using assms(2) unfolding trim_end_def by force
  then have "\<not> is_space (hd (dropWhile is_space (rev (trim_start s))))" by (rule hd_dropWhile)
  moreover have "last s = hd (dropWhile is_space (rev (trim_start s)))" using e by (metis last_rev trim_end_def)
  ultimately show "\<not> is_space (last s)" by simp
qed

lemma trim_join:
  assumes "ps \<noteq> []" "\<forall>p \<in> set ps. trim p = p \<and> p \<noteq> []"
  shows "trim (join sep ps) = join sep ps \<and> join sep ps \<noteq> []"
proof -
  have "join sep ps \<noteq> [] \<and> hd (join sep ps) = hd (hd ps) \<and> last (join sep ps) = last (last ps)"
    using assms by (induction sep ps rule: join.induct) auto
  moreover have "\<not> is_space (hd (hd ps))" "\<not> is_space (last (last ps))"
    using assms trimmed_ends [of "hd ps"] trimmed_ends [of "last ps"] by auto
  ultimately show ?thesis using trim_ends by metis
qed

text \<open>The groups of rules that the editor prints and reads back.\<close>

definition readable_group :: "rule_group \<Rightarrow> bool" where
  "readable_group g \<longleftrightarrow> rg_conditions g \<noteq> [] \<and> (\<forall>c \<in> set (rg_conditions g). readable c) \<and>
     (1 < length (rg_conditions g) \<longrightarrow> (\<forall>c \<in> set (rg_conditions g). plain_or c) \<and> unmerged (rg_conditions g)) \<and>
     is_numeric (rg_multiplier g) \<and> rg_conditionText g = None \<and> rg_matched g = None"

definition combined_text :: "request_condition list \<Rightarrow> jsstring" where
  "combined_text cs = (if length cs = 1 then buildRequestConditionExpr (hd cs) else group_text cs)"

lemma readable_text:
  assumes "readable c"
  shows "trim (buildRequestConditionExpr c) = buildRequestConditionExpr c \<and> buildRequestConditionExpr c \<noteq> []"
    "0 < d \<Longrightarrow> passes op d d (buildRequestConditionExpr c)"
proof (atomize (full), cases c)
  case (Value_condition v)
  with assms value_sound [of v] show "(trim (buildRequestConditionExpr c) = buildRequestConditionExpr c \<and> buildRequestConditionExpr c \<noteq> []) \<and>
      (0 < d \<longrightarrow> passes op d d (buildRequestConditionExpr c))"
    by (simp add: readable_def sound_part_def inner_def)
next
  case (Time_condition t)
  have t: "readable_time t" using assms Time_condition by (simp add: readable_def)
  have b: "buildRequestConditionExpr c = buildTimeConditionExpr t" by (simp add: Time_condition buildRequestConditionExpr_def)
  show "(trim (buildRequestConditionExpr c) = buildRequestConditionExpr c \<and> buildRequestConditionExpr c \<noteq> []) \<and>
      (0 < d \<longrightarrow> passes op d d (buildRequestConditionExpr c))"
  proof (cases "rc_mode t = MATCH_RANGE")
    case True
    have "trim (buildTimeConditionExpr t) = buildTimeConditionExpr t \<and> buildTimeConditionExpr t \<noteq> []"
      using trim_join [of "[scalar_text (lower_bound t), scalar_text (upper_bound t)]" "if overnight t then js '' || '' else js '' && ''"]
        scalar_bounds [OF t True, THEN scalar_sound] by (simp add: build_range [OF t True] sound_part_def)
    then show ?thesis using range_passes [OF t True] by (simp add: b inner_def)
  next
    case False
    then have "scalar_time t" using t by (simp add: scalar_time_def)
    with scalar_sound build_scalar show ?thesis by (simp add: b sound_part_def inner_def)
  qed
qed

lemma group_text_ends:
  assumes "\<forall>c \<in> set cs. readable c \<and> plain_or c" "cs \<noteq> []"
  shows "trim (group_text cs) = group_text cs" "group_text cs \<noteq> []"
proof -
  have "concat (map condition_parts cs) \<noteq> []" using assms(2) condition_parts_ne by (auto simp: neq_Nil_conv)
  moreover have "\<forall>p \<in> set (concat (map condition_parts cs)). trim p = p \<and> p \<noteq> []"
    using assms(1) parts_sound by (auto simp: sound_part_def)
  ultimately show "trim (group_text cs) = group_text cs" "group_text cs \<noteq> []"
    unfolding group_text_parts [OF assms(1)] using trim_join by blast+
qed

lemma passes_join:
  assumes "passes op d d sep" "\<forall>p \<in> set ps. passes op d d p"
  shows "passes op d d (join sep ps)"
  using assms by (induction sep ps rule: join.induct) (auto intro: passes_append passes_Nil)

lemma group_text_passes:
  assumes "\<forall>c \<in> set cs. readable c \<and> plain_or c" "0 < d"
  shows "passes op d d (group_text cs)"
  unfolding group_text_parts [OF assms(1)]
proof (rule passes_join)
  show "passes op d d (js '' && '')"
    by (rule passes_plain) (use assms(2) in \<open>auto simp: js_def is_quote_def bracket_delta_def quiet_def\<close>)
  show "\<forall>p \<in> set (concat (map condition_parts cs)). passes op d d p"
    using assms parts_sound by (auto simp: sound_part_def inner_def)
qed

lemma combined_facts:
  assumes "readable_group g"
  defines "t \<equiv> combined_text (rg_conditions g)"
  shows "t \<noteq> []" "0 < d \<Longrightarrow> passes op d d t" "tryParseRequestConditions t = Inr (Some (rg_conditions g))"
proof -
  let ?cs = "rg_conditions g"
  have r: "\<forall>c \<in> set ?cs. readable c" using assms(1) by (simp add: readable_group_def)
  consider c where "?cs = [c]" | c d ds where "?cs = c # d # ds" "1 < length ?cs"
    using assms(1) by (cases ?cs; cases "tl ?cs") (auto simp: readable_group_def)
  then have "t \<noteq> [] \<and> (0 < d \<longrightarrow> passes op d d t) \<and> tryParseRequestConditions t = Inr (Some ?cs)"
  proof cases
    case (1 c)
    then have t: "t = buildRequestConditionExpr c" and c: "readable c" using r by (simp_all add: t_def combined_text_def)
    have "tryParseRequestConditions t = Inr (Some ?cs)"
    proof (cases c)
      case (Time_condition s)
      then show ?thesis using c time_condition_roundtrip [of s] readable_text(1) [OF c] 1
        by (simp add: tryParseRequestConditions_def t readable_def buildRequestConditionExpr_def)
    next
      case (Value_condition v)
      have v: "readable_value v" using c Value_condition by (simp add: readable_def)
      have "splitTopLevelAnd t = [t]"
        using split_and_joined [of "[t]"] sound_good [OF value_sound [OF v]] by (simp add: t Value_condition)
      then show ?thesis
        using value_not_time [OF v, of "[]"] value_condition_roundtrip [OF v] readable_text(1) [OF c] 1
        by (simp add: tryParseRequestConditions_def t Value_condition)
    qed
    then show ?thesis using readable_text [OF c] t by simp
  next
    case (2 c d ds)
    then have p: "\<forall>c \<in> set ?cs. readable c \<and> plain_or c" and u: "unmerged ?cs" and t: "t = group_text ?cs"
      using assms(1) by (auto simp: readable_group_def t_def combined_text_def)
    have "tryParseTimeCondition (trim t) = None"
      using group_not_time [of c d ds] p u group_text_ends(1) [OF p] 2 by (simp add: t)
    then have "tryParseRequestConditions t = Inr (Some ?cs)"
      using split_group [OF p] read_group [OF p u, of "[]"] 2 by (simp add: tryParseRequestConditions_def t)
    then show ?thesis using group_text_ends(2) [OF p] group_text_passes [OF p] 2 t by simp
  qed
  then show "t \<noteq> []" "0 < d \<Longrightarrow> passes op d d t" "tryParseRequestConditions t = Inr (Some ?cs)" by auto
qed

lemma factor_text:
  assumes "readable_group g"
  shows "buildRuleGroupFactor g = js ''('' @ combined_text (rg_conditions g) @ js '' ? '' @ rg_multiplier g @ js '' : 1)''"
proof -
  let ?cs = "rg_conditions g"
  have m: "is_numeric (rg_multiplier g)" and cs: "?cs \<noteq> []" using assms by (simp_all add: readable_group_def)
  have "filter (\<lambda>e. e \<noteq> []) (map buildRequestConditionExpr ?cs) = map buildRequestConditionExpr ?cs"
    using assms readable_text(1) by (auto simp: readable_group_def filter_id_conv)
  moreover have "combined_text ?cs = (if length (map buildRequestConditionExpr ?cs) = 1 then hd (map buildRequestConditionExpr ?cs)
     else join (js '' && '') (map (\<lambda>e. if str_includes e (js '' || '') then js ''('' @ e @ js '')'' else e) (map buildRequestConditionExpr ?cs)))"
    using cs by (simp add: combined_text_def group_text_def wrap_or_def [abs_def] comp_def hd_map)
  ultimately show ?thesis using m cs by (simp add: buildRuleGroupFactor_def Let_def)
qed

lemma factor_good:
  assumes "readable_group g"
  shows "good_part (js ''*'') (buildRuleGroupFactor g)"
proof -
  let ?t = "combined_text (rg_conditions g)" and ?op = "js ''*''"
  have m: "is_numeric (rg_multiplier g)" using assms by (simp add: readable_group_def)
  have i: "inner ?op 1" by (simp add: inner_def)
  have o: "passes ?op 0 1 [40]" "passes ?op 1 0 [41]"
    by (auto intro!: passes_unit simp: is_quote_def bracket_delta_def quiet_def js_def)
  have q: "passes ?op 1 1 (js '' ? '')" "passes ?op 1 1 (js '' : 1'')"
    by (auto intro!: passes_plain simp: is_quote_def bracket_delta_def quiet_def js_def)
  have "passes ?op 0 0 ([40] @ ?t @ js '' ? '' @ rg_multiplier g @ js '' : 1'' @ [41])"
    by (rule passes_append [OF o(1) passes_append [OF combined_facts(2) [OF assms] passes_append [OF q(1)
        passes_append [OF passes_numeric [OF i m] passes_append [OF q(2) o(2)]]]]]) simp
  then show ?thesis
    by (simp add: good_part_def factor_text [OF assms] js_def trim_ends is_space_def)
qed

lemma factor_read:
  assumes "readable_group g"
  shows "tryParseRuleGroupFactor (buildRuleGroupFactor g) = Inr (Some g)"
proof -
  have "is_numeric (rg_multiplier g)" "rg_conditionText g = None" "rg_matched g = None" using assms by (auto simp: readable_group_def)
  with exec_rule_factor [of "combined_text (rg_conditions g)" "rg_multiplier g"] combined_facts [OF assms] show ?thesis
    unfolding tryParseRuleGroupFactor_def factor_text [OF assms] by (cases g) simp
qed

lemma read_factors: "\<forall>g \<in> set gs. readable_group g \<Longrightarrow> parse_factors (map buildRuleGroupFactor gs) acc = Inr (Some (acc @ gs))"
  by (induction gs arbitrary: acc) (simp_all add: factor_read)

theorem rule_expression_roundtrip:
  assumes "\<forall>g \<in> set gs. readable_group g"
  shows "tryParseRequestRuleExpr (buildRequestRuleExpr gs) = Inr (Some gs)"
proof (cases "gs = []")
  case True
  then show ?thesis by (simp add: tryParseRequestRuleExpr_def buildRequestRuleExpr_def)
next
  case False
  let ?ps = "map buildRuleGroupFactor gs"
  have good: "\<forall>p \<in> set ?ps. good_part (js ''*'') p" using assms factor_good by auto
  then have "filter (\<lambda>e. e \<noteq> []) ?ps = ?ps" by (auto simp: filter_id_conv good_part_def)
  then have b: "buildRequestRuleExpr gs = join (js '' * '') ?ps" by (simp add: buildRequestRuleExpr_def)
  have "trim (join (js '' * '') ?ps) = join (js '' * '') ?ps" "join (js '' * '') ?ps \<noteq> []"
    using trim_join [of ?ps] good False by (auto simp: good_part_def)
  then show ?thesis
    using split_multiply_joined [of ?ps] good False read_factors [OF assms, of "[]"] by (simp add: b tryParseRequestRuleExpr_def)
qed

end
