(* ===== verification/Samples.thy ===== *)
theory Samples
  imports TaskFacts ConditionFacts TaskDisplayFacts VisualFacts PricingTiers RuleReading
begin

text \<open>
  Sample inputs on which the properties are evaluated: a platform without time zone data,
  small expressions with their trees, and contexts.
\<close>

definition sample_platform :: platform where
  "sample_platform = \<lparr>intl = (\<lambda>_. None), lower_unicode = (\<lambda>s. s), clock = Some 0\<rparr>"

definition sample_context :: billing_context where
  "sample_context = empty_context\<lparr>ctx_tokens := [(js ''p'', J_number (num 10)), (js ''len'', J_number (num 10))], ctx_now := Some (Some 0),
     ctx_usage := Some [(js ''sec'', J_number (num 4))]\<rparr>"

text \<open>\<open>p*2\<close>\<close>

definition product_source :: jsstring where
  "product_source = js ''p*2''"

definition product_tree :: node where
  "product_tree = Binary (js ''*'') (Variable (js ''p'') 0 1) (Literal (NumberLit (num 2)) True 2 3) 0 3"

lemma product_parse: "parse product_source = Inr product_tree"
  by code_simp

text \<open>\<open>tier('a',fixed(2))\<close>\<close>

definition fixed_source' :: jsstring where
  "fixed_source' = js ''tier('a',fixed(2))''"

definition fixed_tree :: node where
  "fixed_tree = Call (js ''tier'') [Literal (StringLit (js ''a'')) False 5 8,
     Call (js ''fixed'') [Literal (NumberLit (num 2)) True 15 16] 9 17] 0 18"

definition fixed_compiled :: compiled where
  "fixed_compiled = \<lparr>source = fixed_source', version = 1, ast = fixed_tree, variables = {}, called = {js ''tier'', js ''fixed''}, requestRules = []\<rparr>"

lemma fixed_parse: "parse fixed_source' = Inr fixed_tree"
  by code_simp

lemma fixed_compile: "compile_source fixed_source' = Inr fixed_compiled"
  by code_simp

definition fixed_result :: billing_result where
  "fixed_result = \<lparr>res_cost = num 2000000, res_unit = Unit_request, res_imageCount = None, res_fixedPrice = Some (num 2), res_tier = js ''a'', res_rules = []\<rparr>"

lemma fixed_run: "run_compiled sample_platform fixed_compiled sample_context = Inr fixed_result"
  by code_simp

text \<open>\<open>p<100?tier('a',p*2):tier('b',p*3)\<close>\<close>

definition tier_call :: "string \<Rightarrow> node \<Rightarrow> nat \<Rightarrow> nat \<Rightarrow> node" where
  "tier_call label body i j = Call (js ''tier'') [Literal (StringLit (js label)) False (i + 5) (i + 8), body] i j"

definition price_of :: "int \<Rightarrow> nat \<Rightarrow> node" where
  "price_of k i = Binary (js ''*'') (Variable (js ''p'') i (i + 1)) (Literal (NumberLit (num k)) True (i + 2) (i + 3)) i (i + 3)"

definition tiers_tree :: node where
  "tiers_tree = Conditional (Binary (js ''<'') (Variable (js ''p'') 0 1) (Literal (NumberLit (num 100)) True 2 5) 0 5)
     (tier_call ''a'' (price_of 2 15) 6 19) (tier_call ''b'' (price_of 3 29) 20 33) 0 33"

definition tree_compiled :: "node \<Rightarrow> compiled" where
  "tree_compiled n = \<lparr>source = [], version = 1, ast = n, variables = {js ''p''}, called = {js ''tier''}, requestRules = []\<rparr>"

definition tier_result :: billing_result where
  "tier_result = \<lparr>res_cost = num 20, res_unit = Unit_token, res_imageCount = None, res_fixedPrice = None, res_tier = js ''a'', res_rules = []\<rparr>"

lemma tiers_run: "run_compiled sample_platform (tree_compiled tiers_tree) sample_context = Inr tier_result"
  by code_simp

text \<open>\<open>hour('UTC')<6?tier('a',p*2):tier('b',p*3)\<close>, evaluated at midnight\<close>

definition clock_tree :: node where
  "clock_tree = Conditional (Binary (js ''<'') (Call (js ''hour'') [Literal (StringLit (js ''UTC'')) False 5 10] 0 11) (Literal (NumberLit (num 6)) True 12 13) 0 13)
     (tier_call ''a'' (price_of 2 23) 14 27) (tier_call ''b'' (price_of 3 37) 28 41) 0 41"

lemma clock_run: "run_compiled sample_platform (tree_compiled clock_tree) sample_context = Inr tier_result"
  by code_simp

text \<open>\<open>tier('t',u('sec')*2)\<close> with a schema\<close>

definition task_tree :: node where
  "task_tree = tier_call ''t'' (Binary (js ''*'') (Call (js ''u'') [Literal (StringLit (js ''sec'')) False 11 16] 9 17) (Literal (NumberLit (num 2)) True 18 19) 9 19) 0 20"

definition task_schema :: usage_schema where
  "task_schema = [(js ''sec'', \<lparr>uf_type = Some (js ''number''), uf_unit = Some (js ''second''), uf_enum = None\<rparr>)]"

definition task_result :: billing_result where
  "task_result = \<lparr>res_cost = num 8, res_unit = Unit_token, res_imageCount = None, res_fixedPrice = None, res_tier = js ''t'', res_rules = []\<rparr>"

lemma task_run: "run_compiled sample_platform (tree_compiled task_tree) sample_context = Inr task_result"
  by code_simp

definition sample_env :: runtime_env where
  "sample_env = \<lparr>env_platform = sample_platform, env_compiled = fixed_compiled, env_context = sample_context, env_now = Some 0, env_headers = []\<rparr>"

definition sample_runtime :: runtime where
  "sample_runtime = \<lparr>rt_rules = [], rt_tier = [], rt_unit = Unit_token, rt_fixed = None, rt_times = [], rt_depth = 0\<rparr>"

definition rule_tree :: node where
  "rule_tree = Conditional (Binary (js ''<'') (Variable (js ''p'') 5 6) (Literal (NumberLit (num 100)) True 7 10) 5 10)
     (Literal (NumberLit (num 3)) True 11 12) (Literal (NumberLit (num 1)) True 13 14) 5 14"

definition rule_compiled :: compiled where
  "rule_compiled = (tree_compiled (Binary (js ''*'') (price_of 2 0) rule_tree 0 14))
     \<lparr>requestRules := [\<lparr>rule_node = rule_tree, rule_condition = rule_tree, rule_multiplier = num 3, rule_cond = js ''p<100''\<rparr>]\<rparr>"

definition rule_result :: billing_result where
  "rule_result = \<lparr>res_cost = num 60, res_unit = Unit_token, res_imageCount = None, res_fixedPrice = None, res_tier = [],
     res_rules = [\<lparr>br_cond = js ''p<100'', br_multiplier = num 3, br_matched = True\<rparr>]\<rparr>"

definition sum_tree :: node where
  "sum_tree = Binary (js ''-'') (Literal (NumberLit (num 2)) True 0 1) (Literal (NumberLit (num 5)) True 2 3) 0 3"

definition sample_comparison :: "string \<Rightarrow> int \<Rightarrow> time_comparison" where
  "sample_comparison op k = \<lparr>cmp_name = js ''hour'', cmp_timezone = js ''UTC'', cmp_operator = js op, cmp_value = num k\<rparr>"

definition hour_source :: jsstring where
  "hour_source = js ''hour('UTC')<6''"

definition hour_tree :: node where
  "hour_tree = Binary (js ''<'') (Call (js ''hour'') [Literal (StringLit (js ''UTC'')) False 5 10] 0 11) (Literal (NumberLit (num 6)) True 12 13) 0 13"

definition sample_formatters :: formatters where
  "sample_formatters = \<lparr>short_weekday = (\<lambda>_ _. Inr []), locale_number = (\<lambda>_ _. Inr []), canonical_locales = (\<lambda>_. Inr [])\<rparr>"

definition sample_display :: display_context where
  "sample_display = \<lparr>dc_source = js ''hour('UTC')<6?2:3'', dc_schema = [], dc_facts = []\<rparr>"

definition branch_tree :: node where
  "branch_tree = Conditional hour_tree (Literal (NumberLit (num 2)) True 14 15) (Literal (NumberLit (num 3)) True 16 17) 0 17"

definition probe_tree :: node where
  "probe_tree = tier_call ''t'' (Call (js ''u'') [Literal (StringLit (js ''sec'')) False 11 16] 9 17) 0 18"

definition size_schema :: usage_schema where
  "size_schema = [(js ''size'', \<lparr>uf_type = Some (js ''string''), uf_unit = None, uf_enum = Some [js ''s'', js ''m'']\<rparr>)]"

lemma sample_times_ok: "times_ok sample_env sample_runtime"
  by (simp add: times_ok_def timeValues.consistent_def sample_runtime_def)

lemma product_evaluate:
  "evaluate sample_env product_tree sample_runtime = Inr (\<lparr>rv_value = J_number (num 20), rv_integer = False\<rparr>, sample_runtime)"
  by code_simp

lemma empty_cache_consistent: "cache_consistent []"
  by (simp add: cache_consistent_def om_ok_def)

text \<open>The document of \<open>tier('a',fixed(2))\<close>\<close>

lemma fixed_cached:
  "compileBillingExpression fixed_source' [] = (Ready fixed_compiled, [(fixed_source', Ready fixed_compiled)])"
  "compileBillingExpression fixed_source' [(fixed_source', Ready fixed_compiled)] = (Ready fixed_compiled, [(fixed_source', Ready fixed_compiled)])"
  by (simp_all add: compileBillingExpression_def compile_result_def fixed_compile Let_def)

lemma fixed_document:
  "\<exists>doc cache. parseVisualBillingDocument sample_platform fixed_source' [] = (Some doc, cache)"
proof -
  have "case readVisualPricing fixed_tree of Some v \<Rightarrow> writeVisualPricing sample_platform fixed_source' v [] = (fixed_source', []) | None \<Rightarrow> False"
    by code_simp
  then obtain v where v: "readVisualPricing (ast fixed_compiled) = Some v" "writeVisualPricing sample_platform fixed_source' v [] = (fixed_source', [])"
    by (auto simp: fixed_compiled_def split: option.splits)
  have "take (node_start (ast fixed_compiled)) fixed_source' @ fixed_source' @ drop (node_end (ast fixed_compiled)) fixed_source' = fixed_source'"
    by (simp add: fixed_compiled_def fixed_tree_def fixed_source'_def)
  then show ?thesis using v fixed_cached
    by (simp add: parseVisualBillingDocument_def serializeVisualBillingDocument_def is_ready_def)
qed

text \<open>Twice the price at night for a header, and half of it for a streamed request in the morning.\<close>

definition night_group :: rule_group where
  "night_group =
     \<lparr>rg_conditions =
        [Time_condition \<lparr>rc_func = js ''hour'', rc_zone = js ''UTC'', rc_mode = MATCH_RANGE, rc_value = [], rc_start = js ''21'', rc_end = js ''6''\<rparr>,
         Value_condition \<lparr>vc_source = From_header, vc_path = js ''x-tier'', vc_mode = MATCH_CONTAINS, vc_value = js ''fast''\<rparr>],
      rg_multiplier = js ''2'', rg_conditionText = None, rg_matched = None\<rparr>"

definition morning_group :: rule_group where
  "morning_group =
     \<lparr>rg_conditions =
        [Value_condition \<lparr>vc_source = From_param, vc_path = js ''stream'', vc_mode = MATCH_EQ, vc_value = js ''true''\<rparr>,
         Time_condition \<lparr>rc_func = js ''hour'', rc_zone = js ''UTC'', rc_mode = MATCH_RANGE, rc_value = [], rc_start = js ''6'', rc_end = js ''9''\<rparr>],
      rg_multiplier = js ''0.5'', rg_conditionText = None, rg_matched = None\<rparr>"

end
