(* ===== verification/Spec2Isabelle.thy ===== *)
theory Spec2Isabelle
  imports Samples
begin

text \<open>
  Verification of the billing-expression engine of the web front end
  (\<open>web/src/features/pricing/lib/\<close>).

  \<^bold>\<open>The program.\<close>  Prices are written in a small expression language.  An administrator edits
  an expression as text, as tiers or as request rules; the engine parses, type checks and
  compiles it, evaluates it on token counts, task facts, the request and the clock, and turns
  it into price lists and sentences for the pricing pages.  The parts, with the theories that
  model them:

  \<^item> \<open>billing-expression/types.ts\<close> (nodes, diagnostics, \<open>visitExpression\<close>,
    \<open>expressionDependencies\<close>): \<open>Expression\<close>.
  \<^item> \<open>billing-expression/parser.ts\<close>: class \<open>BillingParser\<close> is \<open>Lexer\<close> (constructor, \<open>next\<close>,
    \<open>take\<close>, \<open>is\<close>, \<open>expect\<close>) and \<open>Parser\<close> (\<open>parse\<close>, \<open>expression\<close>, \<open>primary\<close>);
    \<open>checkExpressionTypes\<close> is in \<open>Typecheck\<close>; \<open>validateFixedPricingTree\<close> and
    \<open>compileBillingExpression\<close> with its cache are in \<open>Compile\<close>.
  \<^item> \<open>billing-expression/runtime.ts\<close>: \<open>readRequestPath\<close> and \<open>billingString\<close> are in
    \<open>JsValue\<close>, the clock, class \<open>BillingRuntime\<close> and the two entry points in \<open>Runtime\<close>.
  \<^item> \<open>billing-expression/structure.ts\<close> (splitting and unwrapping of texts): \<open>Structure\<close>.
  \<^item> \<open>billing-expression/display.ts\<close> (token, clock and task price lists): \<open>Display\<close>.
  \<^item> \<open>billing-expression/condition-display.ts\<close> (conditions in words): \<open>ConditionDisplay\<close>.
  \<^item> \<open>billing-expression/task-display.ts\<close> (conditional task prices): \<open>TaskDisplay\<close>.
  \<^item> \<open>billing-expression/visual.ts\<close> (documents of the visual editor): \<open>Visual\<close>.
  \<^item> \<open>billing-expr.ts\<close>: the request rules are in \<open>RequestRules\<close>, the variable registry and
    the tiers of the pricing pages in \<open>PricingTiers\<close>.

  \<^bold>\<open>The language.\<close>  \<open>Prelude\<close> has strings as lists of UTF-16 code units, \<open>throw\<close> as the left
  side of a sum, and the string functions of the library.  \<open>JsNumber\<close> is the Number type:
  binary64 values with correct rounding, \<open>Number(text)\<close> and \<open>String(number)\<close>.  \<open>JsDate\<close> has the
  UTC fields of a \<open>Date\<close>, \<open>JsJson\<close> the two functions of \<open>JSON\<close>, \<open>JsRegExp\<close> regular expressions
  as an executable backtracking matcher.  All definitions compute.

  \<^bold>\<open>State and effects.\<close>  A class is a record that its methods take and return: \<open>parser\<close> for the
  cursor of \<open>BillingParser\<close>, \<open>runtime\<close> for the mutable fields of \<open>BillingRuntime\<close>.  The caches of
  the source, which are insertion-ordered maps, are arguments and results.  Node identity of
  the source is equality of nodes with their spans, which \<open>Spans\<close> justifies: no two nodes of
  one tree have the same span.  The budgets of \<open>task-display.ts\<close> and the counter of
  \<open>visualNodeId\<close> are passed along as well.

  \<^bold>\<open>Parameters.\<close>  The time-zone data of \<open>Intl\<close>, lower-casing outside ASCII and the current time
  are the record \<open>platform\<close>.  The translation function and the formatters of \<open>Intl\<close> are the
  record \<open>formatters\<close> and a function argument.  Nothing is assumed of them but what a
  statement says.

  \<^bold>\<open>Bounds.\<close>  The limits of the source (65536 code units and 10000 lexemes of a source, 128
  nested calls of the parser, 256 levels of a tree that is walked or evaluated, 128 cached
  compilations, 128 rows of a task price) are in the definitions.  There is no fuel: every recursion has a termination proof.  The parser
  decreases the input that is left and the level of precedence; the evaluator, which the
  source bounds by its depth counter, decreases the tree.  The one loop of the source that
  may not end, splitting at an empty operator, returns \<open>None\<close> there.

  \<^bold>\<open>What is shown.\<close>
  \<^item> Syntax: \<open>Grammar\<close> derives trees from lexemes without the parser, and the parser is sound
    for it; \<open>Spans\<close> shows that the trees are well formed and their spans nested; \<open>Typecheck\<close>
    that the walk over the tree decides a typing relation; \<open>Compile\<close> that compilation is
    decided by these and that its cache is transparent and bounded.
  \<^item> Evaluation: \<open>Semantics\<close> is a big-step semantics without state that the evaluator
    implements in both directions; \<open>EvalFacts\<close> derives that static types describe values,
    integer arithmetic is exact or refused, matched rules are those whose condition held,
    and costs are finite and not negative.
  \<^item> Caches: the locale \<open>memo_cache\<close> of \<open>Memo\<close> states what a cache promises and proves
    transparency once; the compilation cache and the cache of clock readings are its two
    instances.
  \<^item> Price lists: \<open>DisplayFacts\<close> and \<open>TaskFacts\<close> show that the first listed tier whose
    conditions hold is the tier the evaluator bills, at the listed prices;
    \<open>TaskDisplayFacts\<close> that the branches of a task price partition the clock;
    \<open>ConditionDisplay\<close> and \<open>ConditionFacts\<close> that a described range admits exactly the clocks of
    its comparisons and names the zone they read.
  \<^item> Editors: \<open>VisualFacts\<close> shows that patches are local and an unedited document is saved as
    its source; \<open>RequestFacts\<close> and \<open>RequestReading\<close> that the conditions the rule editor prints
    are read back, and which are not.
  \<^item> Numbers and texts: \<open>JsNumberFacts\<close> and \<open>NumberOrder\<close> show that rounding is correct and
    printed numbers are read back, \<open>JsDate\<close> that clock fields are in range, \<open>Structure\<close> that
    splitting loses nothing.

  \<open>Samples\<close> has the inputs at which the properties below are evaluated.

  \<^bold>\<open>What is not modelled.\<close>  The React components and hooks that show these results, the
  requests that load and save them, and the texts of the translations: they have no logic of
  prices.  The gateway server under \<open>relay/\<close>, \<open>service/\<close> and \<open>model/\<close> is a program of its own,
  written against network and database libraries.
\<close>

section \<open>Syntax\<close>

text \<open>
  C6. Whatever tree the parser returns is derived by the grammar of billing expressions
  (one level per precedence, left-associative operators, right-associative conditional)
  from exactly the lexemes it read, and it read the whole source.
\<close>

theorem parse_grammar:
  assumes "parse src = Inr n"
  shows "\<exists>p ts p'. new_parser src = Inr p \<and> taken src p ts p' \<and> kind (current p') = K_end \<and> level 0 ts n"
  using assms by (elim parse_level) blast

theorem parse_grammar_witness:
  "\<exists>p ts p'. new_parser product_source = Inr p \<and> taken product_source p ts p' \<and> kind (current p') = K_end \<and> level 0 ts product_tree"
  by (rule parse_grammar [OF product_parse])

text \<open>
  C12. A parsed tree is well formed: every call names a known function with its number of
  arguments, every operator is one of the language, number literals are valid numbers, the
  spans of the children lie in order inside the span of their parent and inside the source,
  and no two nodes have the same span, so that a span identifies a node.
\<close>

theorem parsed_tree_well_formed:
  assumes "parse src = Inr n"
  shows "tree_ok n \<and> node_end n \<le> length src \<and> distinct (map node_span (postorder n))"
  using parse_tree_ok [OF assms] tree_ok_distinct by blast

theorem parsed_tree_well_formed_witness:
  "tree_ok product_tree \<and> node_end product_tree \<le> length product_source \<and> distinct (map node_span (postorder product_tree))"
  by (rule parsed_tree_well_formed [OF product_parse])

text \<open>
  C24. The walk over an expression with an explicit stack visits the nodes in post-order, each
  once, when the tree has at most 256 levels below its root.
\<close>

theorem walk_is_postorder:
  assumes "height n \<le> 256"
  shows "visitExpression n v s = rfold v (postorder n) s"
  by (rule visitExpression_postorder [OF assms])

theorem walk_is_postorder_witness:
  "height product_tree \<le> 256 \<and>
   visitExpression product_tree (\<lambda>m ns. Inr (ns @ [node_start m])) [] = (Inr [0, 2, 0] :: thrown + nat list)"
proof -
  have h: "height product_tree \<le> 256" by (simp add: product_tree_def)
  show ?thesis using walk_is_postorder [OF h, of "\<lambda>m ns. Inr (ns @ [node_start m])" "[]"] h by (simp add: product_tree_def)
qed

text \<open>
  C23. Collecting the variables and functions of an expression either returns exactly the sets
  of names that occur in it, or reports that the expression is too deep, and the latter
  happens exactly when the tree has more than 256 levels.
\<close>

theorem dependencies_decided:
  "expressionDependencies n =
     (if height n \<le> 256
      then Inr \<lparr>dep_variables = node_variables n, dep_functions = node_functions n\<rparr>
      else throw Code_limit (js ''expression depth'') None)"
  by (rule expressionDependencies_eq)

section \<open>Types and compilation\<close>

text \<open>
  C10. The type checker accepts a parsed expression of admissible depth exactly when the
  expression has a type in the typing relation.
\<close>

theorem type_check_decides:
  assumes "parse src = Inr n" "height n \<le> 256"
  shows "checkExpressionTypes n = Inr () \<longleftrightarrow> (\<exists>t. typed n t)"
proof -
  have "\<forall>m \<in> set (postorder n). syntax_ok m" using parse_tree_ok [OF assms(1)] by (auto simp: tree_ok_def)
  then show ?thesis by (simp add: checkExpressionTypes_infer [OF assms(2)] rbind_eq_Inr infer_typed)
qed

theorem type_check_decides_witness:
  "checkExpressionTypes product_tree = Inr () \<longleftrightarrow> (\<exists>t. typed product_tree t)"
  by (rule type_check_decides [OF product_parse]) (simp add: product_tree_def)

text \<open>
  C4. Compiling a source that parses succeeds exactly when the tree is not too deep, is typed,
  and, if it uses \<open>fixed\<close>, has the shape of a pricing tree; the compiled expression holds the
  tree, the names that occur in it, and the request rules in post-order.
\<close>

theorem compile_decides:
  assumes "parse src = Inr n"
  shows "compile_source src = Inr c \<longleftrightarrow>
    compilable src n \<and>
    c = \<lparr>source = src, version = 1, ast = n, variables = node_variables n, called = node_functions n,
         requestRules = compiled_rules src n\<rparr>"
  by (rule compile_source_iff [OF assms])

theorem compile_decides_witness:
  "compilable fixed_source' fixed_tree \<and>
   fixed_compiled = \<lparr>source = fixed_source', version = 1, ast = fixed_tree, variables = node_variables fixed_tree,
     called = node_functions fixed_tree, requestRules = compiled_rules fixed_source' fixed_tree\<rparr>"
  using compile_decides [OF fixed_parse, of fixed_compiled] fixed_compile by blast

text \<open>
  C13. Compiling through the cache gives the result of compiling from scratch, leaves a cache
  that agrees with compilation, holds at most 128 results, and contains the source.
\<close>

theorem compile_cache_transparent:
  assumes "cache_consistent cache" "compileBillingExpression src cache = (r, cache')"
  shows "r = compile_result src \<and> cache_consistent cache' \<and> length cache' \<le> 128 \<and> map_of cache' src = Some r"
proof -
  have "length cache' \<le> 128" using compile_cached(2) [OF assms] unfolding cache_consistent_def om_ok_def by blast
  with compile_cached [OF assms] show ?thesis by simp
qed

theorem compile_cache_transparent_witness:
  "fst (compileBillingExpression fixed_source' []) = Ready fixed_compiled"
proof -
  obtain r cache' where r: "compileBillingExpression fixed_source' [] = (r, cache')" by fastforce
  with compile_cache_transparent [OF empty_cache_consistent] have "r = compile_result fixed_source'" by blast
  with r fixed_compile show ?thesis by (simp add: compile_result_def)
qed

text \<open>
  C9. In every tree in which \<open>fixed\<close> may be used, an evaluation selects one tier: the billed
  unit is a request exactly when a fixed price was met, and then the fixed price is not
  negative and a million times it is a finite number.
\<close>

theorem fixed_price_billed:
  assumes "compile_source src = Inr c" "js ''fixed'' \<in> called c" "run_compiled pf c ctx = Inr res"
  shows "(res_unit res = Unit_request \<longleftrightarrow> res_fixedPrice res \<noteq> None) \<and>
    (\<forall>x. res_fixedPrice res = Some x \<longrightarrow> js_le zero_num x \<and> is_finite (js_mul x (num 1000000)))"
proof -
  obtain n where n: "parse src = Inr n" using assms(1) by (auto simp: compile_source_def rbind_eq_Inr)
  with assms(1,2) have tree: "pricing_tree (compiled_rules src n) (ast c)"
    by (auto simp: compile_source_iff compilable_def)
  from assms(3) obtain env st v es where run: "new_runtime pf c ctx = Inr (env, st)" "eval env (ast c) v es"
    "res_unit res = rt_unit (apply_events env es st)" "res_fixedPrice res = rt_fixed (apply_events env es st)"
    by (rule run_compiled_events) blast
  have st: "rt_unit st = Unit_token" "rt_fixed st = None" using run(1) by (auto simp: new_runtime_def rbind_eq_Inr)
  have "priced_once es" by (rule pricing_tree_priced_once [OF tree run(2)])
  then have "rt_fixed (apply_events env es st) = Some x \<Longrightarrow> js_le zero_num x \<and> is_finite (js_mul x (num 1000000))" for x
    using st by (subst (asm) apply_events_pricing) (auto simp: priced_once_def apply_events_simps)
  then show ?thesis using run(3,4) st apply_events_unit [of env es st] by auto
qed

theorem fixed_price_billed_witness:
  "res_unit fixed_result = Unit_request \<and> is_finite (js_mul (num 2) (num 1000000))"
proof -
  have "js ''fixed'' \<in> called fixed_compiled" by (simp add: fixed_compiled_def)
  from fixed_price_billed [OF fixed_compile this fixed_run] show ?thesis by (simp add: fixed_result_def)
qed

section \<open>Evaluation\<close>

text \<open>
  C1. The evaluator, with its depth counter, its cache of clock readings and its record of
  matched rules, returns a value exactly when the big-step semantics of expressions gives
  that value, as long as the tree fits under the depth limit.
\<close>

theorem evaluator_refines_semantics:
  assumes "times_ok env st" "rt_depth st + height n \<le> 255"
  shows "(\<exists>st'. evaluate env n st = Inr (v, st')) \<longleftrightarrow> (\<exists>es. eval env n v es)"
  by (rule evaluate_iff [OF assms])

theorem evaluator_refines_semantics_witness:
  "\<exists>es. eval sample_env product_tree \<lparr>rv_value = J_number (num 20), rv_integer = False\<rparr> es"
proof -
  have "rt_depth sample_runtime + height product_tree \<le> 255" by (simp add: product_tree_def sample_runtime_def)
  from evaluator_refines_semantics [OF sample_times_ok this] product_evaluate show ?thesis by blast
qed

text \<open>
  C11. A typed expression evaluates to a value of its type.  The static type number also admits
  a string, because the sum of two values of unknown type has that type.
\<close>

theorem values_have_static_type:
  assumes "typed n t" "evaluate env n st = Inr (v, st')" "times_ok env st" "rt_depth st + height n \<le> 255"
  shows "admits t (rv_value v)"
  using evaluate_iff [OF assms(3,4), of v] assms(2) typed_value(1) [OF _ assms(1)] by blast

theorem values_have_static_type_witness:
  "admits T_number (J_number (num 20))"
proof -
  have "typed product_tree T_number"
    unfolding product_tree_def
    by (rule typed_arith [where s = T_number and t = T_number])
      (auto simp: logical_operators_def comparison_operators_def fits_def intro: typed_variable typed_literal [of "NumberLit _", simplified])
  moreover have "rt_depth sample_runtime + height product_tree \<le> 255" by (simp add: product_tree_def sample_runtime_def)
  ultimately show ?thesis using values_have_static_type [OF _ product_evaluate sample_times_ok] by fastforce
qed

text \<open>
  C19. The cost of a successful evaluation is a finite number that is not negative.
\<close>

theorem cost_is_billable:
  assumes "run_compiled pf c ctx = Inr res"
  shows "is_finite (res_cost res) \<and> \<not> js_less (res_cost res) zero_num"
  using assms by (rule run_compiled_events) blast

theorem cost_is_billable_witness:
  "is_finite (res_cost fixed_result) \<and> \<not> js_less (res_cost fixed_result) zero_num"
  by (rule cost_is_billable [OF fixed_run])

text \<open>
  C15. The rules of a result are those of the compiled expression, in order, and a rule is
  reported as matched only if the condition of its node evaluated to true.
\<close>

theorem matched_rules_hold:
  assumes "run_compiled pf c ctx = Inr res"
  shows "map br_cond (res_rules res) = map rule_cond (requestRules c) \<and>
    (\<exists>env st. new_runtime pf c ctx = Inr (env, st) \<and>
      (\<forall>k < length (requestRules c). br_matched (res_rules res ! k) \<longrightarrow>
        (\<exists>cond y no i j b es. rule_node (requestRules c ! k) = Conditional cond y no i j \<and>
           eval env cond b es \<and> rv_value b = J_bool True)))"
proof -
  from assms obtain env st v es where run: "new_runtime pf c ctx = Inr (env, st)" "eval env (ast c) v es"
    "res_rules res = rt_rules (apply_events env es st)" by (rule run_compiled_events) blast
  note fields = new_runtime_fields [OF run(1)]
  have len: "length (rt_rules st) = length (requestRules (env_compiled env))" by (simp add: fields)
  note rules = apply_events_rules [OF len, of es]
  have nth: "res_rules res ! k = (rt_rules st ! k)\<lparr>br_matched := \<exists>m. Matched m \<in> set es \<and> rule_index env m = Some k\<rparr>"
    if "k < length (requestRules c)" for k using rules that run(3) by (simp add: fields)
  have "map br_cond (res_rules res) = map rule_cond (requestRules c)"
    using rules nth run(3) by (intro nth_equalityI) (simp_all add: fields)
  moreover have "\<exists>cond y no i j b es. rule_node (requestRules c ! k) = Conditional cond y no i j \<and> eval env cond b es \<and> rv_value b = J_bool True"
    if k: "k < length (requestRules c)" "br_matched (res_rules res ! k)" for k
  proof -
    from nth [OF k(1)] k(2) obtain m where m: "Matched m \<in> set es" "rule_index env m = Some k" by auto
    then have "rule_node (requestRules c ! k) = m" by (auto simp: rule_index_def fields dest: find_index_Some)
    with matched_condition(1) [OF run(2) m(1)] show ?thesis by blast
  qed
  ultimately show ?thesis using run(1) by blast
qed

theorem matched_rules_hold_witness:
  "\<exists>env st. new_runtime sample_platform rule_compiled sample_context = Inr (env, st) \<and>
     (\<exists>cond y no i j b es. rule_tree = Conditional cond y no i j \<and> eval env cond b es \<and> rv_value b = J_bool True)"
proof -
  have run: "run_compiled sample_platform rule_compiled sample_context = Inr rule_result" by code_simp
  from matched_rules_hold [OF this] obtain env st where e: "new_runtime sample_platform rule_compiled sample_context = Inr (env, st)"
    and r: "\<forall>k < length (requestRules rule_compiled). br_matched (res_rules rule_result ! k) \<longrightarrow>
      (\<exists>cond y no i j b es. rule_node (requestRules rule_compiled ! k) = Conditional cond y no i j \<and> eval env cond b es \<and> rv_value b = J_bool True)"
    by blast
  from r [rule_format, of 0] have "\<exists>cond y no i j b es. rule_tree = Conditional cond y no i j \<and> eval env cond b es \<and> rv_value b = J_bool True"
    by (simp add: rule_compiled_def rule_result_def)
  with e show ?thesis by blast
qed

text \<open>
  C14. Arithmetic on integer literals is exact: where such an expression evaluates, its value is
  the mathematical integer that the expression denotes, and that integer is in the safe range.
\<close>

theorem integer_arithmetic_exact:
  assumes "parse src = Inr n" "int_expr n" "evaluate env n st = Inr (v, st')" "times_ok env st" "rt_depth st + height n \<le> 255"
  shows "exact_integer v (int_value n)"
proof -
  have "\<forall>m \<in> set (postorder n). syntax_ok m" using parse_tree_ok [OF assms(1)] by (auto simp: tree_ok_def)
  moreover obtain es where "eval env n v es" using evaluate_iff [OF assms(4,5), of v] assms(3) by blast
  ultimately show ?thesis using integer_exact [OF assms(2)] by blast
qed

theorem integer_arithmetic_exact_witness:
  "exact_integer \<lparr>rv_value = J_number (num (- 3)), rv_integer = True\<rparr> (int_value sum_tree)"
proof -
  have p: "parse (js ''2-5'') = Inr sum_tree" by code_simp
  have e: "evaluate sample_env sum_tree sample_runtime = Inr (\<lparr>rv_value = J_number (num (- 3)), rv_integer = True\<rparr>, sample_runtime)"
    by code_simp
  have i: "int_expr sum_tree" by (simp add: sum_tree_def integer_operators_def)
  show ?thesis using integer_arithmetic_exact [OF p i e sample_times_ok] by (simp add: sum_tree_def sample_runtime_def)
qed

section \<open>Numbers, dates, request values and text\<close>

text \<open>
  C26. A price that the editor prints is read back as the same number: the printed text of any
  finite number that is not negative parses to that number, bit for bit.
\<close>

theorem price_text_roundtrip:
  assumes "plain_number x"
  shows "parseNonNegativeNumber (js_String x) = Some x"
  by (rule parse_js_String [OF assms])

theorem price_text_roundtrip_witness:
  "parseNonNegativeNumber (js ''2.5'') = Some (Finite False 5629499534213120 (- 51))"
proof -
  have "plain_number (Finite False 5629499534213120 (- 51))" by (simp add: plain_number_def)
  moreover have "js_String (Finite False 5629499534213120 (- 51)) = js ''2.5''" by code_simp
  ultimately show ?thesis using price_text_roundtrip [of "Finite False 5629499534213120 (- 51)"] by simp
qed

text \<open>
  C29. The UTC fields of the clock are in range and are those of the proleptic Gregorian
  calendar: month and day form a date of some year, and that date, the hour and the minute
  add up to the minutes since the epoch.
\<close>

theorem clock_fields_in_range:
  "\<exists>h mi w mo d y. utc_values t = \<lparr>tv_hour = num h, tv_minute = num mi, tv_weekday = num w, tv_month = num mo, tv_day = num d\<rparr> \<and>
     0 \<le> h \<and> h < 24 \<and> 0 \<le> mi \<and> mi < 60 \<and> 0 \<le> w \<and> w < 7 \<and> 1 \<le> mo \<and> mo \<le> 12 \<and>
     1 \<le> d \<and> d \<le> days_in_month (is_leap y) (nat mo) \<and>
     t div 60000 = (day_from_year y + month_starts (is_leap y) ! (nat mo - 1) + (d - 1)) * 1440 + h * 60 + mi"
proof -
  let ?y = "year_from_day (day_number t)"
  have "t div 60000 = day_number t * 1440 + utc_hours t * 60 + utc_minutes t"
  proof -
    define m a where "m = t div 60000" and "a = m div 60"
    have e: "t div 3600000 = a" "day_number t = a div 24"
      by (simp_all add: a_def m_def day_number_def ms_per_day_def flip: zdiv_zmult2_eq)
    have gen: "x = b * 60 + r \<Longrightarrow> (q * 24 + s) * 60 = b * 60 \<Longrightarrow> x = q * 1440 + s * 60 + r" for x b r q s :: int by simp
    have "m = a * 60 + m mod 60" by (simp add: a_def)
    moreover have "(a div 24 * 24 + a mod 24) * 60 = a * 60" by (simp only: div_mult_mod_eq)
    ultimately show ?thesis unfolding utc_hours_def utc_minutes_def e m_def [symmetric] by (rule gen)
  qed
  then have minutes: "t div 60000 = (day_from_year ?y + month_starts (is_leap ?y) ! (nat (utc_month t) - 1) + (utc_date t - 1)) * 1440 +
      utc_hours t * 60 + utc_minutes t"
    using calendar_correct(5) [of "day_number t"] by (simp only: utc_date_def utc_month_def nat_int)
  have days: "utc_date t \<le> days_in_month (is_leap ?y) (nat (utc_month t))"
    using calendar_correct(4) [of "day_number t"] by (simp add: utc_date_def utc_month_def)
  show ?thesis unfolding utc_values_def
    by (intro exI [of _ "utc_hours t"] exI [of _ "utc_minutes t"] exI [of _ "utc_day t"] exI [of _ "utc_month t"] exI [of _ "utc_date t"]
        exI [of _ ?y] conjI refl utc_ranges days minutes)
qed

text \<open>
  C28. A path made of escaped keys reads exactly the value at those keys of the request body;
  an absent or null value reads as null.
\<close>

theorem request_path_reads_keys:
  assumes "ks \<noteq> []" "object_path body ks = Some w"
    "trim (join (js ''.'') (map escape_key ks)) = join (js ''.'') (map escape_key ks)"
    "join (js ''.'') (map escape_key ks) \<noteq> []"
  shows "readRequestPath body (join (js ''.'') (map escape_key ks)) = Inr (if is_nullish w then J_null else w)"
  by (rule readRequestPath_keys [OF assms])

theorem request_path_reads_keys_witness:
  "readRequestPath (J_object [(js ''a.b'', J_object [(js ''c'', J_bool True)])]) ([97, 92, 46, 98, 46, 99]) = Inr (J_bool True)"
proof -
  have p: "join (js ''.'') (map escape_key [js ''a.b'', js ''c'']) = [97, 92, 46, 98, 46, 99]" by code_simp
  have t: "trim ([97, 92, 46, 98, 46, 99]) = [97, 92, 46, 98, 46, 99]" by code_simp
  show ?thesis
    using request_path_reads_keys [of "[js ''a.b'', js ''c'']" "J_object [(js ''a.b'', J_object [(js ''c'', J_bool True)])]" "J_bool True"] p t
    by (simp add: is_nullish_def)
qed

text \<open>
  C30. Printing a request value succeeds exactly when all its numbers are finite and it is not
  nested deeper than 128 levels; otherwise an error is raised.
\<close>

theorem request_value_printable:
  "(\<exists>s. billingString v 0 = Inr s) \<longleftrightarrow> json_ok 128 v"
  using billingString_iff [of 0 v] by simp




section \<open>Price lists\<close>



text \<open>
  C8. For an expression whose prices depend on the clock, the rows marked as current are the
  tiers of one leaf, and the first of them whose token conditions hold is the one that is
  billed at that time.
\<close>

theorem current_tiers_billed:
  assumes "run_compiled pf c ctx = Inr res" "ctx_now ctx = Some now" "height (ast c) \<le> 256"
    "timeTierBranches (source c) (ast c) [] = Inr (Some ts)"
  shows "\<exists>leaf path us t. readTokenTierChain leaf = Some us \<and>
    filter (is_current pf c now) ts = map (time_tier (source c) path) us \<and>
    find (tier_applies ctx) us = Some t \<and> billed_as ctx t res"
  by (rule time_tiers_billed [OF assms])

theorem current_tiers_billed_witness:
  "\<exists>ts leaf path us t. timeTierBranches [] clock_tree [] = Inr (Some ts) \<and> readTokenTierChain leaf = Some us \<and>
    filter (is_current sample_platform (tree_compiled clock_tree) (Some 0)) ts = map (time_tier [] path) us \<and>
    find (tier_applies sample_context) us = Some t \<and> billed_as sample_context t tier_result"
proof -
  have "case timeTierBranches [] clock_tree [] of Inr (Some ts) \<Rightarrow> True | _ \<Rightarrow> False" by code_simp
  then obtain ts where ts: "timeTierBranches (source (tree_compiled clock_tree)) (ast (tree_compiled clock_tree)) [] = Inr (Some ts)"
    by (auto simp: tree_compiled_def split: sum.splits option.splits)
  have now: "ctx_now sample_context = Some (Some 0)" by (simp add: sample_context_def)
  have h: "height (ast (tree_compiled clock_tree)) \<le> 256" by (simp add: tree_compiled_def clock_tree_def tier_call_def price_of_def)
  from current_tiers_billed [OF clock_run now h ts] ts show ?thesis by (auto simp: tree_compiled_def)
qed

text \<open>
  C7. The task price list agrees with the bill: for a usage report whose texts are declared in
  the schema, the first row whose conditions hold is the reported tier, and its constant and
  unit prices add up to the cost.
\<close>

theorem task_list_matches_bill:
  assumes "run_compiled pf c ctx = Inr res" "ctx_usage ctx = Some us" "facts_declared schema us"
    "readTaskTierChain (ast c) schema ib = Some ts"
  shows "\<exists>t. find (task_applies schema us) ts = Some t \<and> res_tier res = kt_label t \<and> res_fixedPrice res = None \<and>
    task_billed schema us t (res_cost res)"
  by (rule task_tiers_billed [OF assms])

theorem task_list_matches_bill_witness:
  "\<exists>ts t. readTaskTierChain task_tree task_schema False = Some ts \<and>
    find (task_applies task_schema [(js ''sec'', J_number (num 4))]) ts = Some t \<and> kt_label t = js ''t'' \<and>
    task_billed task_schema [(js ''sec'', J_number (num 4))] t (num 8)"
proof -
  have "readTaskTierChain task_tree task_schema False \<noteq> None" by code_simp
  then obtain ts where ts: "readTaskTierChain (ast (tree_compiled task_tree)) task_schema False = Some ts" by (auto simp: tree_compiled_def)
  have us: "ctx_usage sample_context = Some [(js ''sec'', J_number (num 4))]" by (simp add: sample_context_def)
  have d: "facts_declared task_schema [(js ''sec'', J_number (num 4))]" by (simp add: facts_declared_def)
  from task_list_matches_bill [OF task_run us d ts] ts show ?thesis by (auto simp: tree_compiled_def task_result_def)
qed

section \<open>Descriptions of conditions\<close>

text \<open>
  C17. The range that describes a conjunction of comparisons of a clock field is exact: a value
  of the field satisfies all comparisons exactly when it lies in the half-open range.
\<close>

theorem clock_range_exact:
  assumes "\<forall>c \<in> set cs. comparison_ok c" "map_of DOMAINS (cmp_name (hd cs)) = Some (lo, hi)"
    "time_range cs = (start, stop)" "lo \<le> v" "v < hi"
  shows "(\<forall>c \<in> set cs. comparison_holds c v) \<longleftrightarrow> js_le start (num v) \<and> js_less (num v) stop"
  using time_range_correct(1) [OF assms(1-3) assms(4,5)] .

theorem clock_range_exact_witness:
  "(\<forall>c \<in> set [sample_comparison ''>='' 9, sample_comparison ''<'' 12]. comparison_holds c 10) \<longleftrightarrow>
   js_le (num 9) (num 10) \<and> js_less (num 10) (num 12)"
proof (rule clock_range_exact)
  show "\<forall>c \<in> set [sample_comparison ''>='' 9, sample_comparison ''<'' 12]. comparison_ok c" by code_simp
  show "map_of DOMAINS (cmp_name (hd [sample_comparison ''>='' 9, sample_comparison ''<'' 12])) = Some (0, 24)" by code_simp
  show "time_range [sample_comparison ''>='' 9, sample_comparison ''<'' 12] = (num 9, num 12)" by code_simp
qed simp_all



text \<open>
  C20. A description of a condition names one time zone, and every clock that the condition
  reads is read in that zone; a condition over clocks of different zones is not described.
\<close>

theorem described_zone_covers_clocks:
  assumes "parse src = Inr n" "describeBillingCondition fm t l n = Inr (Some d)"
  shows "zone_ok d (clock_zones n)"
proof (rule describeBillingCondition_zone [OF assms(2)])
  show "\<forall>m \<in> set (postorder n). syntax_ok m" using parse_tree_ok [OF assms(1)] by (auto simp: tree_ok_def)
qed

theorem described_zone_covers_clocks_witness:
  "\<exists>d. describeBillingCondition sample_formatters (\<lambda>k ps. k) (js ''en'') hour_tree = Inr (Some d) \<and> zone_ok d (clock_zones hour_tree)"
proof -
  have p: "parse hour_source = Inr hour_tree" by code_simp
  have "case describeBillingCondition sample_formatters (\<lambda>k ps. k) (js ''en'') hour_tree of Inr (Some d) \<Rightarrow> True | _ \<Rightarrow> False" by code_simp
  then obtain d where d: "describeBillingCondition sample_formatters (\<lambda>k ps. k) (js ''en'') hour_tree = Inr (Some d)"
    by (auto split: sum.splits option.splits)
  from described_zone_covers_clocks [OF p d] d show ?thesis by blast
qed

section \<open>Conditional task prices\<close>

text \<open>
  C16. The branches into which a task expression is expanded cover every moment exactly once:
  whatever the clock conditions evaluate to, one branch applies.
\<close>

theorem one_task_branch_applies:
  assumes "taskPriceBranches dc n remaining = (Some bs, rest)"
  shows "applying f bs = 1"
  by (rule exactly_one_branch [OF assms])

theorem one_task_branch_applies_witness:
  "\<exists>bs rest. taskPriceBranches sample_display branch_tree 10 = (Some bs, rest) \<and> length bs = 2 \<and> applying (\<lambda>_. True) bs = 1"
proof -
  have "case taskPriceBranches sample_display branch_tree 10 of (Some bs, rest) \<Rightarrow> length bs = 2 | _ \<Rightarrow> False" by code_simp
  then obtain bs rest where b: "taskPriceBranches sample_display branch_tree 10 = (Some bs, rest)" "length bs = 2"
    by (auto split: prod.splits option.splits)
  from one_task_branch_applies [OF b(1)] b show ?thesis by blast
qed

text \<open>
  C22. The combinations of the enumerated facts are exactly the assignments of declared values
  to the fields that are not numbers, and there are at most 128 of them.
\<close>

theorem fact_combinations_complete:
  assumes "combinations schema found [[]] = Some cs"
  shows "set cs = declared_facts schema found \<and> length cs \<le> 128"
  using combinations_complete [OF assms] by (auto simp: MAX_DISPLAY_ROWS_def)

theorem fact_combinations_complete_witness:
  "\<exists>cs. combinations size_schema [js ''size''] [[]] = Some cs \<and> length cs = 2 \<and> set cs = declared_facts size_schema [js ''size'']"
proof -
  have "case combinations size_schema [js ''size''] [[]] of Some cs \<Rightarrow> length cs = 2 | None \<Rightarrow> False" by code_simp
  then obtain cs where cs: "combinations size_schema [js ''size''] [[]] = Some cs" "length cs = 2" by (auto split: option.splits)
  from fact_combinations_complete [OF cs(1)] cs show ?thesis by blast
qed

text \<open>
  C21. The table of conditional task prices has at most 128 rows, and every row has a constant
  that is finite and not negative and at least one unit price, all of them finite.
\<close>

theorem task_table_bounded:
  assumes "task_rows src schema n = Inr (Some rows)" "literals_satisfy is_finite n"
  shows "length rows \<le> MAX_DISPLAY_ROWS \<and> (\<forall>r \<in> set rows. row_ok r)"
  by (rule task_rows_ok [OF assms])

theorem task_table_bounded_witness:
  "\<exists>rows. task_rows [] task_schema probe_tree = Inr (Some rows) \<and> length rows \<le> MAX_DISPLAY_ROWS \<and> (\<forall>r \<in> set rows. row_ok r)"
proof -
  have "case task_rows [] task_schema probe_tree of Inr (Some rows) \<Rightarrow> True | _ \<Rightarrow> False" by code_simp
  then obtain rows where r: "task_rows [] task_schema probe_tree = Inr (Some rows)" by (auto split: sum.splits option.splits)
  have "literals_satisfy is_finite probe_tree" by (auto simp: literals_satisfy_def probe_tree_def tier_call_def)
  from task_table_bounded [OF r this] r show ?thesis by blast
qed

section \<open>The visual editor\<close>

text \<open>
  C18. Patching replaces the spans of the patched nodes by their new texts and nothing else:
  between disjoint spans in order, the text of the source is kept.
\<close>

theorem patches_are_local:
  assumes "patches_between (node_start o') ps (node_end o')" "node_end o' \<le> length src"
  shows "patchSource src o' ps = splice src (node_start o') ps (node_end o')"
  by (rule patchSource_splice [OF assms])

theorem patches_are_local_witness:
  "patchSource product_source product_tree [(Literal (NumberLit (num 2)) True 2 3, js ''70'')] = js ''p*70''"
proof -
  have "patchSource product_source product_tree [(Literal (NumberLit (num 2)) True 2 3, js ''70'')] =
      splice product_source (node_start product_tree) [(Literal (NumberLit (num 2)) True 2 3, js ''70'')] (node_end product_tree)"
    by (rule patches_are_local) (simp_all add: product_tree_def product_source_def)
  then show ?thesis by (simp add: product_tree_def product_source_def slice_def js_def)
qed

text \<open>
  C3. Opening an expression in the visual editor and saving it without an edit gives back the
  source text unchanged, with every white space, parenthesis and spelling of a number.
\<close>

theorem unedited_document_saved:
  assumes "cache_consistent cache" "parseVisualBillingDocument pf src cache = (Some doc, cache')" "cache_consistent other"
  shows "doc_source doc = src \<and> fst (serializeVisualBillingDocument pf doc other) = Serialized src"
  using unedited_document [OF assms(1,2)] assms(3) by blast

theorem unedited_document_saved_witness:
  "\<exists>doc. doc_source doc = fixed_source' \<and> fst (serializeVisualBillingDocument sample_platform doc []) = Serialized fixed_source'"
proof -
  obtain doc cache' where "parseVisualBillingDocument sample_platform fixed_source' [] = (Some doc, cache')"
    using fixed_document by blast
  from unedited_document_saved [OF empty_cache_consistent this empty_cache_consistent] show ?thesis by blast
qed

section \<open>Request rules\<close>

text \<open>
  C5. The rules that the rule editor prints into an expression are read back as the same rules:
  every group with its conditions in order, its multiplier, ranges within a day and overnight,
  and literals of any kind.  A readable group has conditions that a text can express, of the
  modes that are not joined with a conjunction of their own, and no two neighbours that
  together read as one range.
\<close>

theorem rules_read_back:
  assumes "\<forall>g \<in> set groups. readable_group g"
  shows "tryParseRequestRuleExpr (buildRequestRuleExpr groups) = Inr (Some groups)"
  by (rule rule_expression_roundtrip [OF assms])

theorem rules_read_back_witness:
  "tryParseRequestRuleExpr (buildRequestRuleExpr [night_group, morning_group]) = Inr (Some [night_group, morning_group])"
proof -
  have "readable_group night_group" "readable_group morning_group" by code_simp+
  then show ?thesis by (intro rules_read_back) simp
qed

end
